(* ===== verification/Tobira_Prelude.thy ===== *)
theory Tobira_Prelude
  imports "HOL-Library.Word"
begin

text \<open>
  Shared ground of the development: the machine-integer types of the sources, the result type
  that stands for \<^verbatim>\<open>anyhow::Result\<close>, the collections of rewrite rules the component theories
  fill, and the generic lemmas on lists, options and words that several components use.

  A Rust \<^verbatim>\<open>Result\<close> is a value of \<open>'a result\<close>, that is \<open>error + 'a\<close>: \<open>Inl\<close> carries the error,
  \<open>Inr\<close> the value. There is one error type for the whole program, as there is one
  \<^verbatim>\<open>anyhow::Error\<close>: one constructor for every \<^verbatim>\<open>anyhow!\<close> of the modelled sources, and \<open>Foreign\<close> for an
  error value that a library call returned and the \<^verbatim>\<open>?\<close> operator passes on.
\<close>

subsection \<open>Machine integers and byte sequences\<close>

type_synonym u8 = "8 word"
type_synonym u16 = "16 word"
type_synonym u32 = "32 word"
type_synonym u64 = "64 word"
type_synonym usize = "64 word"
type_synonym bytes = "u8 list"

subsection \<open>Errors as values\<close>

text \<open>An \<^verbatim>\<open>h2::Error\<close> as far as the sources look at it: what \<^verbatim>\<open>is_io\<close> and \<^verbatim>\<open>is_go_away\<close> answer.\<close>

datatype h2_error = H2Error (is_io: bool) (is_go_away: bool)

datatype error =
    Foreign string
  | InvalidUuid nat
  | DuplicateUuid string
  | NotVmessLink
  | UrlParseError
  | Base64PayloadError
  | JsonError
  | ShadowrocketPayloadError
  | InvalidPort int
  | MissingServer
  | MissingUuid
  | MissingField string
  | InvalidField string
  | UnknownField string
  | SourceBothLocations
  | SourceNoLocation
  | HttpStatusError nat
  | AddrParseError
  | RequestUriError
  | FrameTooLarge nat
  | RecvError h2_error
  | SendError h2_error
  | StreamClosed
  | EarlyEof
  | Timeout
  | NotGrpcUpstream
  | NotReadyAfterReconnect
  | ResponseHeadersError h2_error
  | JoinCancelled
  | JoinPanicked
  | IdleTimeout
  | IoNotFound
  | Panic string

type_synonym 'a result = "error + 'a"

definition bind_result :: "'a result \<Rightarrow> ('a \<Rightarrow> 'b result) \<Rightarrow> 'b result" where
  "bind_result r f = (case r of Inl e \<Rightarrow> Inl e | Inr x \<Rightarrow> f x)"

definition is_ok :: "'a result \<Rightarrow> bool" where
  "is_ok r = (case r of Inl _ \<Rightarrow> False | Inr _ \<Rightarrow> True)"

definition ok_or :: "'a option \<Rightarrow> error \<Rightarrow> 'a result" where
  "ok_or x e = (case x of None \<Rightarrow> Inl e | Some v \<Rightarrow> Inr v)"

named_theorems result_simps \<open>evaluation of the result combinators\<close>
named_theorems codec_simps \<open>evaluation and inversion of the byte codecs\<close>
named_theorems frame_rules \<open>fields an operation leaves unchanged\<close>

lemma bind_result_simps [simp, result_simps]:
  "bind_result (Inl e) f = Inl e"
  "bind_result (Inr x) f = f x"
  by (simp_all add: bind_result_def)

lemma is_ok_simps [simp, result_simps]:
  "\<not> is_ok (Inl e)"
  "is_ok (Inr x)"
  by (simp_all add: is_ok_def)

lemma ok_or_simps [simp, result_simps]:
  "ok_or None e = Inl e"
  "ok_or (Some v) e = Inr v"
  by (simp_all add: ok_or_def)

lemma bind_result_eq_Inr [simp]:
  "bind_result r f = Inr y \<longleftrightarrow> (\<exists>x. r = Inr x \<and> f x = Inr y)"
  by (cases r) auto

lemma bind_result_assoc:
  "bind_result (bind_result r f) g = bind_result r (\<lambda>x. bind_result (f x) g)"
  by (cases r) auto

lemma ok_or_eq_Inr [simp]: "ok_or x e = Inr v \<longleftrightarrow> x = Some v"
  by (cases x) auto

lemma is_ok_iff: "is_ok r \<longleftrightarrow> (\<exists>x. r = Inr x)"
  by (cases r) auto

text \<open>\<^verbatim>\<open>iter().map(f).collect::<Result<Vec<_>>>()\<close> and every loop that pushes \<^verbatim>\<open>f(x)?\<close>.\<close>

fun map_result :: "('a \<Rightarrow> 'b result) \<Rightarrow> 'a list \<Rightarrow> 'b list result" where
  "map_result f [] = Inr []"
| "map_result f (x # xs) = bind_result (f x) (\<lambda>y. bind_result (map_result f xs) (\<lambda>ys. Inr (y # ys)))"

lemma map_result_eq_Inr:
  "map_result f xs = Inr ys \<longleftrightarrow> list_all2 (\<lambda>x y. f x = Inr y) xs ys"
  by (induction xs arbitrary: ys) (auto simp: list_all2_Cons1)

lemma map_result_is_ok: "is_ok (map_result f xs) \<longleftrightarrow> (\<forall>x \<in> set xs. is_ok (f x))"
proof (induction xs)
  case Nil
  then show ?case by simp
next
  case (Cons x xs)
  then show ?case by (cases "f x"; cases "map_result f xs") auto
qed

lemma map_result_Inl: "map_result f xs = Inl e \<Longrightarrow> \<exists>x \<in> set xs. f x = Inl e"
proof (induction xs)
  case (Cons x xs)
  then show ?case by (cases "f x"; cases "map_result f xs") auto
qed simp

lemma map_result_length: "map_result f xs = Inr ys \<Longrightarrow> length ys = length xs"
  by (auto simp: map_result_eq_Inr dest: list_all2_lengthD)

subsection \<open>Lists\<close>

lemma list_all2_in1: "list_all2 P xs ys \<Longrightarrow> x \<in> set xs \<Longrightarrow> \<exists>y \<in> set ys. P x y"
  by (induction rule: list_all2_induct) auto

lemma list_all2_in2: "list_all2 P xs ys \<Longrightarrow> y \<in> set ys \<Longrightarrow> \<exists>x \<in> set xs. P x y"
  by (induction rule: list_all2_induct) auto

lemma take_append_exact [simp]: "length xs = n \<Longrightarrow> take n (xs @ ys) = xs"
  by simp

lemma drop_append_exact [simp]: "length xs = n \<Longrightarrow> drop n (xs @ ys) = ys"
  by simp

lemma filter_map_filter_eq: "List.map_filter f (xs @ ys) = List.map_filter f xs @ List.map_filter f ys"
  by (simp add: List.map_filter_def)

lemma set_map_filter_iff: "y \<in> set (List.map_filter f xs) \<longleftrightarrow> (\<exists>x \<in> set xs. f x = Some y)"
  by (force simp: List.map_filter_def)

subsection \<open>Big-endian words\<close>

text \<open>
  \<^verbatim>\<open>uN::from_be_bytes\<close> and \<^verbatim>\<open>uN::to_be_bytes\<close>. The decoder reads any number of bytes; the encoder
  is given the number of bytes of the type.
\<close>

definition nat_of_be :: "bytes \<Rightarrow> nat" where
  "nat_of_be bs = foldl (\<lambda>acc b. acc * 256 + unat b) 0 bs"

fun be_of_nat :: "nat \<Rightarrow> nat \<Rightarrow> bytes" where
  "be_of_nat 0 v = []"
| "be_of_nat (Suc n) v = be_of_nat n (v div 256) @ [word_of_nat (v mod 256)]"

lemma length_be_of_nat [simp]: "length (be_of_nat n v) = n"
  by (induction n arbitrary: v) auto

lemma nat_of_be_append [codec_simps]: "nat_of_be (bs @ [b]) = nat_of_be bs * 256 + unat b"
  by (simp add: nat_of_be_def)

lemma nat_of_be_Nil [simp]: "nat_of_be [] = 0"
  by (simp add: nat_of_be_def)

lemma unat_of_nat_mod256 [simp]: "unat (word_of_nat (v mod 256) :: u8) = v mod 256"
  by (simp add: unat_of_nat)

lemma nat_of_be_of_nat: "v < 256 ^ n \<Longrightarrow> nat_of_be (be_of_nat n v) = v"
proof (induction n arbitrary: v)
  case 0
  then show ?case by simp
next
  case (Suc n)
  then have "v div 256 < 256 ^ n" by (simp add: less_mult_imp_div_less mult.commute)
  with Suc.IH show ?case by (simp add: nat_of_be_append)
qed

lemma nat_of_be_bound: "nat_of_be bs < 256 ^ length bs"
proof (induction bs rule: rev_induct)
  case Nil
  then show ?case by simp
next
  case (snoc b bs)
  have "unat b < 256" using unsigned_less [of b, where ?'a = nat] by simp
  with snoc show ?case by (simp add: nat_of_be_append)
qed

end
