(* ===== verification/Buf_Pool.thy ===== *)
theory Buf_Pool
  imports Tobira_Prelude
begin

text \<open>
  The byte-buffer pool of \<^verbatim>\<open>src/buf.rs\<close>. A \<^verbatim>\<open>BytesMut\<close> is its contents and its capacity; the pool
  is one list of free buffers per size class (the \<^verbatim>\<open>Vec\<close> behind each mutex, its top at the head of
  the list). Every operation locks one bucket for its whole duration, so the operations are
  atomic and the model passes the pool from one to the next.

  The lemmas show what a client may rely on: a buffer handed out is empty, the buckets never
  exceed their limit, and a buffer handed out is large enough as long as the buffers put back
  have the capacity of their size class. The last condition is needed: \<open>put\<close> files a buffer by
  rounding its capacity up, so a buffer that has lost capacity is handed out for requests it is
  too small for.
\<close>

subsection \<open>Definitions\<close>

definition SIZE_CLASSES :: "nat list" where
  "SIZE_CLASSES = [1024, 2048, 4096, 8192, 16384, 32768, 65536]"

definition MAX_POOL_PER_CLASS :: nat where
  "MAX_POOL_PER_CLASS = 64"

record bytes_mut =
  bm_data :: bytes
  bm_cap :: nat

record buf_pool =
  buckets :: "bytes_mut list list"

definition bytes_mut_with_capacity :: "nat \<Rightarrow> bytes_mut" where
  "bytes_mut_with_capacity n = \<lparr>bm_data = [], bm_cap = n\<rparr>"

definition bytes_mut_clear :: "bytes_mut \<Rightarrow> bytes_mut" where
  "bytes_mut_clear b = b\<lparr>bm_data := []\<rparr>"

definition buf_pool_new :: buf_pool where
  "buf_pool_new = \<lparr>buckets = map (\<lambda>_. []) SIZE_CLASSES\<rparr>"

fun position :: "('a \<Rightarrow> bool) \<Rightarrow> 'a list \<Rightarrow> nat option" where
  "position P [] = None"
| "position P (x # xs) = (if P x then Some 0 else map_option Suc (position P xs))"

definition class_for :: "nat \<Rightarrow> nat option" where
  "class_for n = position (\<lambda>s. s \<ge> n) SIZE_CLASSES"

definition buf_get :: "buf_pool \<Rightarrow> nat \<Rightarrow> bytes_mut \<times> buf_pool" where
  "buf_get p min_size =
     (case class_for min_size of
        Some idx \<Rightarrow>
          (case buckets p ! idx of
             buf # rest \<Rightarrow> (bytes_mut_clear buf, p\<lparr>buckets := (buckets p)[idx := rest]\<rparr>)
           | [] \<Rightarrow> (bytes_mut_with_capacity (SIZE_CLASSES ! idx), p))
      | None \<Rightarrow> (bytes_mut_with_capacity min_size, p))"

definition buf_put :: "buf_pool \<Rightarrow> bytes_mut \<Rightarrow> buf_pool" where
  "buf_put p buf =
     (case class_for (bm_cap buf) of
        Some idx \<Rightarrow>
          (if length (buckets p ! idx) < MAX_POOL_PER_CLASS
           then p\<lparr>buckets := (buckets p)[idx := buf # buckets p ! idx]\<rparr> else p)
      | None \<Rightarrow> p)"

text \<open>
  The well-formedness of a pool (one bucket per class, none over its limit, every pooled buffer
  filed under the class its capacity rounds up to), and the stronger condition that every pooled
  buffer has the full capacity of its class.
\<close>

definition bucket_wf :: "nat \<Rightarrow> bytes_mut list \<Rightarrow> bool" where
  "bucket_wf i bs \<longleftrightarrow> length bs \<le> MAX_POOL_PER_CLASS \<and> (\<forall>b \<in> set bs. class_for (bm_cap b) = Some i)"

definition bucket_exact :: "nat \<Rightarrow> bytes_mut list \<Rightarrow> bool" where
  "bucket_exact i bs \<longleftrightarrow> (\<forall>b \<in> set bs. bm_cap b = SIZE_CLASSES ! i)"

definition all_buckets :: "(nat \<Rightarrow> bytes_mut list \<Rightarrow> bool) \<Rightarrow> buf_pool \<Rightarrow> bool" where
  "all_buckets Q p \<longleftrightarrow> length (buckets p) = length SIZE_CLASSES
     \<and> (\<forall>i < length SIZE_CLASSES. Q i (buckets p ! i))"

definition pool_wf :: "buf_pool \<Rightarrow> bool" where
  "pool_wf p = all_buckets bucket_wf p"

definition pool_exact :: "buf_pool \<Rightarrow> bool" where
  "pool_exact p = all_buckets bucket_exact p"

text \<open>A history of calls on the pool from any number of tasks, in the order the bucket locks grant.\<close>

datatype buf_op = Get nat | Put bytes_mut

fun buf_run :: "buf_pool \<Rightarrow> buf_op list \<Rightarrow> bytes_mut list \<times> buf_pool" where
  "buf_run p [] = ([], p)"
| "buf_run p (Get n # ops) =
     (let r = buf_get p n; q = buf_run (snd r) ops in (fst r # fst q, snd q))"
| "buf_run p (Put b # ops) = buf_run (buf_put p b) ops"

subsection \<open>Size classes\<close>

lemma position_SomeD:
  "position P xs = Some i \<Longrightarrow> i < length xs \<and> P (xs ! i) \<and> (\<forall>j < i. \<not> P (xs ! j))"
proof (induction xs arbitrary: i)
  case Nil
  then show ?case by simp
next
  case (Cons x xs)
  then show ?case by (cases i) (auto split: if_splits simp: less_Suc_eq_0_disj)
qed

lemma position_None_iff: "position P xs = None \<longleftrightarrow> (\<forall>x \<in> set xs. \<not> P x)"
  by (induction xs) auto

lemma position_eqI:
  "i < length xs \<Longrightarrow> P (xs ! i) \<Longrightarrow> (\<forall>j < i. \<not> P (xs ! j)) \<Longrightarrow> position P xs = Some i"
proof (induction xs arbitrary: i)
  case Nil
  then show ?case by simp
next
  case (Cons x xs)
  then show ?case by (cases i) (auto simp: All_less_Suc2)
qed

lemma class_for_SomeD:
  "class_for n = Some i \<Longrightarrow> i < length SIZE_CLASSES \<and> n \<le> SIZE_CLASSES ! i"
  by (auto simp: class_for_def dest: position_SomeD)

lemma class_for_None: "class_for n = None \<longleftrightarrow> 65536 < n"
  by (auto simp: class_for_def position_None_iff SIZE_CLASSES_def)

lemma class_for_class:
  assumes "i < length SIZE_CLASSES"
  shows "class_for (SIZE_CLASSES ! i) = Some i"
proof -
  have "sorted_wrt (<) SIZE_CLASSES" by (simp add: SIZE_CLASSES_def)
  then have "\<forall>j < i. \<not> SIZE_CLASSES ! i \<le> SIZE_CLASSES ! j"
    using assms by (auto simp: sorted_wrt_iff_nth_less not_le)
  with assms show ?thesis unfolding class_for_def by (intro position_eqI) auto
qed

subsection \<open>Operations\<close>

lemma buf_get_empty: "bm_data (fst (buf_get p n)) = []"
  by (simp add: buf_get_def bytes_mut_clear_def bytes_mut_with_capacity_def
      split: option.splits list.splits)

lemma buf_new_wf: "pool_wf buf_pool_new" "pool_exact buf_pool_new"
  by (simp_all add: pool_wf_def pool_exact_def all_buckets_def bucket_wf_def bucket_exact_def
      buf_pool_new_def)

text \<open>
  Both operations replace one bucket: its tail for \<open>get\<close>, one more buffer for \<open>put\<close>. A property of
  every bucket is kept by both when it passes to tails and survives that push.
\<close>

lemma all_buckets_update:
  assumes "all_buckets Q p" and "Q k bs"
  shows "all_buckets Q (p\<lparr>buckets := (buckets p)[k := bs]\<rparr>)"
proof -
  have "Q i ((buckets p)[k := bs] ! i)" if "i < length SIZE_CLASSES" for i
    using assms that by (cases "i = k") (auto simp: all_buckets_def)
  with assms(1) show ?thesis by (simp add: all_buckets_def)
qed

lemma buf_get_buckets:
  assumes "all_buckets Q p" and tl: "\<And>i b bs. Q i (b # bs) \<Longrightarrow> Q i bs"
  shows "all_buckets Q (snd (buf_get p n))"
proof (cases "class_for n")
  case None
  with assms show ?thesis by (simp add: buf_get_def)
next
  case (Some k)
  show ?thesis
  proof (cases "buckets p ! k")
    case Nil
    with Some assms show ?thesis by (simp add: buf_get_def)
  next
    case (Cons b bs)
    have "Q k (b # bs)" using assms(1) class_for_SomeD [OF Some] Cons by (metis all_buckets_def)
    then have "Q k bs" by (rule tl)
    with Some Cons all_buckets_update [OF assms(1)] show ?thesis by (simp add: buf_get_def)
  qed
qed

lemma buf_put_buckets:
  assumes "all_buckets Q p"
    and "\<And>i. class_for (bm_cap b) = Some i \<Longrightarrow> length (buckets p ! i) < MAX_POOL_PER_CLASS
      \<Longrightarrow> Q i (buckets p ! i) \<Longrightarrow> Q i (b # buckets p ! i)"
  shows "all_buckets Q (buf_put p b)"
proof (cases "class_for (bm_cap b)")
  case None
  with assms show ?thesis by (simp add: buf_put_def)
next
  case (Some k)
  have "Q k (buckets p ! k)" using assms(1) class_for_SomeD [OF Some] by (simp add: all_buckets_def)
  with Some assms(2) [OF Some] all_buckets_update [OF assms(1)] assms(1) show ?thesis
    by (simp add: buf_put_def)
qed

lemma buf_get_wf: "pool_wf p \<Longrightarrow> pool_wf (snd (buf_get p n))"
  unfolding pool_wf_def by (rule buf_get_buckets) (auto simp: bucket_wf_def)

lemma buf_put_wf: "pool_wf p \<Longrightarrow> pool_wf (buf_put p b)"
  unfolding pool_wf_def by (rule buf_put_buckets) (auto simp: bucket_wf_def)

lemma buf_get_exact: "pool_exact p \<Longrightarrow> pool_exact (snd (buf_get p n))"
  unfolding pool_exact_def by (rule buf_get_buckets) (auto simp: bucket_exact_def)

lemma buf_put_exact:
  assumes "pool_exact p" "bm_cap b \<in> set SIZE_CLASSES"
  shows "pool_exact (buf_put p b)"
  unfolding pool_exact_def
proof (rule buf_put_buckets)
  obtain j where "j < length SIZE_CLASSES" "bm_cap b = SIZE_CLASSES ! j"
    using assms(2) by (metis in_set_conv_nth)
  then show "bucket_exact i (b # buckets p ! i)"
    if "class_for (bm_cap b) = Some i" "bucket_exact i (buckets p ! i)" for i
    using that class_for_class [of j] by (simp add: bucket_exact_def)
qed (use assms(1) in \<open>simp add: pool_exact_def\<close>)

lemma buf_get_capacity:
  assumes "pool_exact p"
  shows "n \<le> bm_cap (fst (buf_get p n))"
proof (cases "class_for n")
  case None
  then show ?thesis by (simp add: buf_get_def bytes_mut_with_capacity_def)
next
  case (Some i)
  note i = class_for_SomeD [OF Some]
  with assms have "bucket_exact i (buckets p ! i)" by (simp add: pool_exact_def all_buckets_def)
  with Some i show ?thesis
    by (cases "buckets p ! i")
      (auto simp: buf_get_def bytes_mut_with_capacity_def bytes_mut_clear_def bucket_exact_def)
qed

subsection \<open>The pool as its clients see it\<close>

text \<open>
  The contract of a buffer pool: \<open>get\<close> hands out an empty buffer and both operations keep the
  invariant; with the strong invariant, kept by \<open>put\<close> on the buffers \<open>fits\<close> admits, the buffer is
  large enough. A client that takes a buffer, fills it and puts it back leaves a good pool.
\<close>

locale buffer_pool =
  fixes get :: "'p \<Rightarrow> nat \<Rightarrow> bytes_mut \<times> 'p"
    and put :: "'p \<Rightarrow> bytes_mut \<Rightarrow> 'p"
    and inv :: "'p \<Rightarrow> bool"
    and strong :: "'p \<Rightarrow> bool"
    and fits :: "bytes_mut \<Rightarrow> bool"
  assumes get_empty: "bm_data (fst (get p n)) = []"
    and get_inv: "inv p \<Longrightarrow> inv (snd (get p n))"
    and put_inv: "inv p \<Longrightarrow> inv (put p b)"
    and get_strong: "strong p \<Longrightarrow> strong (snd (get p n))"
    and put_strong: "strong p \<Longrightarrow> fits b \<Longrightarrow> strong (put p b)"
    and get_cap: "strong p \<Longrightarrow> n \<le> bm_cap (fst (get p n))"
begin

lemma use_and_return:
  assumes "inv p" and "get p n = (b, p')"
  shows "bm_data b = [] \<and> inv (put p' (b\<lparr>bm_data := bs, bm_cap := c\<rparr>))"
  using assms get_empty [of p n] get_inv [of p n] put_inv by simp

lemma use_and_return_strong:
  assumes "strong p" and "get p n = (b, p')" and "\<And>bs. fits (b\<lparr>bm_data := bs\<rparr>)"
  shows "n \<le> bm_cap b \<and> strong (put p' (b\<lparr>bm_data := bs\<rparr>))"
  using assms get_cap [of p n] get_strong [of p n] put_strong by simp

end

interpretation tobira_buf: buffer_pool buf_get buf_put pool_wf pool_exact
  "\<lambda>b. bm_cap b \<in> set SIZE_CLASSES \<or> 65536 < bm_cap b"
proof unfold_locales
  fix p :: buf_pool and b :: bytes_mut
  assume "pool_exact p" and "bm_cap b \<in> set SIZE_CLASSES \<or> 65536 < bm_cap b"
  then show "pool_exact (buf_put p b)"
  proof (elim disjE)
    assume "65536 < bm_cap b"
    then have "class_for (bm_cap b) = None" by (simp add: class_for_None)
    then have "buf_put p b = p" by (simp add: buf_put_def)
    with \<open>pool_exact p\<close> show "pool_exact (buf_put p b)" by simp
  qed (rule buf_put_exact)
qed (simp_all add: buf_get_empty buf_get_wf buf_put_wf buf_get_exact buf_get_capacity)

subsection \<open>Properties\<close>

lemma buf_run_wf: "pool_wf p \<Longrightarrow> pool_wf (snd (buf_run p ops))"
  by (induction p ops rule: buf_run.induct) (auto simp: Let_def buf_put_wf buf_get_wf)

lemma buf_run_empty: "b \<in> set (fst (buf_run p ops)) \<Longrightarrow> bm_data b = []"
  by (induction p ops rule: buf_run.induct) (auto simp: Let_def buf_get_empty)

text \<open>
  After any history of calls from the empty pool, every buffer the pool has
  handed out was empty, and the pool still has one bucket per size class, none of them above
  \<^const>\<open>MAX_POOL_PER_CLASS\<close> buffers.
\<close>

theorem buf_pool_history:
  "pool_wf (snd (buf_run buf_pool_new ops))
   \<and> list_all (\<lambda>b. bm_data b = []) (fst (buf_run buf_pool_new ops))"
  using buf_run_wf [OF buf_new_wf(1)] buf_run_empty by (auto simp: list_all_iff)

text \<open>
  On a pool whose buffers have the capacity of their size class, the
  buffer \<open>get\<close> hands out has at least the capacity asked for, and putting back a buffer of a size
  class, or one above all classes, keeps the pool in that state.
\<close>

theorem buf_get_large_enough:
  assumes "pool_exact p" and "buf_get p n = (b, p')"
    and "bm_cap c \<in> set SIZE_CLASSES \<or> 65536 < bm_cap c"
  shows "n \<le> bm_cap b \<and> pool_exact (buf_put p' c)"
  using assms tobira_buf.get_cap [of p n] tobira_buf.get_strong [of p n]
    tobira_buf.put_strong [of p' c] by auto

text \<open>
  A buffer of any capacity that is not a size class, put into an empty
  pool, is handed out for the next request of the class it was rounded up to, which it is too
  small for. (A frame reader whose buffer has been split off returns such a buffer.)
\<close>

theorem buf_put_rounds_up:
  assumes "class_for (bm_cap b) = Some i" and "bm_cap b < SIZE_CLASSES ! i"
  shows "bm_cap (fst (buf_get (buf_put buf_pool_new b) (SIZE_CLASSES ! i))) < SIZE_CLASSES ! i"
proof -
  have i: "i < length SIZE_CLASSES" using class_for_SomeD [OF assms(1)] by simp
  then have "buckets (buf_put buf_pool_new b) ! i = [b]"
    by (simp add: buf_put_def assms(1) buf_pool_new_def MAX_POOL_PER_CLASS_def)
  with assms(2) class_for_class [OF i] show ?thesis
    by (simp add: buf_get_def bytes_mut_clear_def)
qed

theorem buf_put_rounds_up_witness:
  "bm_cap (fst (buf_get (buf_put buf_pool_new (bytes_mut_with_capacity 16000)) (SIZE_CLASSES ! 4)))
   < SIZE_CLASSES ! 4"
proof (rule buf_put_rounds_up)
  show "class_for (bm_cap (bytes_mut_with_capacity 16000)) = Some 4"
    by (simp add: class_for_def bytes_mut_with_capacity_def SIZE_CLASSES_def)
  show "bm_cap (bytes_mut_with_capacity 16000) < SIZE_CLASSES ! 4"
    by (simp add: bytes_mut_with_capacity_def SIZE_CLASSES_def)
qed

end
