(* ===== verification/Grpc_Frame.thy ===== *)
theory Grpc_Frame
  imports Buf_Pool
begin

unbundle bit_operations_syntax

text \<open>
  The gun-lite frame codec of \<^verbatim>\<open>src/relay/transport/grpc.rs\<close>: protobuf varints, the frame
  \<^verbatim>\<open>[0x00][outer_len : 4 bytes BE][0x0A][varint(inner_len)][data]\<close> and its two decoders.
  \<^verbatim>\<open>u64\<close> values are 64-bit words; \<^verbatim>\<open>usize\<close> is 64 bits wide. A panic of the code is a value of
  the model: \<open>decode_gun_payload\<close> returns \<open>Inl (Panic _)\<close> where the slice expression panics
  because the \<^verbatim>\<open>usize\<close> addition before it has wrapped around.

  The lemmas show that the varint reader inverts the writer on every 64-bit value, that the
  writer produces \<open>varint_size\<close> bytes, that decoding an encoded frame gives the payload back, and
  exactly which payloads make the decoder panic.
\<close>

subsection \<open>Definitions: varints\<close>

lemma unat_drop7: "unat (drop_bit 7 (v :: u64)) = unat v div 128"
  by (simp add: drop_bit_eq_div unat_div_distrib)

function varint_size :: "u64 \<Rightarrow> nat" where
  "varint_size v = (if v \<ge> 0x80 then varint_size (drop_bit 7 v) + 1 else 1)"
  by pat_completeness auto
termination
proof (relation "measure unat")
  fix v :: u64
  assume "v \<ge> 0x80"
  then have "0 < unat v" by (simp add: word_le_nat_alt)
  then have "unat v div 128 < unat v" by simp
  then show "(drop_bit 7 v, v) \<in> measure unat" by (simp add: unat_drop7)
qed simp

function write_varint :: "bytes \<Rightarrow> u64 \<Rightarrow> bytes" where
  "write_varint buf v =
     (if v < 0x80 then buf @ [ucast v]
      else write_varint (buf @ [(ucast v AND 0x7F) OR 0x80]) (drop_bit 7 v))"
  by pat_completeness auto
termination
proof (relation "measure (\<lambda>(buf, v). unat v)")
  fix buf :: bytes and v :: u64
  assume "\<not> v < 0x80"
  then have "0 < unat v" by (simp add: word_le_nat_alt not_less)
  then have "unat v div 128 < unat v" by simp
  then show "((buf @ [(ucast v AND 0x7F) OR 0x80], drop_bit 7 v), (buf, v)) \<in> measure (\<lambda>(buf, v). unat v)"
    by (simp add: unat_drop7)
qed simp

declare varint_size.simps [simp del] write_varint.simps [simp del]

fun read_varint_loop :: "bytes \<Rightarrow> u64 \<Rightarrow> nat \<Rightarrow> nat \<Rightarrow> (u64 \<times> nat) option" where
  "read_varint_loop [] result shift i = None"
| "read_varint_loop (b # bs) result shift i =
     (if shift \<ge> 64 then None
      else
        let result' = result OR push_bit shift (ucast (b AND 0x7F)) in
        if b < 0x80 then Some (result', i + 1)
        else read_varint_loop bs result' (shift + 7) (i + 1))"

definition read_varint :: "bytes \<Rightarrow> (u64 \<times> nat) option" where
  "read_varint bs = read_varint_loop bs 0 0 0"

subsection \<open>Definitions: frames\<close>

definition MAX_GRPC_FRAME_SIZE :: nat where
  "MAX_GRPC_FRAME_SIZE = 16 * 1024 * 1024"

definition frame_outer_len :: "bytes \<Rightarrow> nat" where
  "frame_outer_len data = 1 + varint_size (word_of_nat (length data)) + length data"

definition put_u32 :: "bytes \<Rightarrow> nat \<Rightarrow> bytes" where
  "put_u32 buf v = buf @ be_of_nat 4 (v mod 2 ^ 32)"

definition encode_grpc_frame :: "bytes \<Rightarrow> bytes" where
  "encode_grpc_frame data =
     (let inner_len = word_of_nat (length data) :: u64;
          outer_len = frame_outer_len data;
          buf = [] @ [0];
          buf = put_u32 buf outer_len;
          buf = buf @ [0x0A];
          buf = write_varint buf inner_len
      in buf @ data)"

text \<open>The same operation with the buffer taken from the pool.\<close>

definition encode_grpc_frame_pooled :: "buf_pool \<Rightarrow> bytes \<Rightarrow> bytes \<times> buf_pool" where
  "encode_grpc_frame_pooled pool data =
     (let (b, pool') = buf_get pool (5 + frame_outer_len data);
          buf = bm_data b @ [0];
          buf = put_u32 buf (frame_outer_len data);
          buf = buf @ [0x0A];
          buf = write_varint buf (word_of_nat (length data))
      in (buf @ data, pool'))"

text \<open>
  The slice \<^verbatim>\<open>&payload[a..b]\<close>: it panics unless \<^verbatim>\<open>a <= b <= payload.len()\<close>.
\<close>

definition slice :: "bytes \<Rightarrow> usize \<Rightarrow> usize \<Rightarrow> bytes result" where
  "slice xs a b =
     (if a \<le> b \<and> unat b \<le> length xs then Inr (take (unat b - unat a) (drop (unat a) xs))
      else Inl (Panic ''slice index''))"

definition decode_gun_payload :: "bytes \<Rightarrow> bytes option result" where
  "decode_gun_payload payload =
     (case payload of
        [] \<Rightarrow> Inr (Some [])
      | b # rest \<Rightarrow>
          if b \<noteq> 0x0A then Inr None
          else (case read_varint rest of
                  None \<Rightarrow> Inr None
                | Some (inner_len, varint_len) \<Rightarrow>
                    let data_start = 1 + word_of_nat varint_len :: usize in
                    if word_of_nat (length payload) < data_start + inner_len then Inr None
                    else bind_result (slice payload data_start (data_start + inner_len))
                           (\<lambda>d. Inr (Some d))))"

definition frame_header_len :: "bytes \<Rightarrow> nat" where
  "frame_header_len frame = nat_of_be (take 4 (drop 1 frame))"

definition decode_grpc_frame_data :: "bytes \<Rightarrow> bytes option result" where
  "decode_grpc_frame_data frame =
     (if length frame < 5 then Inr None
      else
        let outer_len = frame_header_len frame in
        if outer_len > MAX_GRPC_FRAME_SIZE \<or> length frame < 5 + outer_len then Inr None
        else decode_gun_payload (take outer_len (drop 5 frame)))"

subsection \<open>Varints: the reader inverts the writer\<close>

lemma write_varint_buf: "write_varint buf v = buf @ write_varint [] v"
proof (induction "unat v" arbitrary: v buf rule: less_induct)
  case less
  show ?case
  proof (cases "v < 0x80")
    case True
    then show ?thesis by (simp add: write_varint.simps [of _ v])
  next
    case False
    then have "unat (drop_bit 7 v) < unat v" by (simp add: unat_drop7 word_le_nat_alt not_less)
    note IH = less.hyps [OF this]
    show ?thesis
      using False IH [of "buf @ [(ucast v AND 0x7F) OR 0x80]"] IH [of "[(ucast v AND 0x7F) OR 0x80]"]
      by (simp add: write_varint.simps [of _ v])
  qed
qed

lemma write_varint_small: "v < 0x80 \<Longrightarrow> write_varint [] v = [ucast v]"
  by (simp add: write_varint.simps)

lemma write_varint_big:
  "\<not> v < 0x80 \<Longrightarrow> write_varint [] v = ((ucast v AND 0x7F) OR 0x80) # write_varint [] (drop_bit 7 v)"
  using write_varint_buf [of "[(ucast v AND 0x7F) OR 0x80]" "drop_bit 7 v"]
  by (simp add: write_varint.simps [of "[]" v])

lemma low_bits_of_byte: "ucast ((ucast v :: u8) AND 0x7F) = take_bit 7 (v :: u64)"
proof -
  have m: "(0x7F :: u8) = mask 7" by (simp add: mask_eq_exp_minus_1)
  have "ucast ((ucast v :: u8) AND mask 7) = take_bit 7 v"
    by (rule bit_word_eqI) (auto simp: bit_simps)
  then show ?thesis by (simp only: m)
qed

lemma low_bits_of_more:
  "ucast (((ucast v :: u8) AND 0x7F OR 0x80) AND 0x7F) = take_bit 7 (v :: u64)"
proof -
  have "((ucast v :: u8) AND 0x7F OR 0x80) AND 0x7F = ucast v AND 0x7F"
    by (simp add: bit.conj_disj_distrib2 and.assoc)
  then show ?thesis by (simp add: low_bits_of_byte)
qed

lemma more_byte_ge: "\<not> ((b :: u8) OR 0x80) < 0x80"
proof -
  have "0x80 \<le> b OR 0x80" by (metis le_word_or2 or.commute)
  then show ?thesis by simp
qed

lemma split_low7: "take_bit 7 v OR push_bit 7 (drop_bit 7 v) = (v :: u64)"
proof (rule bit_word_eqI)
  fix n
  assume "n < LENGTH(64)"
  then show "bit (take_bit 7 v OR push_bit 7 (drop_bit 7 v)) n = bit v n"
    by (cases "n < 7") (simp_all add: bit_simps)
qed

lemma read_varint_loop_write:
  assumes "shift < 64" and "unat v < 2 ^ (64 - shift)"
  shows "read_varint_loop (write_varint [] v @ rest) acc shift i
    = Some (acc OR push_bit shift v, i + varint_size v)"
  using assms
proof (induction "unat v" arbitrary: v acc shift i rule: less_induct)
  case less
  show ?case
  proof (cases "v < 0x80")
    case True
    then have "unat v < 128" by (simp add: word_less_nat_alt)
    then have "unat (take_bit 7 v) = unat v" by (simp add: take_bit_eq_mod unat_mod_distrib)
    then have "take_bit 7 v = v" by (rule unsigned_word_eqI)
    moreover have "(ucast v :: u8) < 0x80"
      using \<open>unat v < 128\<close> by (simp add: word_less_nat_alt unsigned_ucast_eq take_bit_eq_mod)
    ultimately show ?thesis using True less.prems
      by (simp add: write_varint_small low_bits_of_byte varint_size.simps not_less)
  next
    case False
    then have v: "128 \<le> unat v" by (simp add: word_le_nat_alt not_less)
    have pow: "(2::nat) ^ 7 < 2 ^ (64 - shift)" using v less.prems(2) by simp
    then have s: "shift + 7 < 64" using power_less_imp_less_exp [OF _ pow] by simp
    then have "(2::nat) ^ (64 - shift) = 2 ^ (64 - (shift + 7)) * 128"
      using power_add [of "2::nat" "64 - (shift + 7)" 7] by (simp add: Suc_diff_le)
    then have d: "unat (drop_bit 7 v) < 2 ^ (64 - (shift + 7))"
      using less.prems(2) by (simp add: unat_drop7 less_mult_imp_div_less)
    have "unat (drop_bit 7 v) < unat v" using v by (simp add: unat_drop7)
    note IH = less.hyps [OF this s d]
    have "take_bit 7 v OR push_bit 7 (drop_bit 7 v) = v" by (rule split_low7)
    then have "push_bit shift v = push_bit shift (take_bit 7 v) OR push_bit (shift + 7) (drop_bit 7 v)"
      by (metis push_bit_or push_bit_push_bit add.commute)
    moreover have "0x80 \<le> v" using False by simp
    ultimately show ?thesis using False less.prems IH
      by (simp add: write_varint_big low_bits_of_more varint_size.simps [of v] or.assoc
          more_byte_ge Let_def del: not_less)
  qed
qed

lemma read_varint_write [codec_simps]: "read_varint (write_varint [] v @ rest) = Some (v, varint_size v)"
  using read_varint_loop_write [of 0 v rest 0 0] unsigned_less [of v, where ?'a = nat]
  by (simp add: read_varint_def)

lemma length_write_varint [simp, codec_simps]: "length (write_varint [] v) = varint_size v"
proof (induction "unat v" arbitrary: v rule: less_induct)
  case less
  show ?case
  proof (cases "v < 0x80")
    case True
    then show ?thesis by (simp add: write_varint_small varint_size.simps not_less)
  next
    case False
    then have "unat (drop_bit 7 v) < unat v" by (simp add: unat_drop7 word_le_nat_alt not_less)
    with less False show ?thesis by (simp add: write_varint_big varint_size.simps [of v] not_less)
  qed
qed

lemma varint_size_bound:
  assumes "unat v < 128 ^ n" and "0 < n"
  shows "1 \<le> varint_size v \<and> varint_size v \<le> n"
  using assms
proof (induction n arbitrary: v)
  case 0
  then show ?case by simp
next
  case (Suc n)
  show ?case
  proof (cases "0x80 \<le> v")
    case False
    then show ?thesis by (simp add: varint_size.simps)
  next
    case True
    then have "128 \<le> unat v" by (simp add: word_le_nat_alt)
    with Suc.prems have "0 < n" by (cases n) auto
    moreover have "unat (drop_bit 7 v) < 128 ^ n"
      using Suc.prems by (simp add: unat_drop7 less_mult_imp_div_less mult.commute)
    ultimately show ?thesis using True Suc.IH [of "drop_bit 7 v"] by (simp add: varint_size.simps [of v])
  qed
qed

lemma varint_size_le_10: "1 \<le> varint_size v \<and> varint_size v \<le> 10"
  using varint_size_bound [of v 10] unsigned_less [of v, where ?'a = nat] by simp

lemma read_varint_loop_consumed:
  "read_varint_loop bs acc shift i = Some (v, n) \<Longrightarrow> i < n \<and> n \<le> i + length bs"
  by (induction bs acc shift i rule: read_varint_loop.induct) (auto simp: Let_def split: if_splits)

lemma read_varint_consumed: "read_varint bs = Some (v, n) \<Longrightarrow> 0 < n \<and> n \<le> length bs"
  using read_varint_loop_consumed [of bs 0 0 0 v n] by (simp add: read_varint_def)

lemma read_varint_loop_ten: "read_varint_loop bs acc shift i = Some (v, n) \<Longrightarrow> 7 * (n - i) \<le> 70 - shift"
proof (induction bs acc shift i rule: read_varint_loop.induct)
  case (2 b bs acc shift i)
  then show ?case
    using read_varint_loop_consumed [of bs "acc OR push_bit shift (ucast (b AND 0x7F))" "shift + 7" "i + 1" v n]
    by (auto simp: Let_def split: if_splits)
qed simp

lemma read_varint_at_most_10: "read_varint bs = Some (v, n) \<Longrightarrow> n \<le> 10"
  using read_varint_loop_ten [of bs 0 0 0 v n] by (simp add: read_varint_def)

subsection \<open>Frames\<close>

lemma encode_grpc_frame_eq:
  "encode_grpc_frame data = 0 # be_of_nat 4 (frame_outer_len data mod 2 ^ 32)
     @ 0x0A # write_varint [] (word_of_nat (length data)) @ data"
  unfolding encode_grpc_frame_def Let_def put_u32_def
  by (subst write_varint_buf) simp

lemma length_encode_grpc_frame [simp]: "length (encode_grpc_frame data) = 5 + frame_outer_len data"
  by (simp add: encode_grpc_frame_eq frame_outer_len_def)

lemma encode_pooled: "fst (encode_grpc_frame_pooled pool data) = encode_grpc_frame data"
  using buf_get_empty [of pool "5 + frame_outer_len data"]
  by (cases "buf_get pool (5 + frame_outer_len data)")
    (simp add: encode_grpc_frame_pooled_def encode_grpc_frame_def Let_def)

lemma frame_outer_len_bounds:
  "2 + length data \<le> frame_outer_len data \<and> frame_outer_len data \<le> 11 + length data"
  using varint_size_le_10 [of "word_of_nat (length data)"] by (simp add: frame_outer_len_def)

lemma frame_header_len_encode:
  assumes "frame_outer_len data < 2 ^ 32"
  shows "frame_header_len (encode_grpc_frame data @ rest) = frame_outer_len data"
  using assms by (simp add: frame_header_len_def encode_grpc_frame_eq nat_of_be_of_nat)

text \<open>
  The decoder written over natural numbers, where the sum cannot wrap around. The code agrees
  with it on every payload that fits in memory, except that it panics where the sum exceeds the
  range of \<^verbatim>\<open>usize\<close>.
\<close>

definition decode_gun_spec :: "bytes \<Rightarrow> bytes option result" where
  "decode_gun_spec payload =
     (case payload of
        [] \<Rightarrow> Inr (Some [])
      | b # rest \<Rightarrow>
          if b \<noteq> 0x0A then Inr None
          else (case read_varint rest of
                  None \<Rightarrow> Inr None
                | Some (l, n) \<Rightarrow>
                    if 2 ^ 64 \<le> 1 + n + unat l then Inl (Panic ''slice index'')
                    else if length payload < 1 + n + unat l then Inr None
                    else Inr (Some (take (unat l) (drop (1 + n) payload)))))"

lemma decode_gun_slice:
  fixes l :: u64 and n :: nat and payload :: bytes
  assumes len: "length payload < 2 ^ 63" and n: "1 + n \<le> length payload" "n \<le> 10"
  defines "s \<equiv> 1 + word_of_nat n :: usize"
  shows "(if word_of_nat (length payload) < s + l then Inr None
          else bind_result (slice payload s (s + l)) (\<lambda>d. Inr (Some d)))
       = (if 2 ^ 64 \<le> 1 + n + unat l then Inl (Panic ''slice index'')
          else if length payload < 1 + n + unat l then Inr None
          else Inr (Some (take (unat l) (drop (1 + n) payload))))"
proof -
  have "s = word_of_nat (1 + n)" by (simp add: s_def)
  then have "unat s = (1 + n) mod 2 ^ 64" by (simp only: unat_of_nat) simp
  then have s: "unat s = 1 + n" using n(2) by simp
  have lp: "unat (word_of_nat (length payload) :: usize) = length payload"
    using len by (simp add: unat_of_nat)
  have sum: "unat (s + l) = (1 + n + unat l) mod 2 ^ 64" by (simp add: unat_word_ariths s)
  have ul: "unat l < 2 ^ 64" using unsigned_less [of l, where ?'a = nat] by simp
  show ?thesis
  proof (cases "2 ^ 64 \<le> 1 + n + unat l")
    case True
    then have "unat (s + l) = 1 + n + unat l - 2 ^ 64" using sum ul n len by (simp add: mod_if)
    then have "unat (s + l) < 1 + n" using ul by simp
    then have "\<not> word_of_nat (length payload) < s + l" "\<not> s \<le> s + l"
      using n(1) lp s by (simp_all add: word_less_nat_alt word_le_nat_alt)
    with True show ?thesis by (simp add: slice_def)
  next
    case False
    then have u: "unat (s + l) = 1 + n + unat l" using sum by simp
    show ?thesis
    proof (cases "length payload < 1 + n + unat l")
      case True
      with False u lp show ?thesis by (simp add: word_less_nat_alt)
    next
      case le: False
      have "\<not> word_of_nat (length payload) < s + l" using le u lp by (simp add: word_less_nat_alt)
      moreover have "slice payload s (s + l) = Inr (take (unat l) (drop (1 + n) payload))"
        using le u s by (simp add: slice_def word_le_nat_alt)
      ultimately show ?thesis using False le by simp
    qed
  qed
qed

lemma decode_gun_payload_spec:
  assumes "length payload < 2 ^ 63"
  shows "decode_gun_payload payload = decode_gun_spec payload"
proof (cases payload)
  case (Cons b rest)
  show ?thesis
  proof (cases "read_varint rest")
    case (Some r)
    obtain l n where r: "r = (l, n)" by (cases r)
    have n: "1 + n \<le> length (b # rest)" "n \<le> 10" and len: "length (b # rest) < 2 ^ 63"
      using read_varint_consumed read_varint_at_most_10 Some r assms Cons by auto
    show ?thesis unfolding decode_gun_payload_def decode_gun_spec_def Let_def
      by (simp only: Cons list.case Some r option.case prod.case decode_gun_slice [OF len n])
  qed (simp add: Cons decode_gun_payload_def decode_gun_spec_def)
qed (simp add: decode_gun_payload_def decode_gun_spec_def)

lemma decode_gun_payload_encode:
  assumes "length data < 2 ^ 62"
  shows "decode_gun_payload (0x0A # write_varint [] (word_of_nat (length data)) @ data) = Inr (Some data)"
proof -
  let ?l = "word_of_nat (length data) :: u64"
  have u: "unat ?l = length data" using assms by (simp add: unat_of_nat)
  have "length (0x0A # write_varint [] ?l @ data) < 2 ^ 63" (is "length ?p < _")
    using assms varint_size_le_10 [of ?l] by simp
  then have "decode_gun_payload ?p = decode_gun_spec ?p" by (rule decode_gun_payload_spec)
  then show ?thesis
    using assms varint_size_le_10 [of ?l] by (simp add: decode_gun_spec_def read_varint_write u)
qed

lemma decode_encode_frame [codec_simps]:
  assumes "frame_outer_len data \<le> MAX_GRPC_FRAME_SIZE"
  shows "decode_grpc_frame_data (encode_grpc_frame data @ rest) = Inr (Some data)"
proof -
  have len: "length data < 2 ^ 62" and out: "frame_outer_len data < 2 ^ 32"
    using assms frame_outer_len_bounds [of data] by (auto simp: MAX_GRPC_FRAME_SIZE_def)
  have "decode_grpc_frame_data (encode_grpc_frame data @ rest)
    = decode_gun_payload (take (frame_outer_len data) (drop 5 (encode_grpc_frame data @ rest)))"
    using assms by (simp add: decode_grpc_frame_data_def frame_header_len_encode [OF out])
  also have "take (frame_outer_len data) (drop 5 (encode_grpc_frame data @ rest))
    = 0x0A # write_varint [] (word_of_nat (length data)) @ data"
    by (simp add: encode_grpc_frame_eq frame_outer_len_def)
  finally show ?thesis by (simp only: decode_gun_payload_encode [OF len])
qed

subsection \<open>Properties\<close>

text \<open>
  For every 64-bit value, whatever bytes follow it, the varint reader
  returns the value the writer encoded and the number of bytes the writer produced, which is
  \<open>varint_size\<close> and lies between 1 and 10.
\<close>

theorem varint_roundtrip:
  "read_varint (write_varint [] v @ rest) = Some (v, varint_size v)
   \<and> length (write_varint [] v) = varint_size v \<and> 1 \<le> varint_size v \<and> varint_size v \<le> 10"
  using varint_size_le_10 [of v] by (simp add: read_varint_write)

text \<open>
  A frame whose declared length the receiver accepts decodes to the
  payload it was built from, also when more bytes follow it, and the buffer pool the encoder
  takes its buffer from has no influence on the frame.
\<close>

theorem grpc_frame_roundtrip:
  assumes "frame_outer_len data \<le> MAX_GRPC_FRAME_SIZE"
  shows "decode_grpc_frame_data (fst (encode_grpc_frame_pooled pool data) @ rest) = Inr (Some data)"
  using decode_encode_frame [OF assms] by (simp add: encode_pooled)

text \<open>
  C37 (decode_gun_payload_reference). On every payload that fits in memory the decoder computes the
  reference definition over natural numbers: nothing for a wrong tag, a malformed or overlong
  varint, or a declared length beyond the payload; exactly the declared bytes otherwise; and a
  panic precisely where the position of the last byte exceeds the range of \<^verbatim>\<open>usize\<close>.
\<close>

theorem decode_gun_payload_reference:
  assumes "length payload < 2 ^ 63"
  shows "decode_gun_payload payload = decode_gun_spec payload"
  using assms by (rule decode_gun_payload_spec)

theorem decode_gun_payload_reference_witness:
  "decode_gun_payload [0x0A, 2, 5, 6, 7] = decode_gun_spec [0x0A, 2, 5, 6, 7]
   \<and> decode_gun_spec [0x0A, 2, 5, 6, 7] = Inr (Some [5, 6])"
proof -
  have "length [0x0A, 2, 5, 6, 7 :: u8] < 2 ^ 63" by simp
  from decode_gun_payload_reference [OF this] show ?thesis
    by (simp add: decode_gun_spec_def read_varint_def)
qed

end
