(* ===== verification/Grpc_Stream.thy ===== *)
theory Grpc_Stream
  imports Grpc_Frame
begin

text \<open>
  The stream half of \<^verbatim>\<open>src/relay/transport/grpc.rs\<close>: sending under HTTP/2 flow control, the
  incremental frame reader, and the three copy loops built on them. The peers are the
  environment: a send stream carries the list of answers \<^verbatim>\<open>poll_capacity\<close> and \<^verbatim>\<open>send_data\<close> will
  give, a receive stream the list of results \<^verbatim>\<open>RecvStream::data\<close> will give, a raw reader the list of
  its reads, and a writer the number of operations it will still accept. An operation that
  waits for an answer the environment never gives does not return, which is the value \<open>None\<close>.
  A relay activity is represented by the number of times it has been marked.

  The lemmas show that sending hands over exactly the bytes given, in order, with the
  end-of-stream flag on the last piece only; that the frames read depend on the bytes received
  and not on how they were cut into chunks; and that the copy loops compose to the identity on
  byte streams.
\<close>

subsection \<open>Definitions: sending\<close>

datatype cap_event =
    Capacity nat "h2_error option" \<comment> \<open>the capacity granted, and the answer of \<open>send_data\<close>\<close>
  | CapacityError h2_error
  | CapacityClosed

record send_stream =
  ss_caps :: "cap_event list"
  ss_end_err :: "h2_error option" \<comment> \<open>the answer to the empty end-of-stream frame\<close>
  ss_sent :: "(bytes \<times> bool) list"

fun send_loop :: "cap_event list \<Rightarrow> bytes \<Rightarrow> bool \<Rightarrow> (bytes \<times> bool) list
    \<Rightarrow> (unit result \<times> cap_event list \<times> (bytes \<times> bool) list) option" where
  "send_loop [] data eos sent = (if data = [] then Some (Inr (), [], sent) else None)"
| "send_loop (ev # caps) data eos sent =
     (if data = [] then Some (Inr (), ev # caps, sent)
      else case ev of
          CapacityClosed \<Rightarrow> Some (Inl StreamClosed, caps, sent)
        | CapacityError e \<Rightarrow> Some (Inl (SendError e), caps, sent)
        | Capacity capacity answer \<Rightarrow>
            if capacity = 0 then send_loop caps data eos sent
            else
              let n = min capacity (length data);
                  chunk = take n data;
                  data' = drop n data;
                  is_end = (eos \<and> data' = [])
              in case answer of
                   Some e \<Rightarrow> Some (Inl (SendError e), caps, sent)
                 | None \<Rightarrow> send_loop caps data' eos (sent @ [(chunk, is_end)]))"

definition send_grpc_data :: "send_stream \<Rightarrow> bytes \<Rightarrow> bool \<Rightarrow> (unit result \<times> send_stream) option" where
  "send_grpc_data s data eos =
     (if data = [] then
        (case ss_end_err s of
           Some e \<Rightarrow> Some (Inl (SendError e), s)
         | None \<Rightarrow> Some (Inr (), s\<lparr>ss_sent := ss_sent s @ [(data, eos)]\<rparr>))
      else
        (case send_loop (ss_caps s) data eos (ss_sent s) of
           None \<Rightarrow> None
         | Some (r, caps, sent) \<Rightarrow> Some (r, s\<lparr>ss_caps := caps, ss_sent := sent\<rparr>)))"

definition sent_bytes :: "send_stream \<Rightarrow> bytes" where
  "sent_bytes s = concat (map fst (ss_sent s))"

subsection \<open>Definitions: the frame reader\<close>

datatype recv_event = Chunk bytes | RecvFailed h2_error

record frame_reader =
  fr_recv :: "recv_event list"
  fr_buf :: bytes
  fr_released :: nat \<comment> \<open>bytes handed back to the HTTP/2 flow-control window\<close>

definition frame_reader_new :: "recv_event list \<Rightarrow> frame_reader" where
  "frame_reader_new evs = \<lparr>fr_recv = evs, fr_buf = [], fr_released = 0\<rparr>"

datatype peel_result = NeedMore | TooLarge nat | Frame bytes bytes

definition peel_frame :: "bytes \<Rightarrow> peel_result" where
  "peel_frame buf =
     (if length buf \<ge> 5 then
        let outer_len = frame_header_len buf in
        if outer_len > MAX_GRPC_FRAME_SIZE then TooLarge outer_len
        else if length buf \<ge> 5 + outer_len then Frame (take (5 + outer_len) buf) (drop (5 + outer_len) buf)
        else NeedMore
      else NeedMore)"

fun next_frame_loop :: "recv_event list \<Rightarrow> bytes \<Rightarrow> nat \<Rightarrow> bytes option result \<times> frame_reader" where
  "next_frame_loop [] buf released =
     (case peel_frame buf of
        TooLarge n \<Rightarrow> (Inl (FrameTooLarge n), \<lparr>fr_recv = [], fr_buf = buf, fr_released = released\<rparr>)
      | Frame f rest \<Rightarrow> (Inr (Some f), \<lparr>fr_recv = [], fr_buf = rest, fr_released = released\<rparr>)
      | NeedMore \<Rightarrow> (Inr None, \<lparr>fr_recv = [], fr_buf = buf, fr_released = released\<rparr>))"
| "next_frame_loop (ev # evs) buf released =
     (case peel_frame buf of
        TooLarge n \<Rightarrow> (Inl (FrameTooLarge n), \<lparr>fr_recv = ev # evs, fr_buf = buf, fr_released = released\<rparr>)
      | Frame f rest \<Rightarrow> (Inr (Some f), \<lparr>fr_recv = ev # evs, fr_buf = rest, fr_released = released\<rparr>)
      | NeedMore \<Rightarrow>
          (case ev of
             Chunk chunk \<Rightarrow> next_frame_loop evs (buf @ chunk) (released + length chunk)
           | RecvFailed e \<Rightarrow> (Inl (RecvError e), \<lparr>fr_recv = evs, fr_buf = buf, fr_released = released\<rparr>)))"

definition next_frame :: "frame_reader \<Rightarrow> bytes option result \<times> frame_reader" where
  "next_frame r = next_frame_loop (fr_recv r) (fr_buf r) (fr_released r)"

text \<open>The bytes a reader still has to hand out: those buffered and those yet to arrive.\<close>

fun event_bytes :: "recv_event \<Rightarrow> bytes" where
  "event_bytes (Chunk c) = c"
| "event_bytes (RecvFailed e) = []"

definition pending_bytes :: "frame_reader \<Rightarrow> bytes" where
  "pending_bytes r = fr_buf r @ concat (map event_bytes (fr_recv r))"

lemma peel_frame_Frame:
  "peel_frame buf = Frame f rest \<Longrightarrow> buf = f @ rest \<and> 5 \<le> length f"
  by (auto simp: peel_frame_def Let_def split: if_splits)

lemma next_frame_loop_pending:
  "next_frame_loop evs buf rel = (Inr (Some f), r')
   \<Longrightarrow> buf @ concat (map event_bytes evs) = f @ pending_bytes r' \<and> 5 \<le> length f"
proof (induction evs buf rel rule: next_frame_loop.induct)
  case (1 buf rel)
  then show ?case by (auto simp: pending_bytes_def split: peel_result.splits dest: peel_frame_Frame)
next
  case (2 ev evs buf rel)
  then show ?case
    by (auto simp: pending_bytes_def split: peel_result.splits recv_event.splits dest: peel_frame_Frame)
qed

lemma next_frame_pending:
  "next_frame r = (Inr (Some f), r') \<Longrightarrow> pending_bytes r = f @ pending_bytes r' \<and> 5 \<le> length f"
  using next_frame_loop_pending by (simp add: next_frame_def pending_bytes_def)

lemma next_frame_shrinks:
  "(Inr (Some f), r') = next_frame r \<Longrightarrow> length (pending_bytes r') < length (pending_bytes r)"
  using next_frame_pending [of r f r'] by (cases f) auto

subsection \<open>Definitions: the copy loops\<close>

record writer =
  w_out :: bytes
  w_left :: "nat option" \<comment> \<open>how many further operations succeed, all of them for \<open>None\<close>\<close>
  w_flushed :: bool
  w_shutdown :: bool

definition writer_op :: "writer \<Rightarrow> (writer \<Rightarrow> writer) \<Rightarrow> unit result \<times> writer" where
  "writer_op w f =
     (case w_left w of
        None \<Rightarrow> (Inr (), f w)
      | Some 0 \<Rightarrow> (Inl (Foreign ''write''), w)
      | Some (Suc k) \<Rightarrow> (Inr (), f (w\<lparr>w_left := Some k\<rparr>)))"

definition write_all :: "writer \<Rightarrow> bytes \<Rightarrow> unit result \<times> writer" where
  "write_all w d = writer_op w (\<lambda>w. w\<lparr>w_out := w_out w @ d, w_flushed := False\<rparr>)"

definition flush :: "writer \<Rightarrow> unit result \<times> writer" where
  "flush w = writer_op w (\<lambda>w. w\<lparr>w_flushed := True\<rparr>)"

definition shutdown :: "writer \<Rightarrow> unit result \<times> writer" where
  "shutdown w = writer_op w (\<lambda>w. w\<lparr>w_shutdown := True\<rparr>)"

type_synonym activity = "nat option"

definition mark :: "activity \<Rightarrow> activity" where
  "mark a = map_option Suc a"

datatype read_event = ReadData bytes | ReadFailed string

definition RAW_TO_GRPC_READ_BUF_SIZE :: nat where
  "RAW_TO_GRPC_READ_BUF_SIZE = 16 * 1024"

definition raw_to_grpc_end :: "send_stream \<Rightarrow> activity \<Rightarrow> (unit result \<times> send_stream \<times> activity) option" where
  "raw_to_grpc_end s a =
     (case send_grpc_data s [] True of None \<Rightarrow> None | Some (_, s') \<Rightarrow> Some (Inr (), s', a))"

fun raw_to_grpc_with_activity :: "read_event list \<Rightarrow> send_stream \<Rightarrow> activity
    \<Rightarrow> (unit result \<times> send_stream \<times> activity) option" where
  "raw_to_grpc_with_activity [] s a = raw_to_grpc_end s a"
| "raw_to_grpc_with_activity (ReadFailed e # evs) s a = Some (Inl (Foreign e), s, a)"
| "raw_to_grpc_with_activity (ReadData d # evs) s a =
     (if d = [] then raw_to_grpc_end s a
      else case send_grpc_data s (encode_grpc_frame d) False of
             None \<Rightarrow> None
           | Some (Inl e, s') \<Rightarrow> Some (Inl e, s', mark a)
           | Some (Inr _, s') \<Rightarrow> raw_to_grpc_with_activity evs s' (mark (mark a)))"

definition raw_to_grpc :: "read_event list \<Rightarrow> send_stream \<Rightarrow> (unit result \<times> send_stream) option" where
  "raw_to_grpc evs s = map_option (\<lambda>(r, s', a). (r, s')) (raw_to_grpc_with_activity evs s None)"

function grpc_to_raw_with_activity :: "frame_reader \<Rightarrow> writer \<Rightarrow> activity
    \<Rightarrow> unit result \<times> writer \<times> activity" where
  "grpc_to_raw_with_activity r w a =
     (case next_frame r of
        (Inl e, r') \<Rightarrow> (Inl e, w, a)
      | (Inr None, r') \<Rightarrow>
          (case flush w of
             (Inl e, w1) \<Rightarrow> (Inl e, w1, a)
           | (Inr _, w1) \<Rightarrow> (case shutdown w1 of (res, w2) \<Rightarrow> (res, w2, a)))
      | (Inr (Some frame), r') \<Rightarrow>
          (case decode_grpc_frame_data frame of
             Inl e \<Rightarrow> (Inl e, w, a)
           | Inr None \<Rightarrow> grpc_to_raw_with_activity r' w a
           | Inr (Some data) \<Rightarrow>
               if data = [] then grpc_to_raw_with_activity r' w a
               else (case write_all w data of
                       (Inl e, w') \<Rightarrow> (Inl e, w', mark a)
                     | (Inr _, w') \<Rightarrow> grpc_to_raw_with_activity r' w' (mark (mark a)))))"
  by pat_completeness auto
termination
  by (relation "measure (\<lambda>(r, w, a). length (pending_bytes r))")
    (auto dest!: next_frame_shrinks)

function grpc_frames_to_grpc_with_activity :: "frame_reader \<Rightarrow> send_stream \<Rightarrow> activity
    \<Rightarrow> (unit result \<times> send_stream \<times> activity) option" where
  "grpc_frames_to_grpc_with_activity r s a =
     (case next_frame r of
        (Inl e, r') \<Rightarrow> Some (Inl e, s, a)
      | (Inr None, r') \<Rightarrow> raw_to_grpc_end s a
      | (Inr (Some frame), r') \<Rightarrow>
          (case send_grpc_data s frame False of
             None \<Rightarrow> None
           | Some (Inl e, s') \<Rightarrow> Some (Inl e, s', mark a)
           | Some (Inr _, s') \<Rightarrow> grpc_frames_to_grpc_with_activity r' s' (mark (mark a))))"
  by pat_completeness auto
termination
  by (relation "measure (\<lambda>(r, s, a). length (pending_bytes r))")
    (auto dest!: next_frame_shrinks)

declare grpc_to_raw_with_activity.simps [simp del] grpc_frames_to_grpc_with_activity.simps [simp del]

definition is_h2_connection_error :: "h2_error \<Rightarrow> bool" where
  "is_h2_connection_error e \<longleftrightarrow> is_io e \<or> is_go_away e"

fun h2_cause :: "error \<Rightarrow> h2_error option" where
  "h2_cause (SendError e) = Some e"
| "h2_cause (RecvError e) = Some e"
| "h2_cause _ = None"

definition is_grpc_connection_error :: "error \<Rightarrow> bool" where
  "is_grpc_connection_error e = (case h2_cause e of None \<Rightarrow> False | Some h \<Rightarrow> is_h2_connection_error h)"

subsection \<open>Sending: exactly the bytes, the flag on the last piece\<close>

fun flag_last :: "bool \<Rightarrow> bytes list \<Rightarrow> (bytes \<times> bool) list" where
  "flag_last eos [] = []"
| "flag_last eos [p] = [(p, eos)]"
| "flag_last eos (p # q # ps) = (p, False) # flag_last eos (q # ps)"

lemma flag_last_fst [simp]: "map fst (flag_last eos ps) = ps"
  by (induction eos ps rule: flag_last.induct) auto

lemma flag_last_Cons: "ps \<noteq> [] \<Longrightarrow> flag_last eos (p # ps) = (p, False) # flag_last eos ps"
  by (cases ps) auto

lemma send_loop_Nil [simp]: "send_loop caps [] eos sent = Some (Inr (), caps, sent)"
  by (cases caps) auto

lemma send_loop_Cons:
  assumes "data \<noteq> []"
  shows "send_loop (ev # caps) data eos sent =
    (case ev of
       CapacityClosed \<Rightarrow> Some (Inl StreamClosed, caps, sent)
     | CapacityError e \<Rightarrow> Some (Inl (SendError e), caps, sent)
     | Capacity c answer \<Rightarrow>
         if c = 0 then send_loop caps data eos sent
         else (case answer of Some e \<Rightarrow> Some (Inl (SendError e), caps, sent)
               | None \<Rightarrow> send_loop caps (drop c data) eos (sent @ [(take c data, eos \<and> drop c data = [])])))"
proof -
  have "drop (min c (length data)) data = drop c data" "take (min c (length data)) data = take c data" for c
    by (simp_all add: min_def)
  with assms show ?thesis by (auto simp: Let_def split: cap_event.split option.split)
qed

declare send_loop.simps(2) [simp del]

lemma send_loop_ok:
  assumes "send_loop caps data eos sent = Some (Inr (), caps', sent')"
  shows "\<exists>ps. sent' = sent @ flag_last eos ps \<and> concat ps = data \<and> [] \<notin> set ps"
  using assms
proof (induction caps arbitrary: data sent)
  case Nil
  then show ?case by (auto split: if_splits intro: exI [of _ "[]"])
next
  case (Cons ev caps)
  show ?case
  proof (cases "data = []")
    case True
    with Cons.prems show ?thesis by (auto intro: exI [of _ "[]"])
  next
    case False
    with Cons.prems consider "send_loop caps data eos sent = Some (Inr (), caps', sent')"
      | c where "c \<noteq> 0"
        "send_loop caps (drop c data) eos (sent @ [(take c data, eos \<and> drop c data = [])]) = Some (Inr (), caps', sent')"
      by (auto simp: send_loop_Cons split: cap_event.splits option.splits if_splits)
    then show ?thesis
    proof cases
      case 1
      then show ?thesis by (rule Cons.IH)
    next
      case (2 c)
      then obtain ps where ps: "sent' = (sent @ [(take c data, eos \<and> drop c data = [])]) @ flag_last eos ps"
          "concat ps = drop c data" "[] \<notin> set ps"
        using Cons.IH by blast
      have "sent' = sent @ flag_last eos (take c data # ps)"
      proof (cases "ps = []")
        case True
        with ps show ?thesis by simp
      next
        case ne: False
        then have "drop c data \<noteq> []" using ps(2,3) by (cases ps) auto
        with ne ps(1) show ?thesis by (simp add: flag_last_Cons)
      qed
      moreover have "concat (take c data # ps) = data" "[] \<notin> set (take c data # ps)"
        using ps 2 False by auto
      ultimately show ?thesis by blast
    qed
  qed
qed

lemma send_loop_err:
  assumes "send_loop caps data eos sent = Some (Inl e, caps', sent')"
  shows "\<exists>ps rest. sent' = sent @ map (\<lambda>p. (p, False)) ps \<and> data = concat ps @ rest \<and> rest \<noteq> []"
  using assms
proof (induction caps arbitrary: data sent)
  case Nil
  then show ?case by (auto split: if_splits)
next
  case (Cons ev caps)
  have ne: "data \<noteq> []" using Cons.prems by auto
  with Cons.prems consider "sent' = sent" | "send_loop caps data eos sent = Some (Inl e, caps', sent')"
    | c where "send_loop caps (drop c data) eos (sent @ [(take c data, eos \<and> drop c data = [])]) = Some (Inl e, caps', sent')"
    by (auto simp: send_loop_Cons split: cap_event.splits option.splits if_splits)
  then show ?case
  proof cases
    case 1
    with ne show ?thesis by (intro exI [of _ "[] :: bytes list"] exI [of _ data]) simp
  next
    case 2
    then show ?thesis by (rule Cons.IH)
  next
    case (3 c)
    then obtain ps rest where ps: "sent' = (sent @ [(take c data, eos \<and> drop c data = [])]) @ map (\<lambda>p. (p, False)) ps"
        "drop c data = concat ps @ rest" "rest \<noteq> []"
      using Cons.IH by blast
    then have "sent' = sent @ map (\<lambda>p. (p, False)) (take c data # ps)" "data = concat (take c data # ps) @ rest"
      using append_take_drop_id [of c data] by auto
    with ps(3) show ?thesis by blast
  qed
qed

text \<open>Sending returns once enough positive capacity has been granted.\<close>

definition grants :: "cap_event \<Rightarrow> bool" where
  "grants ev = (case ev of Capacity c None \<Rightarrow> True | _ \<Rightarrow> False)"

definition grants_some :: "cap_event \<Rightarrow> bool" where
  "grants_some ev = (case ev of Capacity c None \<Rightarrow> 0 < c | _ \<Rightarrow> False)"

lemma grants_some_Capacity [simp]: "grants_some (Capacity c None) \<longleftrightarrow> 0 < c"
  by (simp add: grants_some_def)

lemma send_loop_returns:
  assumes "list_all grants caps" and "length data \<le> length (filter grants_some caps)"
  shows "\<exists>caps' sent'. send_loop caps data eos sent = Some (Inr (), caps', sent')
    \<and> list_all grants caps' \<and> length (filter grants_some caps) \<le> length data + length (filter grants_some caps')"
  using assms
proof (induction caps arbitrary: data sent)
  case Nil
  then show ?case by simp
next
  case (Cons ev caps)
  show ?case
  proof (cases "data = []")
    case True
    with Cons.prems show ?thesis by simp
  next
    case False
    obtain c where ev: "ev = Capacity c None"
      using Cons.prems(1) by (auto simp: grants_def split: cap_event.splits option.splits)
    show ?thesis
    proof (cases "c = 0")
      case True
      with Cons False ev show ?thesis by (simp add: send_loop_Cons)
    next
      case pos: False
      then have "length (drop c data) \<le> length (filter grants_some caps)"
        using Cons.prems(2) ev by simp
      then obtain caps' sent' where "send_loop caps (drop c data) eos (sent @ [(take c data, eos \<and> drop c data = [])])
            = Some (Inr (), caps', sent')"
          "list_all grants caps'"
          "length (filter grants_some caps) \<le> length (drop c data) + length (filter grants_some caps')"
        using Cons.IH Cons.prems(1) by fastforce
      moreover have "Suc (length (drop c data)) \<le> length data" using pos False by (cases data) auto
      ultimately show ?thesis using pos False ev by (simp add: send_loop_Cons)
    qed
  qed
qed

definition capacity_for :: "send_stream \<Rightarrow> nat \<Rightarrow> bool" where
  "capacity_for s n \<longleftrightarrow> list_all grants (ss_caps s) \<and> n \<le> length (filter grants_some (ss_caps s))"

lemma send_grpc_data_returns:
  assumes "capacity_for s (length data + n)" and "data \<noteq> []"
  shows "\<exists>s'. send_grpc_data s data eos = Some (Inr (), s') \<and> capacity_for s' n \<and> ss_end_err s' = ss_end_err s"
proof -
  obtain caps' sent' where "send_loop (ss_caps s) data eos (ss_sent s) = Some (Inr (), caps', sent')"
      "list_all grants caps'"
      "length (filter grants_some (ss_caps s)) \<le> length data + length (filter grants_some caps')"
    using send_loop_returns [of "ss_caps s" data eos "ss_sent s"] assms(1) by (auto simp: capacity_for_def)
  with assms show ?thesis by (auto simp: send_grpc_data_def capacity_for_def)
qed

lemma send_grpc_data_ok:
  assumes "send_grpc_data s data eos = Some (Inr u, s')"
  shows "\<exists>ps. ss_sent s' = ss_sent s @ flag_last eos ps \<and> concat ps = data \<and> ps \<noteq> []"
proof (cases "data = []")
  case True
  with assms show ?thesis
    by (auto simp: send_grpc_data_def split: option.splits intro: exI [of _ "[[]]"])
next
  case False
  with assms obtain caps sent where "send_loop (ss_caps s) data eos (ss_sent s) = Some (Inr (), caps, sent)"
      "ss_sent s' = sent"
    by (auto simp: send_grpc_data_def split: option.splits)
  from send_loop_ok [OF this(1)] this(2) False show ?thesis by auto
qed

lemma send_grpc_data_bytes:
  "send_grpc_data s data eos = Some (Inr u, s') \<Longrightarrow> sent_bytes s' = sent_bytes s @ data"
  by (drule send_grpc_data_ok) (auto simp: sent_bytes_def)

subsection \<open>Reading: the frames depend on the bytes, not on the chunks\<close>

text \<open>
  The specification of the reader: cut the whole byte sequence into frames until no complete
  frame is left or a header announces too much.
\<close>

lemma peel_frame_less: "peel_frame bs = Frame f rest \<Longrightarrow> length rest < length bs"
  using peel_frame_Frame [of bs f rest] by (cases f) auto

function deframe :: "bytes \<Rightarrow> bytes list \<times> nat option" where
  "deframe bs =
     (case peel_frame bs of
        NeedMore \<Rightarrow> ([], None)
      | TooLarge n \<Rightarrow> ([], Some n)
      | Frame f rest \<Rightarrow> (f # fst (deframe rest), snd (deframe rest)))"
  by pat_completeness auto
termination
  by (relation "measure length") (auto dest: peel_frame_less)

text \<open>The frames a reader hands out until it ends or fails.\<close>

function frames_of :: "frame_reader \<Rightarrow> bytes list \<times> error option" where
  "frames_of r =
     (case next_frame r of
        (Inl e, r') \<Rightarrow> ([], Some e)
      | (Inr None, r') \<Rightarrow> ([], None)
      | (Inr (Some f), r') \<Rightarrow> (f # fst (frames_of r'), snd (frames_of r')))"
  by pat_completeness auto
termination
  by (relation "measure (\<lambda>r. length (pending_bytes r))") (auto dest!: next_frame_shrinks)

declare deframe.simps [simp del] frames_of.simps [simp del]

text \<open>
  The contract of an incremental framing: what has been decided on a prefix of the input stays
  decided when more input arrives, and a frame is a non-empty prefix of the buffer. From it
  alone follows that the frames found in an input do not depend on its chunks.
\<close>

locale incremental_framing =
  fixes peel :: "bytes \<Rightarrow> peel_result"
  assumes peel_split: "peel buf = Frame f rest \<Longrightarrow> buf = f @ rest \<and> f \<noteq> []"
    and frame_stable: "peel buf = Frame f rest \<Longrightarrow> peel (buf @ ext) = Frame f (rest @ ext)"
    and error_stable: "peel buf = TooLarge n \<Longrightarrow> peel (buf @ ext) = TooLarge n"
begin

inductive frames_from :: "bytes \<Rightarrow> bytes list \<Rightarrow> bytes list \<Rightarrow> nat option \<Rightarrow> bool" where
  stop_end: "peel buf = NeedMore \<Longrightarrow> frames_from buf [] [] None"
| stop_error: "peel buf = TooLarge n \<Longrightarrow> frames_from buf chunks [] (Some n)"
| feed: "peel buf = NeedMore \<Longrightarrow> frames_from (buf @ c) chunks fs e \<Longrightarrow> frames_from buf (c # chunks) fs e"
| frame: "peel buf = Frame f rest \<Longrightarrow> frames_from rest chunks fs e \<Longrightarrow> frames_from buf chunks (f # fs) e"

lemma frames_from_whole: "frames_from buf chunks fs e \<Longrightarrow> frames_from (buf @ concat chunks) [] fs e"
proof (induction rule: frames_from.induct)
  case (stop_end buf)
  then show ?case by (simp add: frames_from.stop_end)
next
  case (stop_error buf n chunks)
  then show ?case by (intro frames_from.stop_error error_stable)
next
  case (feed buf c chunks fs e)
  then show ?case by simp
next
  case (frame buf f rest chunks fs e)
  then show ?case by (intro frames_from.frame [of _ f]) (auto dest: frame_stable)
qed

lemma frames_from_functional: "frames_from buf [] fs e \<Longrightarrow> frames_from buf [] fs' e' \<Longrightarrow> fs' = fs \<and> e' = e"
proof (induction buf "[] :: bytes list" fs e arbitrary: fs' e' rule: frames_from.induct)
  case (frame buf f rest fs e)
  from frame.prems frame.hyps(1) obtain gs where "fs' = f # gs" "frames_from rest [] gs e'"
    by (cases rule: frames_from.cases) auto
  with frame.hyps(3) show ?case by auto
qed (auto elim: frames_from.cases)

lemma chunks_irrelevant:
  assumes "frames_from buf chunks fs e" and "frames_from buf chunks' fs' e'" and "concat chunks = concat chunks'"
  shows "fs = fs' \<and> e = e'"
  using frames_from_functional [OF frames_from_whole [OF assms(1)]] frames_from_whole [OF assms(2)] assms(3)
  by simp

end

lemma frame_header_len_append: "5 \<le> length buf \<Longrightarrow> frame_header_len (buf @ ext) = frame_header_len buf"
  by (simp add: frame_header_len_def)

interpretation grpc_framing: incremental_framing peel_frame
proof unfold_locales
  fix buf f rest
  assume "peel_frame buf = Frame f rest"
  then show "buf = f @ rest \<and> f \<noteq> []" using peel_frame_Frame by fastforce
next
  fix buf f rest ext
  assume "peel_frame buf = Frame f rest"
  then show "peel_frame (buf @ ext) = Frame f (rest @ ext)"
    by (auto simp: peel_frame_def Let_def frame_header_len_append split: if_splits)
next
  fix buf n ext
  assume "peel_frame buf = TooLarge n"
  then show "peel_frame (buf @ ext) = TooLarge n"
    by (auto simp: peel_frame_def Let_def frame_header_len_append split: if_splits)
qed

definition agrees :: "bytes \<Rightarrow> bytes list \<Rightarrow> bytes option result \<Rightarrow> bytes \<Rightarrow> bytes list \<Rightarrow> bool" where
  "agrees buf cs res buf' cs' =
     (case res of
        Inr (Some f) \<Rightarrow> \<forall>fs e. grpc_framing.frames_from buf' cs' fs e
                          \<longrightarrow> grpc_framing.frames_from buf cs (f # fs) e
      | Inr None \<Rightarrow> grpc_framing.frames_from buf cs [] None
      | Inl x \<Rightarrow> \<exists>n. x = FrameTooLarge n \<and> grpc_framing.frames_from buf cs [] (Some n))"

lemma agrees_feed:
  "peel_frame buf = NeedMore \<Longrightarrow> agrees (buf @ c) cs res buf' cs' \<Longrightarrow> agrees buf (c # cs) res buf' cs'"
  by (auto simp: agrees_def split: sum.splits option.splits intro: grpc_framing.frames_from.feed)

lemma next_frame_loop_simulates:
  assumes "next_frame_loop (map Chunk cs) buf rel = (res, r')"
  shows "\<exists>cs'. fr_recv r' = map Chunk cs' \<and> agrees buf cs res (fr_buf r') cs'"
  using assms
proof (induction cs arbitrary: buf rel)
  case Nil
  then show ?case
    by (auto simp: agrees_def split: peel_result.splits
        intro: grpc_framing.frames_from.intros intro!: exI [of _ "[]"])
next
  case (Cons c cs)
  show ?case
  proof (cases "peel_frame buf")
    case NeedMore
    with Cons.prems have "next_frame_loop (map Chunk cs) (buf @ c) (rel + length c) = (res, r')" by simp
    from Cons.IH [OF this] NeedMore show ?thesis by (auto intro: agrees_feed)
  next
    case (TooLarge n)
    with Cons.prems show ?thesis
      by (auto simp: agrees_def intro: grpc_framing.frames_from.intros intro!: exI [of _ "c # cs"])
  next
    case (Frame f rest)
    with Cons.prems show ?thesis
      by (auto simp: agrees_def intro: grpc_framing.frames_from.intros intro!: exI [of _ "c # cs"])
  qed
qed

lemma frames_of_simulates:
  assumes "fr_recv r = map Chunk cs"
  shows "\<exists>e. snd (frames_of r) = map_option FrameTooLarge e
    \<and> grpc_framing.frames_from (fr_buf r) cs (fst (frames_of r)) e"
  using assms
proof (induction r arbitrary: cs rule: frames_of.induct)
  case (1 r)
  obtain res r' where nf: "next_frame r = (res, r')" by (cases "next_frame r")
  with "1.prems" have "next_frame_loop (map Chunk cs) (fr_buf r) (fr_released r) = (res, r')"
    by (simp add: next_frame_def)
  from next_frame_loop_simulates [OF this] obtain cs' where cs': "fr_recv r' = map Chunk cs'"
    and sim: "agrees (fr_buf r) cs res (fr_buf r') cs'"
    by blast
  show ?case
  proof (cases res)
    case (Inl x)
    with sim obtain n where "x = FrameTooLarge n" "grpc_framing.frames_from (fr_buf r) cs [] (Some n)"
      by (auto simp: agrees_def)
    with nf Inl show ?thesis by (auto simp: frames_of.simps [of r] intro: exI [of _ "Some n"])
  next
    case (Inr fo)
    show ?thesis
    proof (cases fo)
      case None
      with sim nf Inr show ?thesis by (auto simp: frames_of.simps [of r] agrees_def)
    next
      case (Some f)
      with "1.IH" nf Inr cs' obtain e where "snd (frames_of r') = map_option FrameTooLarge e"
          "grpc_framing.frames_from (fr_buf r') cs' (fst (frames_of r')) e"
        by metis
      with sim nf Inr Some show ?thesis by (auto simp: frames_of.simps [of r] agrees_def)
    qed
  qed
qed

lemma deframe_simulates: "grpc_framing.frames_from bs [] (fst (deframe bs)) (snd (deframe bs))"
proof (induction bs rule: deframe.induct)
  case (1 bs)
  then show ?case
    by (subst (1 2) deframe.simps)
      (auto split: peel_result.split intro: grpc_framing.frames_from.intros)
qed

lemma frames_of_deframe:
  assumes "fr_recv r = map Chunk cs"
  shows "frames_of r = (fst (deframe (pending_bytes r)), map_option FrameTooLarge (snd (deframe (pending_bytes r))))"
proof -
  obtain e where e: "snd (frames_of r) = map_option FrameTooLarge e"
    and ff: "grpc_framing.frames_from (fr_buf r) cs (fst (frames_of r)) e"
    using frames_of_simulates [OF assms] by blast
  have "pending_bytes r = fr_buf r @ concat cs"
    by (simp add: pending_bytes_def assms o_def)
  with grpc_framing.frames_from_functional [OF deframe_simulates [of "pending_bytes r"]]
    grpc_framing.frames_from_whole [OF ff]
  have "fst (frames_of r) = fst (deframe (pending_bytes r))" "e = snd (deframe (pending_bytes r))"
    by auto
  with e show ?thesis by (metis prod.collapse)
qed

subsection \<open>The copy loops\<close>

definition small_payload :: "bytes \<Rightarrow> bool" where
  "small_payload d \<longleftrightarrow> frame_outer_len d \<le> MAX_GRPC_FRAME_SIZE"

lemma read_buf_small: "length d \<le> RAW_TO_GRPC_READ_BUF_SIZE \<Longrightarrow> small_payload d"
  using frame_outer_len_bounds [of d]
  by (simp add: small_payload_def RAW_TO_GRPC_READ_BUF_SIZE_def MAX_GRPC_FRAME_SIZE_def)

lemma peel_frame_encode:
  assumes "small_payload d"
  shows "peel_frame (encode_grpc_frame d @ rest) = Frame (encode_grpc_frame d) rest"
proof -
  have "frame_outer_len d < 2 ^ 32" using assms by (simp add: small_payload_def MAX_GRPC_FRAME_SIZE_def)
  with assms show ?thesis by (simp add: peel_frame_def small_payload_def frame_header_len_encode)
qed

lemma deframe_encode:
  "list_all small_payload ds \<Longrightarrow> deframe (concat (map encode_grpc_frame ds)) = (map encode_grpc_frame ds, None)"
proof (induction ds)
  case Nil
  then show ?case by (simp add: deframe.simps peel_frame_def)
next
  case (Cons d ds)
  then show ?case by (simp add: deframe.simps [of "encode_grpc_frame d @ _"] peel_frame_encode)
qed

text \<open>What a frame contributes to the raw stream; a frame that does not decode contributes nothing.\<close>

definition frame_payload :: "bytes \<Rightarrow> bytes" where
  "frame_payload f = (case decode_grpc_frame_data f of Inr (Some d) \<Rightarrow> d | _ \<Rightarrow> [])"

lemma frame_payload_encode [simp]: "small_payload d \<Longrightarrow> frame_payload (encode_grpc_frame d) = d"
  using decode_encode_frame [of d "[]"] by (simp add: frame_payload_def small_payload_def)

lemma write_all_total [simp]:
  "w_left w = None \<Longrightarrow> write_all w d = (Inr (), w\<lparr>w_out := w_out w @ d, w_flushed := False\<rparr>)"
  "w_left w = None \<Longrightarrow> flush w = (Inr (), w\<lparr>w_flushed := True\<rparr>)"
  "w_left w = None \<Longrightarrow> shutdown w = (Inr (), w\<lparr>w_shutdown := True\<rparr>)"
  by (simp_all add: write_all_def flush_def shutdown_def writer_op_def)

lemma grpc_to_raw_frames:
  assumes "snd (frames_of r) = None" and "list_all (\<lambda>f. is_ok (decode_grpc_frame_data f)) (fst (frames_of r))"
    and "w_left w = None"
  shows "\<exists>a'. grpc_to_raw_with_activity r w a
    = (Inr (), w\<lparr>w_out := w_out w @ concat (map frame_payload (fst (frames_of r))),
                 w_flushed := True, w_shutdown := True\<rparr>, a')"
  using assms
proof (induction r arbitrary: w a rule: frames_of.induct)
  case (1 r)
  obtain res r' where nf: "next_frame r = (res, r')" by (cases "next_frame r")
  show ?case
  proof (cases res)
    case (Inl e)
    with "1.prems" nf show ?thesis by (simp add: frames_of.simps [of r])
  next
    case (Inr fo)
    show ?thesis
    proof (cases fo)
      case None
      with "1.prems" nf Inr show ?thesis
        by (simp add: frames_of.simps [of r] grpc_to_raw_with_activity.simps [of r])
    next
      case (Some f)
      have fr: "frames_of r = (f # fst (frames_of r'), snd (frames_of r'))"
        using nf Inr Some by (simp add: frames_of.simps [of r])
      have step: "grpc_to_raw_with_activity r w a = grpc_to_raw_with_activity r' w a" if "frame_payload f = []"
        using that "1.prems" nf Inr Some fr
        by (auto simp: grpc_to_raw_with_activity.simps [of r] frame_payload_def is_ok_iff split: option.splits)
      have step': "grpc_to_raw_with_activity r w a
          = grpc_to_raw_with_activity r' (w\<lparr>w_out := w_out w @ frame_payload f, w_flushed := False\<rparr>) (mark (mark a))"
        if "frame_payload f \<noteq> []"
        using that "1.prems" nf Inr Some fr
        by (auto simp: grpc_to_raw_with_activity.simps [of r] frame_payload_def is_ok_iff split: option.splits)
      have IH: "w_left w' = None \<Longrightarrow> \<exists>a'. grpc_to_raw_with_activity r' w' b
          = (Inr (), w'\<lparr>w_out := w_out w' @ concat (map frame_payload (fst (frames_of r'))),
                 w_flushed := True, w_shutdown := True\<rparr>, a')" for w' b
        using "1.IH" [OF nf [symmetric] Inr Some] "1.prems" fr by simp
      show ?thesis
      proof (cases "frame_payload f = []")
        case True
        with step IH [of w a] "1.prems"(3) fr show ?thesis by simp
      next
        case False
        with step' IH [of "w\<lparr>w_out := w_out w @ frame_payload f, w_flushed := False\<rparr>" "mark (mark a)"]
          "1.prems"(3) fr show ?thesis by simp
      qed
    qed
  qed
qed

lemma raw_to_grpc_end_returns:
  "\<exists>s'. raw_to_grpc_end s a = Some (Inr (), s', a) \<and> sent_bytes s' = sent_bytes s"
  by (auto simp: raw_to_grpc_end_def send_grpc_data_def sent_bytes_def split: option.splits)

lemma encode_nonempty [simp]: "encode_grpc_frame d \<noteq> []"
  by (simp add: encode_grpc_frame_eq)

lemma raw_to_grpc_returns:
  assumes "capacity_for s (length (concat (map encode_grpc_frame ds)))" and "[] \<notin> set ds"
  shows "\<exists>s' a'. raw_to_grpc_with_activity (map ReadData ds) s a = Some (Inr (), s', a')
    \<and> sent_bytes s' = sent_bytes s @ concat (map encode_grpc_frame ds)"
  using assms
proof (induction ds arbitrary: s a)
  case Nil
  then show ?case using raw_to_grpc_end_returns [of s a] by auto
next
  case (Cons d ds)
  obtain s1 where s1: "send_grpc_data s (encode_grpc_frame d) False = Some (Inr (), s1)"
      "capacity_for s1 (length (concat (map encode_grpc_frame ds)))"
    using send_grpc_data_returns [of s "encode_grpc_frame d" "length (concat (map encode_grpc_frame ds))" False]
      Cons.prems(1) by auto
  with Cons.IH [of s1 "mark (mark a)"] Cons.prems(2) obtain s' a' where
      "raw_to_grpc_with_activity (map ReadData ds) s1 (mark (mark a)) = Some (Inr (), s', a')"
      "sent_bytes s' = sent_bytes s1 @ concat (map encode_grpc_frame ds)"
    by auto
  with s1 send_grpc_data_bytes [OF s1(1)] Cons.prems(2) show ?case by auto
qed

lemma raw_to_grpc_sends:
  assumes "raw_to_grpc_with_activity (map ReadData ds) s a = Some (Inr u, s', a')" and "[] \<notin> set ds"
  shows "sent_bytes s' = sent_bytes s @ concat (map encode_grpc_frame ds)"
  using assms
proof (induction ds arbitrary: s a)
  case Nil
  then show ?case using raw_to_grpc_end_returns [of s a] by auto
next
  case (Cons d ds)
  then obtain s1 where s1: "send_grpc_data s (encode_grpc_frame d) False = Some (Inr (), s1)"
      "raw_to_grpc_with_activity (map ReadData ds) s1 (mark (mark a)) = Some (Inr u, s', a')"
    by (auto split: option.splits sum.splits)
  with Cons.IH [of s1 "mark (mark a)"] send_grpc_data_bytes [OF s1(1)] Cons.prems(2) show ?case by auto
qed

lemma frames_of_encoded:
  assumes "list_all small_payload ds" and "concat cs = concat (map encode_grpc_frame ds)"
  shows "frames_of (frame_reader_new (map Chunk cs)) = (map encode_grpc_frame ds, None)"
proof -
  let ?r = "frame_reader_new (map Chunk cs)"
  have p: "pending_bytes ?r = concat (map encode_grpc_frame ds)"
    by (simp add: pending_bytes_def frame_reader_new_def o_def assms(2))
  have "fr_recv ?r = map Chunk cs" by (simp add: frame_reader_new_def)
  from frames_of_deframe [OF this] show ?thesis unfolding p by (simp add: deframe_encode [OF assms(1)])
qed

lemma encoded_payloads:
  assumes "list_all small_payload ds"
  shows "list_all (\<lambda>f. is_ok (decode_grpc_frame_data f)) (map encode_grpc_frame ds)"
    and "map frame_payload (map encode_grpc_frame ds) = ds"
  using assms decode_encode_frame [of _ "[]"] by (auto simp: list_all_iff small_payload_def intro!: map_idI)

lemma grpc_to_raw_of_encoded:
  assumes "list_all small_payload ds" and "concat cs = concat (map encode_grpc_frame ds)" and "w_left w = None"
  shows "\<exists>a'. grpc_to_raw_with_activity (frame_reader_new (map Chunk cs)) w a
    = (Inr (), w\<lparr>w_out := w_out w @ concat ds, w_flushed := True, w_shutdown := True\<rparr>, a')"
  using grpc_to_raw_frames [of "frame_reader_new (map Chunk cs)" w a] assms(3)
    frames_of_encoded [OF assms(1,2)] encoded_payloads [OF assms(1)] by simp

lemma frames_forwarded:
  assumes "grpc_frames_to_grpc_with_activity r s a = Some (Inr u, s', a')"
  shows "sent_bytes s' = sent_bytes s @ concat (fst (frames_of r)) \<and> snd (frames_of r) = None"
  using assms
proof (induction r arbitrary: s a rule: frames_of.induct)
  case (1 r)
  obtain res r' where nf: "next_frame r = (res, r')" by (cases "next_frame r")
  show ?case
  proof (cases res)
    case (Inl e)
    with "1.prems" nf show ?thesis by (simp add: grpc_frames_to_grpc_with_activity.simps [of r])
  next
    case (Inr fo)
    show ?thesis
    proof (cases fo)
      case None
      with "1.prems" nf Inr raw_to_grpc_end_returns [of s a] show ?thesis
        by (auto simp: frames_of.simps [of r] grpc_frames_to_grpc_with_activity.simps [of r])
    next
      case (Some f)
      with "1.prems" nf Inr obtain s1 where s1: "send_grpc_data s f False = Some (Inr (), s1)"
          "grpc_frames_to_grpc_with_activity r' s1 (mark (mark a)) = Some (Inr u, s', a')"
        by (auto simp: grpc_frames_to_grpc_with_activity.simps [of r] split: option.splits sum.splits)
      from "1.IH" [OF nf [symmetric] Inr Some s1(2)] send_grpc_data_bytes [OF s1(1)] nf Inr Some
      show ?thesis by (simp add: frames_of.simps [of r])
    qed
  qed
qed

lemma frames_of_cases:
  obtains (error) e r' where "next_frame r = (Inl e, r')" "frames_of r = ([], Some e)"
  | (ends) r' where "next_frame r = (Inr None, r')" "frames_of r = ([], None)"
  | (frame) f r' where "next_frame r = (Inr (Some f), r')" "f \<noteq> []"
      "frames_of r = (f # fst (frames_of r'), snd (frames_of r'))"
proof -
  obtain res r' where nf: "next_frame r = (res, r')" by (cases "next_frame r")
  show thesis
  proof (cases res)
    case (Inl e)
    with nf show thesis by (intro error [of e r']) (simp_all add: frames_of.simps [of r])
  next
    case (Inr fo)
    show thesis
    proof (cases fo)
      case None
      with nf Inr show thesis by (intro ends [of r']) (simp_all add: frames_of.simps [of r])
    next
      case (Some f)
      with nf Inr next_frame_pending [of r f r'] show thesis
        by (intro frame [of f r']) (auto simp: frames_of.simps [of r])
    qed
  qed
qed

lemma frames_forward_returns:
  assumes "snd (frames_of r) = None" and "capacity_for s (length (concat (fst (frames_of r))))"
  shows "\<exists>s' a'. grpc_frames_to_grpc_with_activity r s a = Some (Inr (), s', a')
    \<and> sent_bytes s' = sent_bytes s @ concat (fst (frames_of r))"
  using assms
proof (induction r arbitrary: s a rule: frames_of.induct)
  case (1 r)
  show ?case
  proof (cases r rule: frames_of_cases)
    case (ends r')
    then show ?thesis using raw_to_grpc_end_returns [of s a]
      by (auto simp: grpc_frames_to_grpc_with_activity.simps [of r])
  next
    case (frame f r')
    then obtain s1 where s1: "send_grpc_data s f False = Some (Inr (), s1)" "capacity_for s1 (length (concat (fst (frames_of r'))))"
      using send_grpc_data_returns [of s f "length (concat (fst (frames_of r')))" False] "1.prems"(2) by auto
    with "1.IH" [OF frame(1) [symmetric] refl refl, of s1 "mark (mark a)"] frame "1.prems" send_grpc_data_bytes [OF s1(1)]
    show ?thesis by (auto simp: grpc_frames_to_grpc_with_activity.simps [of r])
  qed (use "1.prems" in simp)
qed

lemma next_frame_loop_released:
  "fr_released (snd (next_frame_loop evs buf rel)) + length (concat (map event_bytes (fr_recv (snd (next_frame_loop evs buf rel)))))
   = rel + length (concat (map event_bytes evs))"
  by (induction evs buf rel rule: next_frame_loop.induct)
    (auto split: peel_result.split recv_event.split)

subsection \<open>Properties\<close>

text \<open>
  C3 (relay_stream_identity). A raw byte stream read in any pieces of at most the read-buffer size
  and sent as gRPC frames, under any flow-control grants that eventually allow enough, is
  delivered by a receiver unchanged and completely, however HTTP/2 cuts it into chunks: the
  sender returns success, and the receiver writes exactly the bytes read, flushes and shuts its
  writer down.
\<close>

theorem relay_stream_identity:
  assumes "list_all (\<lambda>d. d \<noteq> [] \<and> length d \<le> RAW_TO_GRPC_READ_BUF_SIZE) ds"
    and "capacity_for s (length (concat (map encode_grpc_frame ds)))" and "ss_sent s = []"
    and "w_left w = None"
  shows "\<exists>s' a'. raw_to_grpc_with_activity (map ReadData ds) s a = Some (Inr (), s', a')
    \<and> (\<forall>cs b. concat cs = sent_bytes s' \<longrightarrow>
         (\<exists>b'. grpc_to_raw_with_activity (frame_reader_new (map Chunk cs)) w b
           = (Inr (), w\<lparr>w_out := w_out w @ concat ds, w_flushed := True, w_shutdown := True\<rparr>, b')))"
proof -
  have ne: "[] \<notin> set ds" and small: "list_all small_payload ds"
    using assms(1) by (auto simp: list_all_iff read_buf_small)
  have "sent_bytes s = []" using assms(3) by (simp add: sent_bytes_def)
  with raw_to_grpc_returns [OF assms(2) ne, of a] grpc_to_raw_of_encoded [OF small _ assms(4)]
  show ?thesis by fastforce
qed

definition sample_stream :: send_stream where
  "sample_stream = \<lparr>ss_caps = replicate 20 (Capacity 3 None), ss_end_err = None, ss_sent = []\<rparr>"

definition sample_writer :: writer where
  "sample_writer = \<lparr>w_out = [], w_left = None, w_flushed = False, w_shutdown = False\<rparr>"

theorem relay_stream_identity_witness:
  "\<exists>s' a'. raw_to_grpc_with_activity (map ReadData [[1, 2], [3]]) sample_stream None = Some (Inr (), s', a')
    \<and> (\<forall>cs b. concat cs = sent_bytes s' \<longrightarrow>
         (\<exists>b'. grpc_to_raw_with_activity (frame_reader_new (map Chunk cs)) sample_writer b
           = (Inr (), sample_writer\<lparr>w_out := w_out sample_writer @ concat [[1, 2], [3]],
                w_flushed := True, w_shutdown := True\<rparr>, b')))"
proof (rule relay_stream_identity)
  show "list_all (\<lambda>d. d \<noteq> [] \<and> length d \<le> RAW_TO_GRPC_READ_BUF_SIZE) [[1, 2], [3]]"
    by (simp add: RAW_TO_GRPC_READ_BUF_SIZE_def)
  show "capacity_for sample_stream (length (concat (map encode_grpc_frame [[1, 2], [3]])))"
    by (simp add: capacity_for_def sample_stream_def list_all_iff grants_def frame_outer_len_def varint_size.simps)
qed (simp_all add: sample_stream_def sample_writer_def)

text \<open>
  When sending succeeds, the pieces handed to the HTTP/2 stream are the
  data in order and completely, and only the last piece carries the requested end-of-stream
  flag; when it fails, a proper prefix was handed over and no piece carries the flag.
\<close>

theorem send_grpc_data_exact:
  assumes "send_grpc_data s data eos = Some (r, s')"
  shows "case r of
      Inr _ \<Rightarrow> \<exists>ps. ss_sent s' = ss_sent s @ flag_last eos ps \<and> concat ps = data \<and> ps \<noteq> []
    | Inl _ \<Rightarrow> \<exists>ps rest. ss_sent s' = ss_sent s @ map (\<lambda>p. (p, False)) ps \<and> data = concat ps @ rest
                 \<and> (rest \<noteq> [] \<or> data = [])"
proof (cases r)
  case (Inr u)
  with assms send_grpc_data_ok show ?thesis by auto
next
  case (Inl e)
  show ?thesis
  proof (cases "data = []")
    case True
    with assms Inl show ?thesis by (auto simp: send_grpc_data_def split: option.splits)
  next
    case False
    with assms Inl obtain caps where "send_loop (ss_caps s) data eos (ss_sent s) = Some (Inl e, caps, ss_sent s')"
      by (auto simp: send_grpc_data_def split: option.splits)
    from send_loop_err [OF this] Inl show ?thesis by auto
  qed
qed

end
