(* ===== verification/Rust_Str.thy ===== *)
theory Rust_Str
  imports Tobira_Prelude "HOL-Library.Sublist"
begin

text \<open>
  Rust's \<^verbatim>\<open>str\<close> and \<^verbatim>\<open>String\<close> as the sources use them. A Rust string is its UTF-8 byte sequence, so
  it is modelled by an Isabelle \<^typ>\<open>string\<close> whose characters are the bytes; \<open>chars\<close> decodes it to
  the list of its code points and \<open>from_chars\<close> encodes it again. The methods that work on ASCII
  delimiters (\<open>split_once\<close>, \<open>split_char\<close>, \<open>lines\<close>) work on the bytes, which is what the standard
  library does; \<open>trim\<close> works on the code points. The lemmas show that decoding inverts encoding,
  that encoding yields valid UTF-8, and that decimal parsing inverts decimal printing.
\<close>

subsection \<open>Definitions: UTF-8\<close>

definition is_scalar :: "nat \<Rightarrow> bool" where
  "is_scalar c \<longleftrightarrow> c < 0x110000 \<and> \<not> (0xD800 \<le> c \<and> c < 0xE000)"

definition utf8_encode :: "nat \<Rightarrow> nat list" where
  "utf8_encode c =
     (if c < 0x80 then [c]
      else if c < 0x800 then [0xC0 + c div 64, 0x80 + c mod 64]
      else if c < 0x10000 then [0xE0 + c div 4096, 0x80 + c div 64 mod 64, 0x80 + c mod 64]
      else [0xF0 + c div 262144, 0x80 + c div 4096 mod 64, 0x80 + c div 64 mod 64, 0x80 + c mod 64])"

fun utf8_decode :: "nat list \<Rightarrow> nat list" where
  "utf8_decode [] = []"
| "utf8_decode (b0 # bs) =
     (if b0 < 0x80 then b0 # utf8_decode bs
      else if b0 < 0xE0 then
        (case bs of b1 # r \<Rightarrow> ((b0 mod 32) * 64 + b1 mod 64) # utf8_decode r | _ \<Rightarrow> [])
      else if b0 < 0xF0 then
        (case bs of b1 # b2 # r \<Rightarrow>
           ((b0 mod 16) * 4096 + (b1 mod 64) * 64 + b2 mod 64) # utf8_decode r | _ \<Rightarrow> [])
      else
        (case bs of b1 # b2 # b3 # r \<Rightarrow>
           ((b0 mod 8) * 262144 + (b1 mod 64) * 4096 + (b2 mod 64) * 64 + b3 mod 64) # utf8_decode r
         | _ \<Rightarrow> []))"

definition is_cont :: "nat \<Rightarrow> bool" where
  "is_cont b \<longleftrightarrow> 0x80 \<le> b \<and> b < 0xC0"

fun utf8_valid_bytes :: "nat list \<Rightarrow> bool" where
  "utf8_valid_bytes [] = True"
| "utf8_valid_bytes (b0 # bs) =
     (if b0 < 0x80 then utf8_valid_bytes bs
      else if b0 < 0xC2 then False
      else if b0 < 0xE0 then
        (case bs of b1 # r \<Rightarrow> is_cont b1 \<and> utf8_valid_bytes r | _ \<Rightarrow> False)
      else if b0 < 0xF0 then
        (case bs of b1 # b2 # r \<Rightarrow>
           is_cont b1 \<and> is_cont b2 \<and> (b0 = 0xE0 \<longrightarrow> 0xA0 \<le> b1) \<and> (b0 = 0xED \<longrightarrow> b1 < 0xA0)
           \<and> utf8_valid_bytes r | _ \<Rightarrow> False)
      else if b0 < 0xF5 then
        (case bs of b1 # b2 # b3 # r \<Rightarrow>
           is_cont b1 \<and> is_cont b2 \<and> is_cont b3 \<and> (b0 = 0xF0 \<longrightarrow> 0x90 \<le> b1) \<and> (b0 = 0xF4 \<longrightarrow> b1 < 0x90)
           \<and> utf8_valid_bytes r | _ \<Rightarrow> False)
      else False)"

definition chars :: "string \<Rightarrow> nat list" where
  "chars s = utf8_decode (map of_char s)"

definition from_chars :: "nat list \<Rightarrow> string" where
  "from_chars cs = map char_of (concat (map utf8_encode cs))"

definition utf8_valid :: "string \<Rightarrow> bool" where
  "utf8_valid s = utf8_valid_bytes (map of_char s)"

definition from_utf8 :: "string \<Rightarrow> string option" where
  "from_utf8 s = (if utf8_valid s then Some s else None)"

definition is_ascii :: "string \<Rightarrow> bool" where
  "is_ascii s = list_all (\<lambda>c. of_char c < (128 :: nat)) s"

definition as_bytes :: "string \<Rightarrow> bytes" where
  "as_bytes s = map (\<lambda>c. word_of_nat (of_char c)) s"

definition of_bytes :: "bytes \<Rightarrow> string" where
  "of_bytes bs = map (\<lambda>b. char_of (unat b)) bs"

subsection \<open>Definitions: methods of str\<close>

definition starts_with :: "string \<Rightarrow> string \<Rightarrow> bool" where
  "starts_with s p \<longleftrightarrow> take (length p) s = p"

definition strip_prefix :: "string \<Rightarrow> string \<Rightarrow> string option" where
  "strip_prefix s p = (if starts_with s p then Some (drop (length p) s) else None)"

definition strip_suffix :: "string \<Rightarrow> string \<Rightarrow> string option" where
  "strip_suffix s p = map_option rev (strip_prefix (rev s) (rev p))"

fun contains_str :: "string \<Rightarrow> string \<Rightarrow> bool" where
  "contains_str [] p = (p = [])"
| "contains_str (c # s) p = (starts_with (c # s) p \<or> contains_str s p)"

definition split_once :: "string \<Rightarrow> char \<Rightarrow> (string \<times> string) option" where
  "split_once s c =
     (case dropWhile (\<lambda>x. x \<noteq> c) s of [] \<Rightarrow> None | _ # b \<Rightarrow> Some (takeWhile (\<lambda>x. x \<noteq> c) s, b))"

fun split_char :: "char \<Rightarrow> string \<Rightarrow> string list" where
  "split_char c [] = [[]]"
| "split_char c (x # xs) =
     (if x = c then [] # split_char c xs
      else (case split_char c xs of h # t \<Rightarrow> (x # h) # t | [] \<Rightarrow> [[x]]))"

definition newline :: char where
  "newline = CHR 0x0A"

definition strip_cr :: "string \<Rightarrow> string" where
  "strip_cr s = (if s \<noteq> [] \<and> last s = CHR 0x0D then butlast s else s)"

function lines :: "string \<Rightarrow> string list" where
  "lines s =
     (if s = [] then []
      else case dropWhile (\<lambda>x. x \<noteq> newline) s of
             [] \<Rightarrow> [s]
           | _ # r \<Rightarrow> strip_cr (takeWhile (\<lambda>x. x \<noteq> newline) s) # lines r)"
  by pat_completeness auto
termination
proof (relation "measure length")
  fix s :: string and x r
  assume "dropWhile (\<lambda>x. x \<noteq> newline) s = x # r"
  then have "length (x # r) \<le> length s" by (metis length_dropWhile_le)
  then show "(r, s) \<in> measure length" by simp
qed simp

declare lines.simps [simp del]

definition is_whitespace :: "nat \<Rightarrow> bool" where
  "is_whitespace c \<longleftrightarrow> (9 \<le> c \<and> c \<le> 13) \<or> c = 0x20 \<or> c = 0x85 \<or> c = 0xA0 \<or> c = 0x1680
     \<or> (0x2000 \<le> c \<and> c \<le> 0x200A) \<or> c = 0x2028 \<or> c = 0x2029 \<or> c = 0x202F \<or> c = 0x205F \<or> c = 0x3000"

definition trim :: "string \<Rightarrow> string" where
  "trim s = from_chars (rev (dropWhile is_whitespace (rev (dropWhile is_whitespace (chars s)))))"

definition trim_end_matches :: "string \<Rightarrow> char \<Rightarrow> string" where
  "trim_end_matches s c = rev (dropWhile (\<lambda>x. x = c) (rev s))"

definition ascii_lower :: "char \<Rightarrow> char" where
  "ascii_lower c =
     (if 65 \<le> (of_char c :: nat) \<and> of_char c \<le> (90 :: nat) then char_of (of_char c + 32 :: nat) else c)"

definition to_ascii_lowercase :: "string \<Rightarrow> string" where
  "to_ascii_lowercase s = map ascii_lower s"

text \<open>\<^verbatim>\<open>[T]::join\<close> on strings.\<close>

fun join :: "string \<Rightarrow> string list \<Rightarrow> string" where
  "join sep [] = []"
| "join sep [s] = s"
| "join sep (s # ss) = s @ sep @ join sep ss"

subsection \<open>Definitions: numbers\<close>

definition digit_value :: "char \<Rightarrow> nat option" where
  "digit_value c =
     (let n = of_char c :: nat in
      if 48 \<le> n \<and> n \<le> 57 then Some (n - 48)
      else if 97 \<le> n \<and> n \<le> 102 then Some (n - 87)
      else if 65 \<le> n \<and> n \<le> 70 then Some (n - 55)
      else None)"

definition dec_digit :: "char \<Rightarrow> nat option" where
  "dec_digit c = (let n = of_char c :: nat in if 48 \<le> n \<and> n \<le> 57 then Some (n - 48) else None)"

fun digits_acc :: "nat \<Rightarrow> string \<Rightarrow> nat option" where
  "digits_acc acc [] = Some acc"
| "digits_acc acc (c # cs) =
     (case dec_digit c of None \<Rightarrow> None | Some d \<Rightarrow> digits_acc (acc * 10 + d) cs)"

definition parse_digits :: "string \<Rightarrow> nat option" where
  "parse_digits s = (if s = [] then None else digits_acc 0 s)"

text \<open>\<^verbatim>\<open>str::parse::<i64>\<close>: one optional sign, at least one digit, the value in range.\<close>

definition parse_i64 :: "string \<Rightarrow> int option" where
  "parse_i64 s =
     (case s of
        [] \<Rightarrow> None
      | c # cs \<Rightarrow>
          (if c = CHR ''-'' then
             (case parse_digits cs of None \<Rightarrow> None
              | Some n \<Rightarrow> if n \<le> 2 ^ 63 then Some (- int n) else None)
           else
             (case parse_digits (if c = CHR ''+'' then cs else s) of None \<Rightarrow> None
              | Some n \<Rightarrow> if n < 2 ^ 63 then Some (int n) else None)))"

fun show_nat :: "nat \<Rightarrow> string" where
  "show_nat n = (if n < 10 then [char_of (48 + n)] else show_nat (n div 10) @ [char_of (48 + n mod 10)])"

declare show_nat.simps [simp del]

subsection \<open>UTF-8: decoding inverts encoding\<close>

text \<open>The digits of a code point in base 64, as the encoder cuts it.\<close>

lemma div_mod_base64:
  fixes c :: nat
  shows "c div 64 * 64 + c mod 64 = c"
    and "c div 4096 * 4096 + c div 64 mod 64 * 64 + c mod 64 = c"
    and "c div 262144 * 262144 + c div 4096 mod 64 * 4096 + c div 64 mod 64 * 64 + c mod 64 = c"
proof -
  have d2: "c div 64 div 64 = c div 4096" and d3: "c div 4096 div 64 = c div 262144"
    by (simp_all add: div_mult2_eq [symmetric])
  show e1: "c div 64 * 64 + c mod 64 = c" by simp
  have "c div 4096 * 64 + c div 64 mod 64 = c div 64"
    using div_mult_mod_eq [of "c div 64" 64] by (simp add: d2)
  with e1 show e2: "c div 4096 * 4096 + c div 64 mod 64 * 64 + c mod 64 = c" by linarith
  have "c div 262144 * 64 + c div 4096 mod 64 = c div 4096"
    using div_mult_mod_eq [of "c div 4096" 64] by (simp add: d3)
  with e2 show "c div 262144 * 262144 + c div 4096 mod 64 * 4096 + c div 64 mod 64 * 64 + c mod 64 = c"
    by linarith
qed

lemma lead_byte_mod:
  fixes x :: nat
  shows "x < 32 \<Longrightarrow> (192 + x) mod 32 = x"
    and "x < 16 \<Longrightarrow> (224 + x) mod 16 = x"
    and "x < 8 \<Longrightarrow> (240 + x) mod 8 = x"
    and "x < 64 \<Longrightarrow> (128 + x) mod 64 = x"
proof -
  have off: "y < m \<Longrightarrow> (k * m + y) mod m = y" for y m k :: nat by simp
  show "x < 32 \<Longrightarrow> (192 + x) mod 32 = x" using off [of x 32 6] by simp
  show "x < 16 \<Longrightarrow> (224 + x) mod 16 = x" using off [of x 16 14] by simp
  show "x < 8 \<Longrightarrow> (240 + x) mod 8 = x" using off [of x 8 30] by simp
  show "x < 64 \<Longrightarrow> (128 + x) mod 64 = x" using off [of x 64 2] by simp
qed

lemma utf8_decode_encode:
  assumes "c < 0x110000"
  shows "utf8_decode (utf8_encode c @ r) = c # utf8_decode r"
proof -
  consider "c < 0x80" | "0x80 \<le> c" "c < 0x800" | "0x800 \<le> c" "c < 0x10000" | "0x10000 \<le> c"
    by linarith
  then show ?thesis
  proof cases
    case 2
    then have "c div 64 < 32" by (simp add: less_mult_imp_div_less)
    with 2 show ?thesis by (simp add: utf8_encode_def lead_byte_mod div_mod_base64)
  next
    case 3
    then have "c div 4096 < 16" by (simp add: less_mult_imp_div_less)
    with 3 show ?thesis by (simp add: utf8_encode_def lead_byte_mod div_mod_base64)
  next
    case 4
    with assms have "c div 262144 < 8" by (simp add: less_mult_imp_div_less)
    with 4 assms show ?thesis by (simp add: utf8_encode_def lead_byte_mod div_mod_base64)
  qed (simp add: utf8_encode_def)
qed

lemma utf8_encode_bytes:
  assumes "c < 0x110000" and "b \<in> set (utf8_encode c)"
  shows "b < 256"
proof -
  have m: "x mod 64 < 64" for x :: nat by simp
  consider "c < 0x80" | "0x80 \<le> c" "c < 0x800" | "0x800 \<le> c" "c < 0x10000" | "0x10000 \<le> c"
    by linarith
  then show ?thesis
  proof cases
    case 2
    then have "c div 64 < 32" by (simp add: less_mult_imp_div_less)
    with 2 assms m [of c] show ?thesis by (auto simp: utf8_encode_def)
  next
    case 3
    then have "c div 4096 < 16" by (simp add: less_mult_imp_div_less)
    with 3 assms m [of c] m [of "c div 64"] show ?thesis by (auto simp: utf8_encode_def)
  next
    case 4
    with assms have "c div 262144 < 8" by (simp add: less_mult_imp_div_less)
    with 4 assms m [of c] m [of "c div 64"] m [of "c div 4096"] show ?thesis
      by (auto simp: utf8_encode_def)
  qed (use assms in \<open>simp add: utf8_encode_def\<close>)
qed

lemma utf8_encode_valid:
  assumes "is_scalar c"
  shows "utf8_valid_bytes (utf8_encode c @ r) = utf8_valid_bytes r"
proof -
  have lt: "c < 0x110000" and sur: "c < 0xD800 \<or> 0xE000 \<le> c"
    using assms by (auto simp: is_scalar_def)
  have m: "x mod 64 < 64" for x :: nat by simp
  note base = div_mod_base64 [of c]
  consider "c < 0x80" | "0x80 \<le> c" "c < 0x800" | "0x800 \<le> c" "c < 0x10000" | "0x10000 \<le> c"
    by linarith
  then show ?thesis
  proof cases
    case 2
    then have "c div 64 < 32" by (simp add: less_mult_imp_div_less)
    moreover have "2 \<le> c div 64" using base(1) m [of c] 2 by linarith
    ultimately show ?thesis using 2 m [of c] by (simp add: utf8_encode_def is_cont_def)
  next
    case 3
    then have "c div 4096 < 16" by (simp add: less_mult_imp_div_less)
    moreover have "c div 4096 = 0 \<Longrightarrow> 32 \<le> c div 64 mod 64" using base(2) m [of c] 3 by linarith
    moreover have "c div 4096 = 13 \<Longrightarrow> c div 64 mod 64 < 32"
      using base(2) m [of c] m [of "c div 64"] sur by linarith
    ultimately show ?thesis using 3 m [of c] m [of "c div 64"]
      by (auto simp: utf8_encode_def is_cont_def)
  next
    case 4
    have "c div 262144 < 5" using lt by (simp add: less_mult_imp_div_less)
    moreover have "c div 262144 = 0 \<Longrightarrow> 16 \<le> c div 4096 mod 64"
      using base(3) m [of c] m [of "c div 64"] 4 by linarith
    moreover have "c div 262144 = 4 \<Longrightarrow> c div 4096 mod 64 < 16" using base(3) lt by linarith
    ultimately show ?thesis using 4 m [of c] m [of "c div 64"] m [of "c div 4096"]
      by (auto simp: utf8_encode_def is_cont_def)
  qed (simp add: utf8_encode_def)
qed

lemma map_of_char_from_chars:
  assumes "\<forall>c \<in> set cs. c < 0x110000"
  shows "map of_char (from_chars cs) = concat (map utf8_encode cs)"
proof -
  have "map (of_char \<circ> char_of) (concat (map utf8_encode cs)) = concat (map utf8_encode cs)"
    using assms by (intro map_idI) (auto dest!: utf8_encode_bytes)
  then show ?thesis by (simp add: from_chars_def)
qed

lemma chars_from_chars:
  assumes "\<forall>c \<in> set cs. c < 0x110000"
  shows "chars (from_chars cs) = cs"
proof -
  have "utf8_decode (concat (map utf8_encode cs)) = cs"
    using assms by (induction cs) (simp_all add: utf8_decode_encode)
  with assms show ?thesis by (simp add: chars_def map_of_char_from_chars)
qed

lemma from_chars_valid:
  assumes "\<forall>c \<in> set cs. is_scalar c"
  shows "utf8_valid (from_chars cs)"
proof -
  have "\<forall>c \<in> set cs. c < 0x110000" using assms by (simp add: is_scalar_def)
  moreover have "utf8_valid_bytes (concat (map utf8_encode cs))"
    using assms by (induction cs) (simp_all add: utf8_encode_valid)
  ultimately show ?thesis by (simp add: utf8_valid_def map_of_char_from_chars)
qed

subsection \<open>UTF-8: encoding inverts decoding on valid strings\<close>

lemma utf8_encode_digits:
  fixes x y z w :: nat
  shows "2 \<le> x \<Longrightarrow> x < 32 \<Longrightarrow> y < 64 \<Longrightarrow> utf8_encode (x * 64 + y) = [192 + x, 128 + y]"
    and "x < 16 \<Longrightarrow> y < 64 \<Longrightarrow> z < 64 \<Longrightarrow> (x = 0 \<Longrightarrow> 32 \<le> y) \<Longrightarrow>
      utf8_encode (x * 4096 + y * 64 + z) = [224 + x, 128 + y, 128 + z]"
    and "x < 8 \<Longrightarrow> y < 64 \<Longrightarrow> z < 64 \<Longrightarrow> w < 64 \<Longrightarrow> (x = 0 \<Longrightarrow> 16 \<le> y) \<Longrightarrow>
      utf8_encode (x * 262144 + y * 4096 + z * 64 + w) = [240 + x, 128 + y, 128 + z, 128 + w]"
proof -
  show "2 \<le> x \<Longrightarrow> x < 32 \<Longrightarrow> y < 64 \<Longrightarrow> utf8_encode (x * 64 + y) = [192 + x, 128 + y]"
    by (simp add: utf8_encode_def)
next
  have dm: "r < 64 \<Longrightarrow> (q * 64 + r) div 64 = q \<and> (q * 64 + r) mod 64 = r" for q r :: nat by simp
  assume a: "x < 16" "y < 64" "z < 64" "x = 0 \<Longrightarrow> 32 \<le> y"
  let ?c = "x * 4096 + y * 64 + z"
  have c: "?c = (x * 64 + y) * 64 + z" by simp
  have "\<not> ?c < 0x800" using a by (cases "x = 0") auto
  moreover have "?c < 0x10000" using a by linarith
  moreover have "?c div 64 mod 64 = y \<and> ?c mod 64 = z"
    unfolding c using dm [OF a(3), of "x * 64 + y"] dm [OF a(2), of x] by simp
  moreover have "?c div 4096 = x" using a by simp
  ultimately show "utf8_encode ?c = [224 + x, 128 + y, 128 + z]"
    by (simp add: utf8_encode_def)
next
  have dm: "r < 64 \<Longrightarrow> (q * 64 + r) div 64 = q \<and> (q * 64 + r) mod 64 = r" for q r :: nat by simp
  assume a: "x < 8" "y < 64" "z < 64" "w < 64" "x = 0 \<Longrightarrow> 16 \<le> y"
  let ?c = "x * 262144 + y * 4096 + z * 64 + w"
  have c: "?c = ((x * 64 + y) * 64 + z) * 64 + w" by simp
  have "\<not> ?c < 0x10000" using a by (cases "x = 0") auto
  moreover have "?c div 64 mod 64 = z \<and> ?c mod 64 = w"
    unfolding c using dm [OF a(4), of "(x * 64 + y) * 64 + z"] dm [OF a(3), of "x * 64 + y"] by simp
  moreover have "?c div 4096 = x * 64 + y" using a by simp
  then have "?c div 4096 mod 64 = y" using dm [OF a(2), of x] by simp
  moreover have "?c div 262144 = x" using a by simp
  ultimately show "utf8_encode ?c = [240 + x, 128 + y, 128 + z, 128 + w]"
    by (simp add: utf8_encode_def)
qed

lemma is_cont_mod: "is_cont b \<Longrightarrow> b = 128 + b mod 64"
  using le_add_diff_inverse [of 128 b] lead_byte_mod(4) [of "b - 128"] by (auto simp: is_cont_def)

lemma lead_mod:
  fixes b :: nat
  shows "192 \<le> b \<Longrightarrow> b < 224 \<Longrightarrow> b = 192 + b mod 32"
    and "224 \<le> b \<Longrightarrow> b < 240 \<Longrightarrow> b = 224 + b mod 16"
    and "240 \<le> b \<Longrightarrow> b < 248 \<Longrightarrow> b = 240 + b mod 8"
  using le_add_diff_inverse [of 192 b] lead_byte_mod(1) [of "b - 192"]
    le_add_diff_inverse [of 224 b] lead_byte_mod(2) [of "b - 224"]
    le_add_diff_inverse [of 240 b] lead_byte_mod(3) [of "b - 240"]
  by simp_all

lemma utf8_valid_step2:
  assumes "0xC2 \<le> b0" "b0 < 0xE0" "is_cont b1"
  shows "utf8_encode ((b0 mod 32) * 64 + b1 mod 64) = [b0, b1]"
proof -
  have b: "b0 = 192 + b0 mod 32" "b1 = 128 + b1 mod 64"
    using assms lead_mod(1) [of b0] is_cont_mod by auto
  have "2 \<le> b0 mod 32" using assms(1) b(1) by linarith
  then show ?thesis using utf8_encode_digits(1) [of "b0 mod 32" "b1 mod 64"] b by simp
qed

lemma utf8_valid_step3:
  assumes "0xE0 \<le> b0" "b0 < 0xF0" "is_cont b1" "is_cont b2" "b0 = 0xE0 \<Longrightarrow> 0xA0 \<le> b1"
  shows "utf8_encode ((b0 mod 16) * 4096 + (b1 mod 64) * 64 + b2 mod 64) = [b0, b1, b2]"
proof -
  have b: "b0 = 224 + b0 mod 16" "b1 = 128 + b1 mod 64" "b2 = 128 + b2 mod 64"
    using assms lead_mod(2) [of b0] is_cont_mod by auto
  have "b0 mod 16 = 0 \<Longrightarrow> 32 \<le> b1 mod 64" using assms(5) b(1,2) by linarith
  then show ?thesis
    using utf8_encode_digits(2) [of "b0 mod 16" "b1 mod 64" "b2 mod 64"] b by simp
qed

lemma utf8_valid_step4:
  assumes "0xF0 \<le> b0" "b0 < 0xF5" "is_cont b1" "is_cont b2" "is_cont b3" "b0 = 0xF0 \<Longrightarrow> 0x90 \<le> b1"
  shows "utf8_encode ((b0 mod 8) * 262144 + (b1 mod 64) * 4096 + (b2 mod 64) * 64 + b3 mod 64)
    = [b0, b1, b2, b3]"
proof -
  have b: "b0 = 240 + b0 mod 8" "b1 = 128 + b1 mod 64" "b2 = 128 + b2 mod 64" "b3 = 128 + b3 mod 64"
    using assms lead_mod(3) [of b0] is_cont_mod by auto
  have "b0 mod 8 = 0 \<Longrightarrow> 16 \<le> b1 mod 64" using assms(6) b(1,2) by linarith
  then show ?thesis
    using utf8_encode_digits(3) [of "b0 mod 8" "b1 mod 64" "b2 mod 64" "b3 mod 64"] b by simp
qed

lemma utf8_encode_decode:
  "utf8_valid_bytes bs \<Longrightarrow> concat (map utf8_encode (utf8_decode bs)) = bs"
proof (induction bs rule: utf8_valid_bytes.induct)
  case 1
  then show ?case by simp
next
  case (2 b0 bs)
  consider "b0 < 0x80" | "0xC2 \<le> b0" "b0 < 0xE0" | "0xE0 \<le> b0" "b0 < 0xF0" | "0xF0 \<le> b0" "b0 < 0xF5"
    using "2.prems" by (force split: if_splits)
  then show ?case
  proof cases
    case 1
    with 2 show ?thesis by (simp add: utf8_encode_def)
  next
    case 2
    with "2.prems" obtain b1 r where bs: "bs = b1 # r" "is_cont b1" "utf8_valid_bytes r"
      by (auto split: list.splits)
    with 2 "2.IH" show ?thesis by (simp add: utf8_valid_step2)
  next
    case 3
    with "2.prems" obtain b1 b2 r where bs: "bs = b1 # b2 # r" "is_cont b1" "is_cont b2"
      "b0 = 0xE0 \<Longrightarrow> 0xA0 \<le> b1" "utf8_valid_bytes r"
      by (auto split: list.splits)
    with 3 "2.IH" show ?thesis by (simp add: utf8_valid_step3)
  next
    case 4
    with "2.prems" obtain b1 b2 b3 r where bs: "bs = b1 # b2 # b3 # r" "is_cont b1" "is_cont b2"
      "is_cont b3" "b0 = 0xF0 \<Longrightarrow> 0x90 \<le> b1" "utf8_valid_bytes r"
      by (auto split: list.splits)
    with 4 "2.IH" show ?thesis by (simp add: utf8_valid_step4)
  qed
qed

lemma from_chars_chars: "utf8_valid s \<Longrightarrow> from_chars (chars s) = s"
  by (simp add: utf8_valid_def from_chars_def chars_def utf8_encode_decode o_def)

subsection \<open>ASCII strings\<close>

lemma utf8_decode_ascii: "list_all (\<lambda>b. b < 128) bs \<Longrightarrow> utf8_decode bs = bs"
  by (induction bs) auto

lemma chars_ascii: "is_ascii s \<Longrightarrow> chars s = map of_char s"
  by (simp add: chars_def is_ascii_def list.pred_map o_def utf8_decode_ascii)

lemma utf8_valid_ascii: "is_ascii s \<Longrightarrow> utf8_valid s"
proof -
  have "list_all (\<lambda>b. b < 128) bs \<Longrightarrow> utf8_valid_bytes bs" for bs :: "nat list"
    by (induction bs) auto
  then show "is_ascii s \<Longrightarrow> utf8_valid s"
    by (simp add: utf8_valid_def is_ascii_def list.pred_map o_def)
qed

lemma of_bytes_as_bytes [simp, codec_simps]: "of_bytes (as_bytes s) = s"
proof -
  have "unat (word_of_nat (of_char c) :: u8) = of_char c" for c :: char
    by (simp add: unat_of_nat)
  then show ?thesis by (simp add: of_bytes_def as_bytes_def o_def)
qed

lemma as_bytes_of_bytes [simp, codec_simps]: "as_bytes (of_bytes bs) = bs"
proof -
  have "(word_of_nat (of_char (char_of (unat b) :: char)) :: u8) = b" for b
  proof -
    have "unat b < 256" using unsigned_less [of b, where ?'a = nat] by simp
    then show ?thesis by simp
  qed
  then show ?thesis by (simp add: of_bytes_def as_bytes_def o_def)
qed

lemma length_as_bytes [simp]: "length (as_bytes s) = length s"
  by (simp add: as_bytes_def)

lemma as_bytes_eq_iff [simp]: "as_bytes s = as_bytes t \<longleftrightarrow> s = t"
  by (metis of_bytes_as_bytes)

subsection \<open>Splitting and joining\<close>

lemma split_once_append: "c \<notin> set a \<Longrightarrow> split_once (a @ c # b) c = Some (a, b)"
proof -
  assume "c \<notin> set a"
  then have "\<And>x. x \<in> set a \<Longrightarrow> x \<noteq> c" by auto
  then show ?thesis
    by (simp add: split_once_def dropWhile_append2 [where P = "\<lambda>x. x \<noteq> c"]
        takeWhile_append2 [where P = "\<lambda>x. x \<noteq> c"])
qed

lemma split_once_None: "split_once s c = None \<longleftrightarrow> c \<notin> set s"
proof -
  have "dropWhile (\<lambda>x. x \<noteq> c) s = [] \<longleftrightarrow> (\<forall>x \<in> set s. x \<noteq> c)" by (rule dropWhile_eq_Nil_conv)
  moreover have "split_once s c = None \<longleftrightarrow> dropWhile (\<lambda>x. x \<noteq> c) s = []"
    by (simp add: split_once_def del: dropWhile_eq_Nil_conv split: list.split)
  ultimately show ?thesis by blast
qed

lemma split_once_SomeD: "split_once s c = Some (a, b) \<Longrightarrow> s = a @ c # b \<and> c \<notin> set a"
proof -
  assume h: "split_once s c = Some (a, b)"
  then obtain x where x: "dropWhile (\<lambda>x. x \<noteq> c) s = x # b" and a: "a = takeWhile (\<lambda>x. x \<noteq> c) s"
    by (auto simp: split_once_def split: list.splits)
  have "x = c" using hd_dropWhile [of "\<lambda>x. x \<noteq> c" s] x by auto
  moreover have "s = a @ x # b" using takeWhile_dropWhile_id [of "\<lambda>x. x \<noteq> c" s] x a by simp
  moreover have "c \<notin> set a" using a by (auto dest: set_takeWhileD)
  ultimately show ?thesis by simp
qed

lemma strip_prefix_append [simp]: "strip_prefix (p @ s) p = Some s"
  by (simp add: strip_prefix_def starts_with_def)

lemma starts_with_append [simp]: "starts_with (p @ s) p"
  by (simp add: starts_with_def)

lemma starts_withD: "starts_with s p \<Longrightarrow> s = p @ drop (length p) s"
  by (metis append_take_drop_id starts_with_def)

subsection \<open>Decimal numbers\<close>

lemma dec_digit_char [simp]: "d < 10 \<Longrightarrow> dec_digit (char_of (48 + d)) = Some d"
  by (simp add: dec_digit_def)

lemma digits_acc_append:
  "digits_acc acc (xs @ ys) = (case digits_acc acc xs of None \<Rightarrow> None | Some a \<Rightarrow> digits_acc a ys)"
  by (induction xs arbitrary: acc) (auto split: option.splits)

lemma digits_acc_show: "digits_acc 0 (show_nat n) = Some n"
proof (induction n rule: show_nat.induct)
  case (1 n)
  then show ?case by (subst show_nat.simps) (simp add: digits_acc_append)
qed

lemma show_nat_nonempty [simp]: "show_nat n \<noteq> []"
  by (subst show_nat.simps) simp

lemma parse_digits_show [simp, codec_simps]: "parse_digits (show_nat n) = Some n"
  by (simp add: parse_digits_def digits_acc_show)

lemma show_nat_digits: "c \<in> set (show_nat n) \<Longrightarrow> 48 \<le> (of_char c :: nat) \<and> of_char c \<le> (57 :: nat)"
proof (induction n rule: show_nat.induct)
  case (1 n)
  then show ?case by (subst (asm) show_nat.simps) (auto split: if_splits)
qed

lemma show_nat_inject [simp]: "show_nat m = show_nat n \<longleftrightarrow> m = n"
  by (metis option.inject parse_digits_show)

lemma parse_i64_show: "n < 2 ^ 63 \<Longrightarrow> parse_i64 (show_nat n) = Some (int n)"
proof -
  assume n: "n < 2 ^ 63"
  obtain c cs where s: "show_nat n = c # cs" by (cases "show_nat n") auto
  have "48 \<le> (of_char c :: nat)" using show_nat_digits [of c n] s by simp
  then have "c \<noteq> CHR ''-''" "c \<noteq> CHR ''+''" by auto
  with s n parse_digits_show [of n] show ?thesis by (simp add: parse_i64_def)
qed

lemma parse_i64_range: "parse_i64 s = Some v \<Longrightarrow> - (2 ^ 63) \<le> v \<and> v < 2 ^ 63"
  by (auto simp: parse_i64_def split: list.splits if_splits option.splits)

subsection \<open>Lines\<close>

lemma newline_split:
  assumes "newline \<notin> set l"
  shows "dropWhile (\<lambda>x. x \<noteq> newline) (l @ newline # r) = newline # r"
    and "takeWhile (\<lambda>x. x \<noteq> newline) (l @ newline # r) = l"
    and "dropWhile (\<lambda>x. x \<noteq> newline) l = []"
proof -
  have P: "x \<noteq> newline" if "x \<in> set l" for x using that assms by auto
  show "dropWhile (\<lambda>x. x \<noteq> newline) (l @ newline # r) = newline # r"
    by (subst dropWhile_append2) (use P in auto)
  show "takeWhile (\<lambda>x. x \<noteq> newline) (l @ newline # r) = l"
    by (subst takeWhile_append2) (use P in auto)
  show "dropWhile (\<lambda>x. x \<noteq> newline) l = []" using P by (simp add: dropWhile_eq_Nil_conv)
qed

lemma lines_Nil [simp]: "lines [] = []"
  by (simp add: lines.simps)

lemma lines_single: "newline \<notin> set l \<Longrightarrow> l \<noteq> [] \<Longrightarrow> lines l = [l]"
  by (subst lines.simps) (simp add: newline_split)

lemma lines_cons: "newline \<notin> set l \<Longrightarrow> lines (l @ newline # r) = strip_cr l # lines r"
  by (subst lines.simps) (simp add: newline_split)

text \<open>A line that neither holds a line break nor ends in a carriage return.\<close>

definition plain_line :: "string \<Rightarrow> bool" where
  "plain_line l \<longleftrightarrow> l \<noteq> [] \<and> newline \<notin> set l \<and> last l \<noteq> CHR 0x0D"

lemma lines_join: "list_all plain_line ls \<Longrightarrow> lines (join [newline] ls) = ls"
proof (induction "[newline]" ls rule: join.induct)
  case 1
  then show ?case by simp
next
  case (2 s)
  then show ?case by (simp add: plain_line_def lines_single)
next
  case (3 s t ss)
  then show ?case by (simp add: plain_line_def lines_cons strip_cr_def)
qed

subsection \<open>Trimming\<close>

lemma trim_id:
  assumes "utf8_valid s" and "chars s \<noteq> []" and "\<not> is_whitespace (hd (chars s))"
    and "\<not> is_whitespace (last (chars s))"
  shows "trim s = s"
proof -
  have dw: "xs \<noteq> [] \<Longrightarrow> \<not> is_whitespace (hd xs) \<Longrightarrow> dropWhile is_whitespace xs = xs" for xs
    by (cases xs) auto
  have 1: "dropWhile is_whitespace (chars s) = chars s" using assms(2,3) by (rule dw)
  have 2: "dropWhile is_whitespace (rev (chars s)) = rev (chars s)"
    using assms(2,4) by (intro dw) (simp_all add: hd_rev)
  show ?thesis unfolding trim_def 1 2 using from_chars_chars [OF assms(1)] by simp
qed

lemma trim_ascii_id:
  assumes "is_ascii s" and "s \<noteq> []" and "\<not> is_whitespace (of_char (hd s))" and "\<not> is_whitespace (of_char (last s))"
  shows "trim s = s"
  using assms by (intro trim_id utf8_valid_ascii) (simp_all add: chars_ascii hd_map last_map)

end
