(* ===== verification/Grpc_Pool.thy ===== *)
theory Grpc_Pool
  imports Rust_Str
begin

text \<open>
  The connection pool of \<^verbatim>\<open>src/relay/transport/grpc.rs\<close>. The pool maps endpoint keys to slots; a
  slot is an \<^verbatim>\<open>Arc<Mutex<Option<PooledConn>>>\<close>, which tasks may hold beyond its removal from the
  map, so slots live in a heap and are referred to by address. A \<^verbatim>\<open>SendRequest\<close> handle is the id
  of its connection, a number that counts on modulo two to the power of 64. Time is a number of milliseconds.

  Every stretch of code between two points where a task may be suspended is one function on the
  pool; the relation \<open>pool_step\<close> interleaves these stretches for any number of tasks. The lemmas show
  by induction over the reachable states that a slot never sees two handshakes at the same time and
  that connection ids are unique until their counter wraps; what the uncontended operations do; and that a request which
  races with the pruning of its endpoint can leave a connection behind that no key leads to.
\<close>

subsection \<open>Definitions: pool state\<close>

record pooled_conn =
  pc_id :: nat
  pc_last_used :: nat

record slot =
  sl_conn :: "pooled_conn option"
  sl_locked :: bool

record grpc_pool =
  gp_conns :: "string \<rightharpoonup> nat" \<comment> \<open>key to slot address\<close>
  gp_slots :: "nat \<Rightarrow> slot" \<comment> \<open>the heap of slots\<close>
  gp_next_slot :: nat \<comment> \<open>the next free address\<close>
  gp_next_conn_id :: nat \<comment> \<open>below two to the power of 64\<close>
  gp_idle_timeout :: "nat option"

definition empty_slot :: slot where
  "empty_slot = \<lparr>sl_conn = None, sl_locked = False\<rparr>"

definition grpc_pool_new :: "nat option \<Rightarrow> grpc_pool" where
  "grpc_pool_new idle = \<lparr>gp_conns = Map.empty, gp_slots = (\<lambda>_. empty_slot), gp_next_slot = 0,
     gp_next_conn_id = 1, gp_idle_timeout = idle\<rparr>"

definition set_idle_timeout :: "grpc_pool \<Rightarrow> nat option \<Rightarrow> grpc_pool" where
  "set_idle_timeout p idle = p\<lparr>gp_idle_timeout := idle\<rparr>"

definition pool_key :: "string \<Rightarrow> string \<Rightarrow> string" where
  "pool_key addr tls_sni = tls_sni @ '':'' @ addr"

definition set_slot :: "grpc_pool \<Rightarrow> nat \<Rightarrow> slot \<Rightarrow> grpc_pool" where
  "set_slot p a s = p\<lparr>gp_slots := (gp_slots p)(a := s)\<rparr>"

definition set_conn :: "grpc_pool \<Rightarrow> nat \<Rightarrow> pooled_conn option \<Rightarrow> grpc_pool" where
  "set_conn p a c = set_slot p a ((gp_slots p a)\<lparr>sl_conn := c\<rparr>)"

subsection \<open>Definitions: the stretches of \<^verbatim>\<open>get_or_create\<close>\<close>

text \<open>\<^verbatim>\<open>entry(key).or_insert_with(..).clone()\<close>: the address of the slot, allocated if absent.\<close>

definition slot_entry :: "grpc_pool \<Rightarrow> string \<Rightarrow> nat \<times> grpc_pool" where
  "slot_entry p key =
     (case gp_conns p key of
        Some a \<Rightarrow> (a, p)
      | None \<Rightarrow>
          let a = gp_next_slot p in
          (a, p\<lparr>gp_conns := (gp_conns p)(key \<mapsto> a), gp_slots := (gp_slots p)(a := empty_slot),
                gp_next_slot := a + 1\<rparr>))"

datatype lock_result = Reused nat | MustConnect nat

text \<open>
  The stretch from the acquisition of the lock: a cached connection is touched and handed out and
  the lock released; otherwise an id is taken and the lock stays held while connecting.
\<close>

definition lock_slot :: "grpc_pool \<Rightarrow> nat \<Rightarrow> nat \<Rightarrow> lock_result \<times> grpc_pool" where
  "lock_slot p a now =
     (case sl_conn (gp_slots p a) of
        Some conn \<Rightarrow> (Reused (pc_id conn), set_conn p a (Some (conn\<lparr>pc_last_used := now\<rparr>)))
      | None \<Rightarrow>
          let conn_id = gp_next_conn_id p in
          (MustConnect conn_id,
           (set_slot p a ((gp_slots p a)\<lparr>sl_locked := True\<rparr>))\<lparr>gp_next_conn_id := (conn_id + 1) mod 2 ^ 64\<rparr>))"

definition finish_connect :: "grpc_pool \<Rightarrow> nat \<Rightarrow> nat \<Rightarrow> nat \<Rightarrow> grpc_pool" where
  "finish_connect p a conn_id now =
     set_slot p a \<lparr>sl_conn = Some \<lparr>pc_id = conn_id, pc_last_used = now\<rparr>, sl_locked = False\<rparr>"

definition abort_connect :: "grpc_pool \<Rightarrow> nat \<Rightarrow> grpc_pool" where
  "abort_connect p a = set_slot p a ((gp_slots p a)\<lparr>sl_locked := False\<rparr>)"

text \<open>The phases of \<^verbatim>\<open>connect_h2\<close>; an expired timeout is the error \<open>Timeout\<close>.\<close>

record connector =
  cn_tcp_connect :: "string \<Rightarrow> unit result"
  cn_set_nodelay :: "string \<Rightarrow> unit result"
  cn_server_name :: "string \<Rightarrow> bool"
  cn_tls :: "string \<Rightarrow> string \<Rightarrow> unit result"
  cn_h2_handshake :: "string \<Rightarrow> string \<Rightarrow> unit result"

definition connect_h2 :: "connector \<Rightarrow> string \<Rightarrow> string \<Rightarrow> nat \<Rightarrow> nat result" where
  "connect_h2 cn addr tls_sni conn_id =
     bind_result (cn_tcp_connect cn addr) (\<lambda>_.
     bind_result (cn_set_nodelay cn addr) (\<lambda>_.
     if \<not> cn_server_name cn tls_sni then Inl (Foreign ''invalid TLS SNI'')
     else
       bind_result (cn_tls cn addr tls_sni) (\<lambda>_.
       bind_result (cn_h2_handshake cn addr tls_sni) (\<lambda>_. Inr conn_id))))"

text \<open>\<^verbatim>\<open>get_or_create\<close> run without interruption on a free slot.\<close>

definition get_or_create :: "connector \<Rightarrow> grpc_pool \<Rightarrow> string \<Rightarrow> string \<Rightarrow> nat \<Rightarrow> nat result \<times> grpc_pool" where
  "get_or_create cn p addr tls_sni now =
     (let e = slot_entry p (pool_key addr tls_sni);
          l = lock_slot (snd e) (fst e) now
      in case fst l of
           Reused c \<Rightarrow> (Inr c, snd l)
         | MustConnect conn_id \<Rightarrow>
             (case connect_h2 cn addr tls_sni conn_id of
                Inl err \<Rightarrow> (Inl err, abort_connect (snd l) (fst e))
              | Inr c \<Rightarrow> (Inr c, finish_connect (snd l) (fst e) conn_id now)))"

subsection \<open>Definitions: eviction and pruning\<close>

definition evict :: "grpc_pool \<Rightarrow> string \<Rightarrow> string \<Rightarrow> grpc_pool" where
  "evict p addr tls_sni =
     (case gp_conns p (pool_key addr tls_sni) of
        None \<Rightarrow> p
      | Some a \<Rightarrow> if sl_locked (gp_slots p a) then p else set_conn p a None)"

definition active_keys :: "(string \<times> string) set \<Rightarrow> string set" where
  "active_keys active = (\<lambda>(addr, tls_sni). pool_key addr tls_sni) ` active"

definition is_stale :: "grpc_pool \<Rightarrow> (string \<times> string) set \<Rightarrow> string \<times> nat \<Rightarrow> bool" where
  "is_stale p active e \<longleftrightarrow> fst e \<notin> active_keys active \<and> gp_conns p (fst e) = Some (snd e)"

definition remove_key :: "grpc_pool \<Rightarrow> string \<Rightarrow> bool \<times> grpc_pool" where
  "remove_key p key = (gp_conns p key \<noteq> None, p\<lparr>gp_conns := (gp_conns p)(key := None)\<rparr>)"

text \<open>The loop over the snapshot \<open>stale\<close>, without interruption on free slots.\<close>

fun prune_stale :: "grpc_pool \<Rightarrow> (string \<times> nat) list \<Rightarrow> grpc_pool" where
  "prune_stale p [] = p"
| "prune_stale p (e # stale) =
     (let r = remove_key p (fst e) in
      prune_stale (if fst r then set_conn (snd r) (snd e) None else snd r) stale)"

definition prune_idle_slot :: "nat \<Rightarrow> nat \<Rightarrow> grpc_pool \<Rightarrow> nat \<Rightarrow> grpc_pool" where
  "prune_idle_slot now max_idle p a =
     (case sl_conn (gp_slots p a) of
        Some conn \<Rightarrow> if now - pc_last_used conn \<ge> max_idle then set_conn p a None else p
      | None \<Rightarrow> p)"

definition prune_idle_older_than :: "nat \<Rightarrow> nat \<Rightarrow> grpc_pool \<Rightarrow> nat list \<Rightarrow> grpc_pool" where
  "prune_idle_older_than now max_idle p slots = foldl (prune_idle_slot now max_idle) p slots"

definition prune_idle :: "nat \<Rightarrow> grpc_pool \<Rightarrow> nat list \<Rightarrow> grpc_pool" where
  "prune_idle now p slots =
     (case gp_idle_timeout p of None \<Rightarrow> p | Some idle \<Rightarrow> prune_idle_older_than now idle p slots)"

text \<open>The end of the task that drives a connection.\<close>

definition conn_closed :: "grpc_pool \<Rightarrow> nat \<Rightarrow> nat \<Rightarrow> grpc_pool" where
  "conn_closed p a conn_id =
     (case sl_conn (gp_slots p a) of
        Some conn \<Rightarrow> if pc_id conn = conn_id then set_conn p a None else p
      | None \<Rightarrow> p)"

definition count_cached_conns :: "grpc_pool \<Rightarrow> nat list \<Rightarrow> nat" where
  "count_cached_conns p slots = length (filter (\<lambda>a. sl_conn (gp_slots p a) \<noteq> None) slots)"

subsection \<open>Definitions: interleaving\<close>

text \<open>
  Where a task is: waiting for the lock of the slot it got for a key; connecting, with the lock
  held; pruning, with the snapshot still to work through; waiting to clear a slot it removed; or
  scanning slots for idle connections.
\<close>

datatype task =
    Waiting string nat
  | Connecting string nat nat
  | Pruning "(string \<times> nat) list"
  | Clearing nat "(string \<times> nat) list"
  | Scanning nat "nat list"

record system =
  sys_pool :: grpc_pool
  sys_tasks :: "nat \<rightharpoonup> task"
  sys_live :: "(nat \<times> nat) set" \<comment> \<open>connection id and slot of every connection task\<close>
  sys_opened :: nat \<comment> \<open>how many ids were taken, for the proofs only\<close>

definition system_init :: "nat option \<Rightarrow> system" where
  "system_init idle = \<lparr>sys_pool = grpc_pool_new idle, sys_tasks = Map.empty, sys_live = {}, sys_opened = 0\<rparr>"

abbreviation upd_task :: "system \<Rightarrow> nat \<Rightarrow> task option \<Rightarrow> grpc_pool \<Rightarrow> system" where
  "upd_task s t x p \<equiv> s\<lparr>sys_pool := p, sys_tasks := (sys_tasks s)(t := x)\<rparr>"

inductive pool_step :: "system \<Rightarrow> system \<Rightarrow> bool" where
  start: "sys_tasks s t = None \<Longrightarrow> slot_entry (sys_pool s) key = (a, p) \<Longrightarrow>
    pool_step s (upd_task s t (Some (Waiting key a)) p)"
| reuse: "sys_tasks s t = Some (Waiting key a) \<Longrightarrow> \<not> sl_locked (gp_slots (sys_pool s) a) \<Longrightarrow>
    lock_slot (sys_pool s) a now = (Reused c, p) \<Longrightarrow> pool_step s (upd_task s t None p)"
| lock: "sys_tasks s t = Some (Waiting key a) \<Longrightarrow> \<not> sl_locked (gp_slots (sys_pool s) a) \<Longrightarrow>
    lock_slot (sys_pool s) a now = (MustConnect c, p) \<Longrightarrow>
    pool_step s ((upd_task s t (Some (Connecting key a c)) p)\<lparr>sys_opened := Suc (sys_opened s)\<rparr>)"
| connected: "sys_tasks s t = Some (Connecting key a c) \<Longrightarrow>
    pool_step s ((upd_task s t None (finish_connect (sys_pool s) a c now))\<lparr>sys_live := insert (c, a) (sys_live s)\<rparr>)"
| failed: "sys_tasks s t = Some (Connecting key a c) \<Longrightarrow>
    pool_step s (upd_task s t None (abort_connect (sys_pool s) a))"
| dropped: "sys_tasks s t = Some (Waiting key a) \<Longrightarrow> pool_step s (upd_task s t None (sys_pool s))"
| evict: "pool_step s (s\<lparr>sys_pool := evict (sys_pool s) addr tls_sni\<rparr>)"
| prune_start: "sys_tasks s t = None \<Longrightarrow> list_all (is_stale (sys_pool s) active) stale \<Longrightarrow>
    pool_step s (upd_task s t (Some (Pruning stale)) (sys_pool s))"
| prune_done: "sys_tasks s t = Some (Pruning []) \<Longrightarrow> pool_step s (upd_task s t None (sys_pool s))"
| prune_gone: "sys_tasks s t = Some (Pruning (e # stale)) \<Longrightarrow> remove_key (sys_pool s) (fst e) = (False, p) \<Longrightarrow>
    pool_step s (upd_task s t (Some (Pruning stale)) p)"
| prune_remove: "sys_tasks s t = Some (Pruning (e # stale)) \<Longrightarrow> remove_key (sys_pool s) (fst e) = (True, p) \<Longrightarrow>
    pool_step s (upd_task s t (Some (Clearing (snd e) stale)) p)"
| prune_clear: "sys_tasks s t = Some (Clearing a stale) \<Longrightarrow> \<not> sl_locked (gp_slots (sys_pool s) a) \<Longrightarrow>
    pool_step s (upd_task s t (Some (Pruning stale)) (set_conn (sys_pool s) a None))"
| scan_start: "sys_tasks s t = None \<Longrightarrow> set slots \<subseteq> ran (gp_conns (sys_pool s)) \<Longrightarrow>
    pool_step s (upd_task s t (Some (Scanning now slots)) (sys_pool s))"
| scan_slot: "sys_tasks s t = Some (Scanning now (a # slots)) \<Longrightarrow> \<not> sl_locked (gp_slots (sys_pool s) a) \<Longrightarrow>
    pool_step s (upd_task s t (Some (Scanning now slots)) (prune_idle_slot now idle (sys_pool s) a))"
| scan_done: "sys_tasks s t = Some (Scanning now []) \<Longrightarrow> pool_step s (upd_task s t None (sys_pool s))"
| closed: "(c, a) \<in> sys_live s \<Longrightarrow> \<not> sl_locked (gp_slots (sys_pool s) a) \<Longrightarrow>
    pool_step s (s\<lparr>sys_pool := conn_closed (sys_pool s) a c, sys_live := sys_live s - {(c, a)}\<rparr>)"

inductive reachable :: "nat option \<Rightarrow> system \<Rightarrow> bool" for idle where
  init: "reachable idle (system_init idle)"
| step: "reachable idle s \<Longrightarrow> pool_step s s' \<Longrightarrow> reachable idle s'"

inductive_cases pool_stepE: "pool_step s s'"

subsection \<open>What the stretches change\<close>

lemma set_slot_sel [simp]:
  "gp_conns (set_slot p a s) = gp_conns p"
  "gp_slots (set_slot p a s) = (gp_slots p)(a := s)"
  "gp_next_slot (set_slot p a s) = gp_next_slot p"
  "gp_next_conn_id (set_slot p a s) = gp_next_conn_id p"
  "gp_idle_timeout (set_slot p a s) = gp_idle_timeout p"
  by (simp_all add: set_slot_def)

lemma set_conn_sel [simp]:
  "gp_conns (set_conn p a c) = gp_conns p"
  "gp_slots (set_conn p a c) = (gp_slots p)(a := (gp_slots p a)\<lparr>sl_conn := c\<rparr>)"
  "gp_next_slot (set_conn p a c) = gp_next_slot p"
  "gp_next_conn_id (set_conn p a c) = gp_next_conn_id p"
  by (simp_all add: set_conn_def)

lemma lock_slot_Reused:
  "lock_slot p a now = (Reused c, p') \<longleftrightarrow>
     (\<exists>conn. sl_conn (gp_slots p a) = Some conn \<and> c = pc_id conn \<and> p' = set_conn p a (Some (conn\<lparr>pc_last_used := now\<rparr>)))"
  by (auto simp: lock_slot_def Let_def split: option.splits)

lemma lock_slot_MustConnect:
  "lock_slot p a now = (MustConnect c, p') \<longleftrightarrow>
     sl_conn (gp_slots p a) = None \<and> c = gp_next_conn_id p
     \<and> p' = (set_slot p a ((gp_slots p a)\<lparr>sl_locked := True\<rparr>))\<lparr>gp_next_conn_id := (c + 1) mod 2 ^ 64\<rparr>"
  by (auto simp: lock_slot_def Let_def split: option.splits)

text \<open>
  A step that is no handshake either leaves the slots alone, or allocates a fresh one, or drops a
  cached connection: the locks stay as they are and no connection appears.
\<close>

definition conns_shrink :: "grpc_pool \<Rightarrow> grpc_pool \<Rightarrow> bool" where
  "conns_shrink p p' \<longleftrightarrow> gp_next_conn_id p' = gp_next_conn_id p
     \<and> (\<forall>a. sl_locked (gp_slots p' a) = sl_locked (gp_slots p a))
     \<and> (\<forall>a conn. sl_conn (gp_slots p' a) = Some conn \<longrightarrow>
          (\<exists>old. sl_conn (gp_slots p a) = Some old \<and> pc_id old = pc_id conn))"

lemma conns_shrink_refl [simp]: "conns_shrink p p"
  by (simp add: conns_shrink_def)

lemma conns_shrink_clear [simp]: "conns_shrink p (set_conn p a None)"
  by (simp add: conns_shrink_def)

lemma conns_shrink_touch: "sl_conn (gp_slots p a) = Some conn \<Longrightarrow>
    conns_shrink p (set_conn p a (Some (conn\<lparr>pc_last_used := now\<rparr>)))"
  by (simp add: conns_shrink_def)

lemma conns_shrink_evict: "conns_shrink p (evict p addr sni)"
  by (simp add: evict_def split: option.splits)

lemma conns_shrink_idle: "conns_shrink p (prune_idle_slot now idle p a)"
  by (simp add: prune_idle_slot_def split: option.splits)

lemma conns_shrink_closed: "conns_shrink p (conn_closed p a c)"
  by (simp add: conn_closed_def split: option.splits)

lemma conns_shrink_remove: "remove_key p key = (b, p') \<Longrightarrow> conns_shrink p p'"
  by (auto simp: remove_key_def conns_shrink_def)

lemma conns_shrink_entry:
  "slot_entry p key = (a, p') \<Longrightarrow> gp_slots p (gp_next_slot p) = empty_slot \<Longrightarrow> conns_shrink p p'"
  by (auto simp: slot_entry_def Let_def conns_shrink_def split: option.splits if_splits)

lemmas conns_shrink_rules = conns_shrink_refl conns_shrink_clear conns_shrink_evict conns_shrink_idle
  conns_shrink_closed conns_shrink_remove conns_shrink_entry

subsection \<open>Locks and handshakes\<close>

definition connecting :: "system \<Rightarrow> nat \<Rightarrow> nat \<Rightarrow> nat \<Rightarrow> bool" where
  "connecting s t a c \<longleftrightarrow> (\<exists>key. sys_tasks s t = Some (Connecting key a c))"

fun task_slot :: "task option \<Rightarrow> nat option" where
  "task_slot (Some (Waiting key a)) = Some a"
| "task_slot (Some (Connecting key a c)) = Some a"
| "task_slot _ = None"

text \<open>Unallocated addresses hold empty slots, and everybody refers to allocated ones.\<close>

definition alloc_inv :: "system \<Rightarrow> bool" where
  "alloc_inv s \<longleftrightarrow>
     (\<forall>a \<ge> gp_next_slot (sys_pool s). gp_slots (sys_pool s) a = empty_slot)
     \<and> (\<forall>key a. gp_conns (sys_pool s) key = Some a \<longrightarrow> a < gp_next_slot (sys_pool s))
     \<and> (\<forall>key key' a. gp_conns (sys_pool s) key = Some a \<longrightarrow> gp_conns (sys_pool s) key' = Some a \<longrightarrow> key = key')
     \<and> (\<forall>t a. task_slot (sys_tasks s t) = Some a \<longrightarrow> a < gp_next_slot (sys_pool s))"

text \<open>A slot is locked exactly while one task connects on it, and holds no connection then.\<close>

definition holders :: "system \<Rightarrow> nat \<Rightarrow> nat set" where
  "holders s a = {t. \<exists>c. connecting s t a c}"

definition lock_inv :: "system \<Rightarrow> bool" where
  "lock_inv s \<longleftrightarrow>
     (\<forall>a. if sl_locked (gp_slots (sys_pool s) a)
          then sl_conn (gp_slots (sys_pool s) a) = None \<and> (\<exists>t. holders s a = {t})
          else holders s a = {})"

text \<open>A cached connection has a task that drives it.\<close>

definition cached_live :: "system \<Rightarrow> bool" where
  "cached_live s \<longleftrightarrow>
     (\<forall>a conn. sl_conn (gp_slots (sys_pool s) a) = Some conn \<longrightarrow> (pc_id conn, a) \<in> sys_live s)"

text \<open>Connection ids are handed out once, until the counter wraps.\<close>

definition unwrapped :: "system \<Rightarrow> bool" where
  "unwrapped s \<longleftrightarrow> sys_opened s < 2 ^ 64 - 1"

definition ids_unique :: "system \<Rightarrow> bool" where
  "ids_unique s \<longleftrightarrow> gp_next_conn_id (sys_pool s) = Suc (sys_opened s)
     \<and> (\<forall>c a. (c, a) \<in> sys_live s \<longrightarrow> c < gp_next_conn_id (sys_pool s))
     \<and> (\<forall>c a a'. (c, a) \<in> sys_live s \<longrightarrow> (c, a') \<in> sys_live s \<longrightarrow> a = a')
     \<and> (\<forall>t a c. connecting s t a c \<longrightarrow> c < gp_next_conn_id (sys_pool s) \<and> (\<forall>a'. (c, a') \<notin> sys_live s))
     \<and> (\<forall>t t' a a' c. connecting s t a c \<longrightarrow> connecting s t' a' c \<longrightarrow> t = t')"

definition id_inv :: "system \<Rightarrow> bool" where
  "id_inv s \<longleftrightarrow> (unwrapped s \<longrightarrow> ids_unique s)"

lemmas id_defs = id_inv_def ids_unique_def unwrapped_def

definition pool_inv :: "system \<Rightarrow> bool" where
  "pool_inv s \<longleftrightarrow> alloc_inv s \<and> lock_inv s \<and> cached_live s \<and> id_inv s"

lemma init_inv: "pool_inv (system_init idle)"
  by (simp add: pool_inv_def alloc_inv_def lock_inv_def holders_def cached_live_def id_defs system_init_def
      grpc_pool_new_def empty_slot_def connecting_def)

lemma connecting_upd [simp]:
  "connecting (upd_task s t x p) t' a c \<longleftrightarrow>
     (if t' = t then (\<exists>key. x = Some (Connecting key a c)) else connecting s t' a c)"
  "connecting (s\<lparr>sys_tasks := (sys_tasks s)(t := x)\<rparr>) t' a c \<longleftrightarrow>
     (if t' = t then (\<exists>key. x = Some (Connecting key a c)) else connecting s t' a c)"
  "connecting (s\<lparr>sys_pool := p\<rparr>) t' a c \<longleftrightarrow> connecting s t' a c"
  "connecting (s\<lparr>sys_live := l\<rparr>) t' a c \<longleftrightarrow> connecting s t' a c"
  "connecting (s\<lparr>sys_pool := p, sys_live := l\<rparr>) t' a c \<longleftrightarrow> connecting s t' a c"
  "connecting (s\<lparr>sys_opened := n\<rparr>) t' a c \<longleftrightarrow> connecting s t' a c"
  by (auto simp: connecting_def)

lemma lock_inv_locked:
  "lock_inv s \<Longrightarrow> sl_locked (gp_slots (sys_pool s) a) \<Longrightarrow>
     sl_conn (gp_slots (sys_pool s) a) = None \<and> (\<exists>t. holders s a = {t})"
  unfolding lock_inv_def by meson

lemma lock_inv_free: "lock_inv s \<Longrightarrow> holders s a \<noteq> {} \<Longrightarrow> sl_locked (gp_slots (sys_pool s) a)"
  unfolding lock_inv_def by meson

lemma holders_eq: "lock_inv s \<Longrightarrow> connecting s t a c \<Longrightarrow> holders s a = {t}"
  unfolding lock_inv_def by (metis (mono_tags, lifting) empty_iff holders_def mem_Collect_eq singletonD)

lemma holders_other: "sys_tasks s t = Some (Connecting key a c) \<Longrightarrow> a \<noteq> b \<Longrightarrow> t \<notin> holders s b"
  by (simp add: holders_def connecting_def)

lemma holders_frame [simp]:
  "holders (s\<lparr>sys_live := l\<rparr>) = holders s"
  "holders (s\<lparr>sys_pool := p\<rparr>) = holders s"
  "holders (s\<lparr>sys_pool := p, sys_live := l\<rparr>) = holders s"
  "holders (s\<lparr>sys_opened := n\<rparr>) = holders s"
  by (simp_all add: holders_def fun_eq_iff)

lemma holders_upd:
  "holders (upd_task s t x p) b = (holders s b - {t}) \<union> {t' . t' = t \<and> (\<exists>key c. x = Some (Connecting key b c))}"
  by (auto simp: holders_def)

text \<open>
  Steps that keep the set of connecting tasks: everything but taking the lock and the two ends of a
  handshake.
\<close>

lemma quiet_inv:
  assumes "conns_shrink (sys_pool s) (sys_pool s')" and "sys_live s' = sys_live s"
    and "\<And>t a c. connecting s' t a c \<longleftrightarrow> connecting s t a c" and "sys_opened s' = sys_opened s"
  shows "lock_inv s \<Longrightarrow> lock_inv s'" and "cached_live s \<Longrightarrow> cached_live s'" and "id_inv s \<Longrightarrow> id_inv s'"
proof -
  have lk: "sl_locked (gp_slots (sys_pool s') a) = sl_locked (gp_slots (sys_pool s) a)" for a
    using assms(1) by (simp add: conns_shrink_def)
  have old: "\<exists>old. sl_conn (gp_slots (sys_pool s) a) = Some old \<and> pc_id old = pc_id conn"
    if "sl_conn (gp_slots (sys_pool s') a) = Some conn" for a conn
    using assms(1) that unfolding conns_shrink_def by blast
  have nx: "gp_next_conn_id (sys_pool s') = gp_next_conn_id (sys_pool s)"
    using assms(1) by (simp add: conns_shrink_def)
  have none: "sl_conn (gp_slots (sys_pool s) a) = None \<Longrightarrow> sl_conn (gp_slots (sys_pool s') a) = None" for a
    using old [of a] by (cases "sl_conn (gp_slots (sys_pool s') a)") auto
  show "lock_inv s \<Longrightarrow> lock_inv s'" unfolding lock_inv_def holders_def lk assms(3) using none by meson
  show "cached_live s \<Longrightarrow> cached_live s'" unfolding cached_live_def assms(2) by (metis old)
  show "id_inv s \<Longrightarrow> id_inv s'" unfolding id_defs nx assms(2,3,4) by blast
qed

lemma alloc_frame:
  assumes "alloc_inv s" and "gp_next_slot (sys_pool s') = gp_next_slot (sys_pool s)"
    and "\<And>key a. gp_conns (sys_pool s') key = Some a \<Longrightarrow> gp_conns (sys_pool s) key = Some a"
    and "\<And>a. gp_next_slot (sys_pool s) \<le> a \<Longrightarrow> gp_slots (sys_pool s') a = gp_slots (sys_pool s) a"
    and "\<And>t a. task_slot (sys_tasks s' t) = Some a \<Longrightarrow> a < gp_next_slot (sys_pool s)"
  shows "alloc_inv s'"
  unfolding alloc_inv_def assms(2)
proof (intro conjI allI impI)
  show "gp_next_slot (sys_pool s) \<le> a \<Longrightarrow> gp_slots (sys_pool s') a = empty_slot" for a
    using assms(1,4) by (simp add: alloc_inv_def)
  show "gp_conns (sys_pool s') key = Some a \<Longrightarrow> a < gp_next_slot (sys_pool s)" for key a
    using assms(1,3) unfolding alloc_inv_def by blast
  show "gp_conns (sys_pool s') key = Some a \<Longrightarrow> gp_conns (sys_pool s') key' = Some a \<Longrightarrow> key = key'" for key key' a
    using assms(1,3) unfolding alloc_inv_def by blast
qed (rule assms(5))

lemma unallocated_slot: "alloc_inv s \<Longrightarrow> gp_next_slot (sys_pool s) \<le> a \<Longrightarrow> gp_slots (sys_pool s) a = empty_slot"
  by (simp add: alloc_inv_def)

lemma task_allocated: "alloc_inv s \<Longrightarrow> task_slot (sys_tasks s t) = Some a \<Longrightarrow> a < gp_next_slot (sys_pool s)"
  by (simp add: alloc_inv_def)

lemma clear_unallocated: "gp_slots p a = empty_slot \<Longrightarrow> (gp_slots (set_conn p b None)) a = gp_slots p a"
  by (auto simp: empty_slot_def)

lemma start_alloc:
  assumes "alloc_inv s" and "slot_entry (sys_pool s) key = (a, p)"
  shows "alloc_inv (upd_task s t (Some (Waiting key a)) p)"
proof (cases "gp_conns (sys_pool s) key")
  case None
  let ?n = "gp_next_slot (sys_pool s)"
  have p: "a = ?n" "gp_conns p = (gp_conns (sys_pool s))(key \<mapsto> ?n)"
      "gp_slots p = (gp_slots (sys_pool s))(?n := empty_slot)" "gp_next_slot p = ?n + 1"
    using None assms(2) by (auto simp: slot_entry_def Let_def)
  have old: "gp_conns (sys_pool s) k = Some b \<Longrightarrow> b < ?n" for k b using assms(1) by (simp add: alloc_inv_def)
  then have ne: "gp_conns (sys_pool s) k \<noteq> Some ?n" for k by blast
  have inj: "gp_conns (sys_pool s) k = Some b \<Longrightarrow> gp_conns (sys_pool s) k' = Some b \<Longrightarrow> k = k'" for k k' b
    using assms(1) unfolding alloc_inv_def by blast
  show ?thesis unfolding alloc_inv_def
    using p(1) old ne inj unallocated_slot [OF assms(1)] task_allocated [OF assms(1)]
    by (auto simp: p(2-4) less_Suc_eq)
next
  case (Some b)
  with assms(2) have p: "a = b" "p = sys_pool s" by (auto simp: slot_entry_def)
  have "b < gp_next_slot (sys_pool s)" using assms(1) Some by (simp add: alloc_inv_def)
  then show ?thesis using p task_allocated [OF assms(1)]
    by (intro alloc_frame [OF assms(1)]) (auto split: if_splits)
qed

lemma alloc_inv_step:
  assumes "pool_step s s'" and inv: "alloc_inv s"
  shows "alloc_inv s'"
  using assms(1)
proof cases
  case (start t key a p)
  then show ?thesis using start_alloc [OF inv] by simp
next
  case (reuse t key a now c p)
  have "a < gp_next_slot (sys_pool s)" using reuse task_allocated [OF inv, of t a] by simp
  with reuse show ?thesis
    by (intro alloc_frame [OF inv]) (auto simp: lock_slot_Reused task_allocated [OF inv] split: if_splits)
next
  case (lock t key a now c p)
  have "a < gp_next_slot (sys_pool s)" using lock task_allocated [OF inv, of t a] by simp
  with lock show ?thesis
    by (intro alloc_frame [OF inv]) (auto simp: lock_slot_MustConnect task_allocated [OF inv] split: if_splits)
next
  case (connected t key a c now)
  have "a < gp_next_slot (sys_pool s)" using connected task_allocated [OF inv, of t a] by simp
  with connected show ?thesis
    by (intro alloc_frame [OF inv]) (auto simp: finish_connect_def task_allocated [OF inv] split: if_splits)
next
  case (failed t key a c)
  have "a < gp_next_slot (sys_pool s)" using failed task_allocated [OF inv, of t a] by simp
  with failed show ?thesis
    by (intro alloc_frame [OF inv]) (auto simp: abort_connect_def task_allocated [OF inv] split: if_splits)
qed (intro alloc_frame [OF inv];
     auto simp: evict_def remove_key_def prune_idle_slot_def conn_closed_def task_allocated [OF inv]
       unallocated_slot [OF inv] clear_unallocated empty_slot_def split: if_splits option.splits)+

lemma lock_taken_inv:
  assumes "pool_inv s" and "sys_tasks s t = Some (Waiting key a)" and "\<not> sl_locked (gp_slots (sys_pool s) a)"
    and "lock_slot (sys_pool s) a now = (MustConnect c, p)"
  defines "s' \<equiv> (upd_task s t (Some (Connecting key a c)) p)\<lparr>sys_opened := Suc (sys_opened s)\<rparr>"
  shows "lock_inv s' \<and> cached_live s' \<and> id_inv s'"
proof -
  have p: "sl_conn (gp_slots (sys_pool s) a) = None" "c = gp_next_conn_id (sys_pool s)"
      "gp_slots p = (gp_slots (sys_pool s))(a := (gp_slots (sys_pool s) a)\<lparr>sl_locked := True\<rparr>)"
      "gp_next_conn_id p = (c + 1) mod 2 ^ 64"
    using assms(4) by (auto simp: lock_slot_MustConnect)
  have own: "\<not> connecting s t b c'" for b c' using assms(2) by (simp add: connecting_def)
  then have no: "t \<notin> holders s b" for b by (simp add: holders_def)
  have free: "holders s a = {}" using assms(1,3) by (auto simp: pool_inv_def lock_inv_def)
  have "holders s' b = (if b = a then {t} else holders s b)" for b
    using free no unfolding s'_def by (auto simp: holders_upd)
  then have "lock_inv s'" using assms(1) p(1) by (simp add: s'_def pool_inv_def lock_inv_def p(3))
  moreover have "cached_live s'"
    using assms(1) p(1) by (auto simp: s'_def pool_inv_def cached_live_def p(3))
  moreover have "ids_unique s'" if "unwrapped s'"
  proof -
    have lt: "Suc (sys_opened s) < 2 ^ 64 - 1" using that by (simp add: s'_def unwrapped_def)
    then have ids: "ids_unique s" using assms(1) by (simp add: pool_inv_def id_inv_def unwrapped_def)
    then have "c = Suc (sys_opened s)" using p(2) by (simp add: ids_unique_def)
    with lt have nx: "gp_next_conn_id p = Suc c" by (simp add: p(4))
    have old: "(c', b) \<in> sys_live s \<Longrightarrow> c' < c" "connecting s t' b c' \<Longrightarrow> c' < c \<and> (\<forall>b'. (c', b') \<notin> sys_live s)" for c' t' b
      using ids unfolding ids_unique_def p(2) by blast+
    have uniq: "(c', b) \<in> sys_live s \<Longrightarrow> (c', b') \<in> sys_live s \<Longrightarrow> b = b'"
        "connecting s t1 b c' \<Longrightarrow> connecting s t2 b' c' \<Longrightarrow> t1 = t2" for c' b b' t1 t2
      using ids unfolding ids_unique_def by blast+
    have fresh: "\<not> connecting s t' b c" "(c, b) \<notin> sys_live s" for t' b using old by blast+
    have s': "sys_live s' = sys_live s" "gp_next_conn_id (sys_pool s') = Suc c"
        "connecting s' t' b c' \<longleftrightarrow> (if t' = t then b = a \<and> c' = c else connecting s t' b c')" for t' b c'
      by (auto simp: s'_def nx)
    have "Suc c = Suc (sys_opened s')" using \<open>c = Suc (sys_opened s)\<close> by (simp add: s'_def)
    then show ?thesis unfolding ids_unique_def s'
      using fresh by (intro conjI) (auto dest: old uniq intro: less_SucI split: if_splits)
  qed
  ultimately show ?thesis by (simp add: id_inv_def)
qed

lemma connected_inv:
  fixes now :: nat
  assumes "pool_inv s" and "sys_tasks s t = Some (Connecting key a c)"
  defines "s' \<equiv> (upd_task s t None (finish_connect (sys_pool s) a c now))\<lparr>sys_live := insert (c, a) (sys_live s)\<rparr>"
  shows "lock_inv s' \<and> cached_live s' \<and> id_inv s'"
proof -
  have cn: "connecting s t a c" using assms(2) by (simp add: connecting_def)
  have "holders s a = {t}" using holders_eq [OF _ cn] assms(1) by (simp add: pool_inv_def)
  then have h: "holders s' b = (if b = a then {} else holders s b)" for b
    using holders_other [OF assms(2), of b] unfolding s'_def by (auto simp: holders_upd)
  have "lock_inv s'"
    using assms(1) unfolding lock_inv_def h by (simp add: s'_def pool_inv_def lock_inv_def finish_connect_def)
  moreover have "cached_live s'"
    using assms(1) by (auto simp: s'_def pool_inv_def cached_live_def finish_connect_def)
  moreover have "ids_unique s'" if "unwrapped s'"
  proof -
    have ids: "ids_unique s" using assms(1) that by (simp add: s'_def pool_inv_def id_inv_def unwrapped_def)
    then have fresh: "(c, b) \<notin> sys_live s" and lt: "c < gp_next_conn_id (sys_pool s)" for b
      using cn by (auto simp: ids_unique_def)
    have uniq: "connecting s t' b c \<Longrightarrow> t' = t" for t' b using ids cn unfolding ids_unique_def by blast
    show ?thesis using ids fresh lt uniq unfolding s'_def ids_unique_def by (auto simp: finish_connect_def)
  qed
  ultimately show ?thesis by (simp add: id_inv_def)
qed

lemma failed_inv:
  assumes "pool_inv s" and "sys_tasks s t = Some (Connecting key a c)"
  defines "s' \<equiv> upd_task s t None (abort_connect (sys_pool s) a)"
  shows "lock_inv s' \<and> cached_live s' \<and> id_inv s'"
proof -
  have cn: "connecting s t a c" using assms(2) by (simp add: connecting_def)
  have "holders s a = {t}" using holders_eq [OF _ cn] assms(1) by (simp add: pool_inv_def)
  then have h: "holders s' b = (if b = a then {} else holders s b)" for b
    using holders_other [OF assms(2), of b] unfolding s'_def by (auto simp: holders_upd)
  have "lock_inv s'"
    using assms(1) unfolding lock_inv_def h by (simp add: s'_def pool_inv_def lock_inv_def abort_connect_def)
  moreover have "cached_live s'"
    using assms(1) by (auto simp: s'_def pool_inv_def cached_live_def abort_connect_def)
  moreover have "id_inv s'"
    using assms(1) unfolding s'_def pool_inv_def id_defs by (auto simp: abort_connect_def)
  ultimately show ?thesis by simp
qed

lemma closed_inv:
  assumes "pool_inv s" and "(c, a) \<in> sys_live s"
  defines "s' \<equiv> s\<lparr>sys_pool := conn_closed (sys_pool s) a c, sys_live := sys_live s - {(c, a)}\<rparr>"
  shows "lock_inv s' \<and> cached_live s' \<and> id_inv s'"
proof -
  let ?s1 = "s\<lparr>sys_pool := conn_closed (sys_pool s) a c\<rparr>"
  have q: "lock_inv ?s1" "cached_live ?s1" "id_inv ?s1"
    using assms(1) quiet_inv [of s ?s1] conns_shrink_closed by (simp_all add: pool_inv_def)
  have gone: "sl_conn (gp_slots (conn_closed (sys_pool s) a c) a) = Some conn \<Longrightarrow> pc_id conn \<noteq> c" for conn
    by (auto simp: conn_closed_def split: option.splits if_splits)
  have "lock_inv s'" using q(1) by (simp add: s'_def lock_inv_def cong: if_cong)
  moreover have "cached_live s'" using q(2) gone by (auto simp: s'_def cached_live_def)
  moreover have "id_inv s'" using q(3) unfolding s'_def id_defs by auto
  ultimately show ?thesis by simp
qed

lemma pool_inv_step: "pool_step s s' \<Longrightarrow> pool_inv s \<Longrightarrow> pool_inv s'"
proof -
  assume st: "pool_step s s'" and inv: "pool_inv s"
  have al: "alloc_inv s'" using alloc_inv_step [OF st] inv by (simp add: pool_inv_def)
  have quiet: "pool_inv s'"
    if "conns_shrink (sys_pool s) (sys_pool s')" "sys_live s' = sys_live s"
      "\<And>t a c. connecting s' t a c \<longleftrightarrow> connecting s t a c" "sys_opened s' = sys_opened s"
    using quiet_inv [OF that] inv al by (simp add: pool_inv_def)
  from st show "pool_inv s'"
  proof cases
    case (start t key a p)
    have "gp_slots (sys_pool s) (gp_next_slot (sys_pool s)) = empty_slot"
      using inv by (simp add: pool_inv_def alloc_inv_def)
    with start conns_shrink_entry show ?thesis by (intro quiet) (auto simp: connecting_def)
  next
    case (reuse t key a now c p)
    then show ?thesis by (intro quiet) (auto simp: lock_slot_Reused conns_shrink_touch connecting_def)
  next
    case (lock t key a now c p)
    then show ?thesis using lock_taken_inv [OF inv] al by (simp add: pool_inv_def)
  next
    case (connected t key a c now)
    then show ?thesis using connected_inv [OF inv] al by (simp add: pool_inv_def)
  next
    case (failed t key a c)
    then show ?thesis using failed_inv [OF inv] al by (simp add: pool_inv_def)
  next
    case (closed c a)
    then show ?thesis using closed_inv [OF inv] al by (simp add: pool_inv_def)
  qed (rule quiet; auto simp: connecting_def intro: conns_shrink_rules)+
qed

lemma reachable_inv: "reachable idle s \<Longrightarrow> pool_inv s"
  by (induction rule: reachable.induct) (auto intro: init_inv pool_inv_step)

subsection \<open>Properties of every reachable state\<close>

text \<open>
  C15 (single_handshake). However requests, evictions, pruning and connection ends interleave, two
  tasks never establish a connection on the same slot at the same time; while a task does, the
  slot holds no connection and is locked. Bursts of requests to one endpoint share one handshake. As
  long as the counter of ids has not wrapped, ids are unique: no two handshakes, no two running
  connections and no two cached connections have the same one, nor a handshake and a running connection.
\<close>

theorem single_handshake:
  assumes "reachable idle s"
  shows "(\<forall>t t' key key' a c c'. sys_tasks s t = Some (Connecting key a c) \<and> sys_tasks s t' = Some (Connecting key' a c')
      \<longrightarrow> t = t' \<and> sl_locked (gp_slots (sys_pool s) a) \<and> sl_conn (gp_slots (sys_pool s) a) = None)
    \<and> (sys_opened s < 2 ^ 64 - 1 \<longrightarrow>
        (\<forall>t t' key key' a a' c. sys_tasks s t = Some (Connecting key a c) \<and> sys_tasks s t' = Some (Connecting key' a' c) \<longrightarrow> t = t')
      \<and> (\<forall>t key a a' c. sys_tasks s t = Some (Connecting key a c) \<longrightarrow> (c, a') \<notin> sys_live s)
      \<and> (\<forall>a a' c. (c, a) \<in> sys_live s \<and> (c, a') \<in> sys_live s \<longrightarrow> a = a')
      \<and> (\<forall>a a' conn conn'. sl_conn (gp_slots (sys_pool s) a) = Some conn \<and> sl_conn (gp_slots (sys_pool s) a') = Some conn'
           \<and> pc_id conn = pc_id conn' \<longrightarrow> a = a'))"
proof -
  have l: "lock_inv s" and live: "cached_live s" and "id_inv s" using reachable_inv [OF assms(1)] by (simp_all add: pool_inv_def)
  have cn: "connecting s t a c" if "sys_tasks s t = Some (Connecting key a c)" for t key a c
    using that by (auto simp: connecting_def)
  have one: "t = t' \<and> sl_locked (gp_slots (sys_pool s) a) \<and> sl_conn (gp_slots (sys_pool s) a) = None"
    if "connecting s t a c" "connecting s t' a c'" for t t' a c c'
  proof -
    have h: "holders s a = {t}" "holders s a = {t'}" using holders_eq [OF l] that by blast+
    then have k: "sl_locked (gp_slots (sys_pool s) a)" by (intro lock_inv_free [OF l]) simp
    with h lock_inv_locked [OF l k] show ?thesis by simp
  qed
  show ?thesis
  proof (intro conjI impI allI)
    show "t = t'" if "sys_tasks s t = Some (Connecting key a c) \<and> sys_tasks s t' = Some (Connecting key' a c')" for t t' key key' a c c'
      using that one cn by blast
    show "sl_locked (gp_slots (sys_pool s) a)" "sl_conn (gp_slots (sys_pool s) a) = None"
      if "sys_tasks s t = Some (Connecting key a c) \<and> sys_tasks s t' = Some (Connecting key' a c')" for t t' key key' a c c'
      using that one cn by blast+
    assume "sys_opened s < 2 ^ 64 - 1"
    then have ids: "ids_unique s" using \<open>id_inv s\<close> by (simp add: id_inv_def unwrapped_def)
    show "t = t'" if "sys_tasks s t = Some (Connecting key a c) \<and> sys_tasks s t' = Some (Connecting key' a' c)" for t t' key key' a a' c
      using ids that cn unfolding ids_unique_def by blast
    show "(c, a') \<notin> sys_live s" if "sys_tasks s t = Some (Connecting key a c)" for t key a a' c
      using ids cn [OF that] unfolding ids_unique_def by blast
    show live1: "a = a'" if "(c, a) \<in> sys_live s \<and> (c, a') \<in> sys_live s" for a a' c
      using ids that unfolding ids_unique_def by blast
    show "a = a'" if "sl_conn (gp_slots (sys_pool s) a) = Some conn \<and> sl_conn (gp_slots (sys_pool s) a') = Some conn'
        \<and> pc_id conn = pc_id conn'" for a a' conn conn'
      using live1 [of "pc_id conn" a a'] live that unfolding cached_live_def by metis
  qed
qed

lemma reach_start:
  "reachable None (upd_task (system_init None) 0 (Some (Waiting ''k'' 0)) (snd (slot_entry (grpc_pool_new None) ''k'')))"
  by (rule reachable.step [OF reachable.init], rule pool_step.start)
    (simp_all add: system_init_def grpc_pool_new_def slot_entry_def)

definition handshake_state :: system where
  "handshake_state =
     (let s = upd_task (system_init None) 0 (Some (Waiting ''k'' 0)) (snd (slot_entry (grpc_pool_new None) ''k''))
      in (upd_task s 0 (Some (Connecting ''k'' 0 1)) (snd (lock_slot (sys_pool s) 0 5)))\<lparr>sys_opened := 1\<rparr>)"

theorem single_handshake_witness:
  "reachable None handshake_state \<and> sys_tasks handshake_state 0 = Some (Connecting ''k'' 0 1)
   \<and> sl_locked (gp_slots (sys_pool handshake_state) 0) \<and> (1, 0) \<notin> sys_live handshake_state"
proof -
  let ?s = "upd_task (system_init None) 0 (Some (Waiting ''k'' 0)) (snd (slot_entry (grpc_pool_new None) ''k''))"
  have "pool_step ?s ((upd_task ?s 0 (Some (Connecting ''k'' 0 1)) (snd (lock_slot (sys_pool ?s) 0 5)))
      \<lparr>sys_opened := Suc (sys_opened ?s)\<rparr>)"
    by (rule pool_step.lock [where now = 5 and key = "''k''"])
      (simp_all add: system_init_def grpc_pool_new_def slot_entry_def lock_slot_def empty_slot_def)
  moreover have "sys_opened ?s = 0" by (simp add: system_init_def)
  ultimately have r: "reachable None handshake_state"
    unfolding handshake_state_def Let_def using reachable.step [OF reach_start] by simp
  have t: "sys_tasks handshake_state 0 = Some (Connecting ''k'' 0 1)"
    by (simp add: handshake_state_def Let_def)
  have "sys_opened handshake_state < 2 ^ 64 - 1" by (simp add: handshake_state_def Let_def)
  with single_handshake [OF r, THEN conjunct2] t have "(1, 0) \<notin> sys_live handshake_state" by blast
  moreover have "sl_locked (gp_slots (sys_pool handshake_state) 0)"
    using single_handshake [OF r, THEN conjunct1] t by blast
  ultimately show ?thesis using r t by blast
qed

text \<open>
  A task that waits for a slot is never stuck: either the lock is free and
  the task can go on, or there is exactly one task that holds the lock, and that task can give it
  back whatever the outcome of its handshake.
\<close>

theorem waiters_not_stuck:
  assumes "reachable idle s" and "sys_tasks s t = Some (Waiting key a)"
  shows "if sl_locked (gp_slots (sys_pool s) a)
    then \<exists>!t'. \<exists>key' c. sys_tasks s t' = Some (Connecting key' a c)
           \<and> (\<exists>s'. pool_step s s' \<and> sys_tasks s' t' = None \<and> \<not> sl_locked (gp_slots (sys_pool s') a))
    else \<exists>s'. pool_step s s' \<and> sys_tasks s' t \<noteq> Some (Waiting key a)"
proof (cases "sl_locked (gp_slots (sys_pool s) a)")
  case True
  have l: "lock_inv s" using reachable_inv [OF assms(1)] by (simp add: pool_inv_def)
  then obtain t' where h: "holders s a = {t'}" using lock_inv_locked [OF l True] by blast
  then have "t' \<in> holders s a" by simp
  then obtain key' c where t': "sys_tasks s t' = Some (Connecting key' a c)"
    by (auto simp: holders_def connecting_def)
  have "pool_step s (upd_task s t' None (abort_connect (sys_pool s) a))" by (rule pool_step.failed [OF t'])
  then have rel: "\<exists>s'. pool_step s s' \<and> sys_tasks s' t' = None \<and> \<not> sl_locked (gp_slots (sys_pool s') a)"
    by (intro exI [of _ "upd_task s t' None (abort_connect (sys_pool s) a)"]) (simp add: abort_connect_def)
  have uniq: "t'' = t'" if "sys_tasks s t'' = Some (Connecting k a c')" for t'' k c'
  proof -
    have "t'' \<in> holders s a" using that by (auto simp: holders_def connecting_def)
    with h show ?thesis by simp
  qed
  have "\<exists>!t'. \<exists>key' c. sys_tasks s t' = Some (Connecting key' a c)
      \<and> (\<exists>s'. pool_step s s' \<and> sys_tasks s' t' = None \<and> \<not> sl_locked (gp_slots (sys_pool s') a))"
    by (rule ex1I [of _ t']) (use t' rel uniq in blast)+
  with True show ?thesis by (simp only: if_True)
next
  case False
  obtain r p where r: "lock_slot (sys_pool s) a 0 = (r, p)" by fastforce
  have "\<exists>s'. pool_step s s' \<and> sys_tasks s' t \<noteq> Some (Waiting key a)"
  proof (cases r)
    case (Reused c)
    then show ?thesis using pool_step.reuse [OF assms(2) False, of 0 c p] r
      by (intro exI [of _ "upd_task s t None p"]) simp
  next
    case (MustConnect c)
    then show ?thesis using pool_step.lock [OF assms(2) False, of 0 c p] r
      by (intro exI [of _ "(upd_task s t (Some (Connecting key a c)) p)\<lparr>sys_opened := Suc (sys_opened s)\<rparr>"]) simp
  qed
  with False show ?thesis by simp
qed

theorem waiters_not_stuck_witness:
  "\<exists>s s'. reachable None s \<and> sys_tasks s 0 = Some (Waiting ''k'' 0) \<and> pool_step s s'
     \<and> sys_tasks s' 0 \<noteq> Some (Waiting ''k'' 0)"
proof -
  let ?s = "upd_task (system_init None) 0 (Some (Waiting ''k'' 0)) (snd (slot_entry (grpc_pool_new None) ''k''))"
  have t: "sys_tasks ?s 0 = Some (Waiting ''k'' 0)" by simp
  have "\<not> sl_locked (gp_slots (sys_pool ?s) 0)"
    by (simp add: slot_entry_def grpc_pool_new_def empty_slot_def)
  with waiters_not_stuck [OF reach_start t] reach_start t show ?thesis by auto
qed

subsection \<open>A race between a request and pruning\<close>

text \<open>
  C28 (pruned_endpoint_can_leak). A request that got its slot before its endpoint was pruned, and
  takes the lock after, connects on a slot that is no longer in the pool: with all tasks
  finished, a connection is cached in a slot no key leads to, which no later eviction or pruning
  can find.
\<close>

theorem pruned_endpoint_can_leak:
  "\<exists>s a conn. reachable None s \<and> sys_tasks s = Map.empty \<and> a \<notin> ran (gp_conns (sys_pool s))
     \<and> \<not> sl_locked (gp_slots (sys_pool s) a) \<and> sl_conn (gp_slots (sys_pool s) a) = Some conn"
proof -
  let ?s1 = "upd_task (system_init None) 0 (Some (Waiting ''k'' 0)) (snd (slot_entry (grpc_pool_new None) ''k''))"
  let ?s2 = "upd_task ?s1 1 (Some (Pruning [(''k'', 0)])) (sys_pool ?s1)"
  let ?p3 = "snd (remove_key (sys_pool ?s2) ''k'')"
  let ?s3 = "upd_task ?s2 1 (Some (Clearing 0 [])) ?p3"
  let ?s4 = "upd_task ?s3 1 (Some (Pruning [])) (set_conn (sys_pool ?s3) 0 None)"
  let ?s5 = "upd_task ?s4 1 None (sys_pool ?s4)"
  let ?p6 = "snd (lock_slot (sys_pool ?s5) 0 0)"
  let ?s6 = "(upd_task ?s5 0 (Some (Connecting ''k'' 0 1)) ?p6)\<lparr>sys_opened := Suc (sys_opened ?s5)\<rparr>"
  let ?s7 = "(upd_task ?s6 0 None (finish_connect (sys_pool ?s6) 0 1 0))\<lparr>sys_live := insert (1, 0) (sys_live ?s6)\<rparr>"
  note defs = system_init_def grpc_pool_new_def slot_entry_def remove_key_def lock_slot_def empty_slot_def Let_def
  have r2: "reachable None ?s2"
    by (rule reachable.step [OF reach_start], rule pool_step.prune_start [where active = "{}"])
      (simp_all add: defs is_stale_def active_keys_def)
  have r3: "reachable None ?s3"
    by (rule reachable.step [OF r2], rule pool_step.prune_remove [where e = "(''k'', 0)", simplified]) (simp_all add: defs)
  have r4: "reachable None ?s4"
    by (rule reachable.step [OF r3], rule pool_step.prune_clear) (simp_all add: defs)
  have r5: "reachable None ?s5"
    by (rule reachable.step [OF r4], rule pool_step.prune_done) simp
  have r6: "reachable None ?s6"
    by (rule reachable.step [OF r5], rule pool_step.lock [where now = 0 and key = "''k''"]) (simp_all add: defs)
  have r7: "reachable None ?s7"
    by (rule reachable.step [OF r6], rule pool_step.connected [where key = "''k''"]) simp
  show ?thesis
    by (rule exI [of _ ?s7], rule exI [of _ 0], rule exI [of _ "\<lparr>pc_id = 1, pc_last_used = 0\<rparr>"], intro conjI r7)
      (simp_all add: finish_connect_def defs fun_eq_iff)
qed

subsection \<open>The operations without interruption\<close>

lemma pool_key_inject:
  assumes "CHR '':'' \<notin> set sni" and "CHR '':'' \<notin> set sni'" and "pool_key addr sni = pool_key addr' sni'"
  shows "addr = addr' \<and> sni = sni'"
proof -
  have "split_once (pool_key addr sni) CHR '':'' = Some (sni, addr)"
    and "split_once (pool_key addr' sni') CHR '':'' = Some (sni', addr')"
    using split_once_append [OF assms(1)] split_once_append [OF assms(2)] by (simp_all add: pool_key_def)
  with assms(3) show ?thesis by (metis option.inject prod.inject)
qed

lemma slot_entry_conns: "gp_conns (snd (slot_entry p key)) key = Some (fst (slot_entry p key))"
  by (simp add: slot_entry_def Let_def split: option.splits)

lemma slot_entry_known: "gp_conns p key = Some a \<Longrightarrow> slot_entry p key = (a, p)"
  by (simp add: slot_entry_def)

text \<open>
  Once a request to an endpoint has succeeded, the next request gets the same connection without
  any handshake, even from a connector that would fail; after the endpoint was evicted, the next
  request goes through a handshake again, under a new id.
\<close>

lemma get_or_create_cached:
  assumes "get_or_create cn p addr sni now = (Inr c, p1)"
  obtains a conn where "gp_conns p1 (pool_key addr sni) = Some a" "sl_conn (gp_slots p1 a) = Some conn" "pc_id conn = c"
proof -
  let ?k = "pool_key addr sni"
  obtain a p0 where e: "slot_entry p ?k = (a, p0)" by fastforce
  have k0: "gp_conns p0 ?k = Some a" using slot_entry_conns [of p ?k] e by simp
  show thesis
  proof (cases "sl_conn (gp_slots p0 a)")
    case None
    then have "connect_h2 cn addr sni (gp_next_conn_id p0) = Inr c"
        "p1 = finish_connect (snd (lock_slot p0 a now)) a (gp_next_conn_id p0) now"
      using assms by (auto simp: get_or_create_def e lock_slot_def Let_def split: sum.splits)
    moreover from this(1) have "c = gp_next_conn_id p0" by (auto simp: connect_h2_def split: if_splits)
    ultimately show thesis using that k0 None by (simp add: finish_connect_def lock_slot_def Let_def)
  next
    case (Some conn)
    then have "c = pc_id conn" "p1 = set_conn p0 a (Some (conn\<lparr>pc_last_used := now\<rparr>))"
      using assms by (auto simp: get_or_create_def e lock_slot_def Let_def)
    then show thesis using that k0 by simp
  qed
qed

lemma get_or_create_reuses:
  assumes "get_or_create cn p addr sni now = (Inr c, p1)"
  shows "fst (get_or_create cn' p1 addr sni now') = Inr c"
proof -
  obtain a conn where "gp_conns p1 (pool_key addr sni) = Some a" "sl_conn (gp_slots p1 a) = Some conn" "pc_id conn = c"
    using get_or_create_cached [OF assms] .
  then show ?thesis by (simp add: get_or_create_def slot_entry_known lock_slot_def Let_def)
qed

lemma get_or_create_after_evict:
  assumes "gp_conns p1 (pool_key addr sni) = Some a" and "\<not> sl_locked (gp_slots p1 a)"
  shows "fst (get_or_create cn (evict p1 addr sni) addr sni now) = connect_h2 cn addr sni (gp_next_conn_id p1)"
proof -
  have e: "evict p1 addr sni = set_conn p1 a None" using assms by (simp add: evict_def)
  have "slot_entry (set_conn p1 a None) (pool_key addr sni) = (a, set_conn p1 a None)"
    using assms(1) by (simp add: slot_entry_known)
  then show ?thesis unfolding e get_or_create_def by (simp add: lock_slot_def Let_def split: sum.split)
qed

lemma connect_h2_id: "connect_h2 cn addr sni i = Inr c \<Longrightarrow> c = i"
  by (auto simp: connect_h2_def split: if_splits)

text \<open>
  The contract between the pool and the code that opens tunnels, for one endpoint: a connection
  that was handed out is handed out again, and after an eviction on a free slot the next request
  makes a new one.
\<close>

locale endpoint_pool =
  fixes get :: "'p \<Rightarrow> nat \<Rightarrow> nat result \<times> 'p" and drop_conn :: "'p \<Rightarrow> 'p"
    and connect :: "'p \<Rightarrow> nat result" and slot_free :: "'p \<Rightarrow> bool"
  assumes reuse: "get p now = (Inr c, p1) \<Longrightarrow> fst (get p1 now') = Inr c"
    and renew: "slot_free p \<Longrightarrow> fst (get (drop_conn p) now) = connect p"
begin

lemma replaced:
  assumes "slot_free p" and "connect p = Inr c"
  obtains p' where "get (drop_conn p) now = (Inr c, p')" "\<And>t. fst (get p' t) = Inr c"
proof -
  obtain p' where "get (drop_conn p) now = (Inr c, p')"
    using renew [OF assms(1), of now] assms(2) by (cases "get (drop_conn p) now") simp
  with that reuse show thesis by blast
qed

end

definition endpoint_free :: "string \<Rightarrow> string \<Rightarrow> grpc_pool \<Rightarrow> bool" where
  "endpoint_free addr sni p \<longleftrightarrow>
     (case gp_conns p (pool_key addr sni) of Some a \<Rightarrow> \<not> sl_locked (gp_slots p a) | None \<Rightarrow> False)"

interpretation endpoint: endpoint_pool "\<lambda>p now. get_or_create cn p addr sni now" "\<lambda>p. evict p addr sni"
    "\<lambda>p. connect_h2 cn addr sni (gp_next_conn_id p)" "endpoint_free addr sni" for cn addr sni
proof
  fix p now c p1 now'
  assume "get_or_create cn p addr sni now = (Inr c, p1)"
  then show "fst (get_or_create cn p1 addr sni now') = Inr c" by (rule get_or_create_reuses)
next
  fix p now
  assume "endpoint_free addr sni p"
  then show "fst (get_or_create cn (evict p addr sni) addr sni now) = connect_h2 cn addr sni (gp_next_conn_id p)"
    by (auto simp: endpoint_free_def split: option.splits intro: get_or_create_after_evict)
qed

definition good_connector :: connector where
  "good_connector = \<lparr>cn_tcp_connect = (\<lambda>_. Inr ()), cn_set_nodelay = (\<lambda>_. Inr ()), cn_server_name = (\<lambda>_. True),
     cn_tls = (\<lambda>_ _. Inr ()), cn_h2_handshake = (\<lambda>_ _. Inr ())\<rparr>"

lemma good_connector_fresh:
  "connect_h2 good_connector h sni i = Inr i"
  "fst (get_or_create good_connector (grpc_pool_new None) h sni now) = Inr 1"
  by (simp_all add: get_or_create_def slot_entry_def grpc_pool_new_def lock_slot_def empty_slot_def Let_def
      connect_h2_def good_connector_def)

lemma prune_stale_outcome:
  assumes "distinct (map fst stale)" and "\<forall>e \<in> set stale. gp_conns p (fst e) = Some (snd e)"
  shows "gp_conns (prune_stale p stale) = (gp_conns p) |` (- fst ` set stale)
    \<and> (\<forall>a. gp_slots (prune_stale p stale) a
         = (if a \<in> snd ` set stale then (gp_slots p a)\<lparr>sl_conn := None\<rparr> else gp_slots p a))"
  using assms
proof (induction stale arbitrary: p)
  case Nil
  then show ?case by (simp add: restrict_map_def fun_eq_iff)
next
  case (Cons e stale)
  let ?q = "set_conn (snd (remove_key p (fst e))) (snd e) None"
  have step: "prune_stale p (e # stale) = prune_stale ?q stale"
    using Cons.prems(2) by (simp add: remove_key_def)
  have k: "fst x \<noteq> fst e" if "x \<in> set stale" for x
    using that Cons.prems(1) by (metis distinct.simps(2) image_eqI list.simps(9) set_map)
  have "gp_conns (prune_stale ?q stale) = gp_conns ?q |` (- fst ` set stale)
    \<and> (\<forall>a. gp_slots (prune_stale ?q stale) a
         = (if a \<in> snd ` set stale then (gp_slots ?q a)\<lparr>sl_conn := None\<rparr> else gp_slots ?q a))"
    using Cons.prems k by (intro Cons.IH) (auto simp: remove_key_def)
  then show ?case unfolding step by (auto simp: remove_key_def restrict_map_def fun_eq_iff)
qed

text \<open>
  Pruning to the active endpoints, given a snapshot of all stale
  entries, leaves exactly the entries of active endpoints in the pool, clears the slot of every
  entry it removes, and does not touch any other slot.
\<close>

lemma prune_to_endpoints_exact:
  assumes "distinct (map fst stale)" and "\<And>e. e \<in> set stale \<longleftrightarrow> is_stale p active e"
  shows "gp_conns (prune_stale p stale) = (gp_conns p) |` active_keys active
    \<and> (\<forall>a. gp_slots (prune_stale p stale) a = (if \<exists>key. is_stale p active (key, a)
         then (gp_slots p a)\<lparr>sl_conn := None\<rparr> else gp_slots p a))"
proof -
  have all: "\<forall>e \<in> set stale. gp_conns p (fst e) = Some (snd e)" using assms(2) by (auto simp: is_stale_def)
  have slots: "a \<in> snd ` set stale \<longleftrightarrow> (\<exists>key. is_stale p active (key, a))" for a
    using assms(2) by (force simp: image_iff)
  have "(gp_conns p |` (- fst ` set stale)) key = (gp_conns p |` active_keys active) key" for key
  proof (cases "gp_conns p key")
    case (Some a)
    then have "key \<in> fst ` set stale \<longleftrightarrow> key \<notin> active_keys active"
      using assms(2) by (force simp: is_stale_def image_iff)
    with Some show ?thesis by (simp add: restrict_map_def)
  qed (simp add: restrict_map_def)
  then show ?thesis using prune_stale_outcome [OF assms(1) all] slots by (auto simp: fun_eq_iff)
qed

end
