(* ===== verification/Vmess_Auth.thy ===== *)
theory Vmess_Auth
  imports Rust_Str
begin

text \<open>
  \<^verbatim>\<open>src/vmess/auth.rs\<close>: the key-derivation function, the UUID parser and the verifier of VMess
  AEAD authentication identifiers. SHA-256, MD5, AES-128 and CRC-32 come from crates; they are the
  fields of the parameter \<open>crypto\<close>. A streaming SHA-256 state is the bytes it has absorbed, and the
  trait object \<^verbatim>\<open>Box<dyn VmessHash>\<close> is the datatype of its two implementations, so that
  \<^verbatim>\<open>clone_state\<close> is a copy of the value.

  The lemmas show that the chain of recursive hash states computes the nested HMAC of the VMess
  specification, that the hash does not depend on how the input was cut, that UUIDs print and
  parse back, and exactly which blocks the verifier accepts.
\<close>

unbundle bit_operations_syntax

subsection \<open>Definitions: hash states\<close>

record crypto =
  sha256 :: "bytes \<Rightarrow> bytes"
  md5 :: "bytes \<Rightarrow> bytes"
  aes128_decrypt_block :: "bytes \<Rightarrow> bytes \<Rightarrow> bytes" \<comment> \<open>key, block\<close>
  crc32 :: "bytes \<Rightarrow> nat"

datatype vmess_hash =
    Sha256Hash bytes
  | RecursiveHash vmess_hash vmess_hash bytes bytes \<comment> \<open>inner, outer, default inner, default outer\<close>

fun hash_update :: "vmess_hash \<Rightarrow> bytes \<Rightarrow> vmess_hash" where
  "hash_update (Sha256Hash m) data = Sha256Hash (m @ data)"
| "hash_update (RecursiveHash inner outer di do) data = RecursiveHash (hash_update inner data) outer di do"

lemma size_hash_update [simp]: "size (hash_update h d) = size h"
  by (induction h d rule: hash_update.induct) auto

text \<open>\<^verbatim>\<open>finalize\<close> takes \<^verbatim>\<open>&mut self\<close>: it returns the digest and the state it leaves.\<close>

function hash_finalize :: "crypto \<Rightarrow> vmess_hash \<Rightarrow> bytes \<times> vmess_hash" where
  "hash_finalize c (Sha256Hash m) = (sha256 c m, Sha256Hash m)"
| "hash_finalize c (RecursiveHash inner outer di do) =
     (let outer1 = hash_update outer do;
          ri = hash_finalize c inner;
          outer2 = hash_update outer1 (fst ri);
          ro = hash_finalize c outer2
      in (fst ro, RecursiveHash (snd ri) (snd ro) di do))"
  by pat_completeness auto
termination
  by (relation "measure (\<lambda>(c, h). size h)") auto

text \<open>The two loops \<^verbatim>\<open>default[i] ^= b\<close> of \<^verbatim>\<open>RecursiveHash::create\<close>.\<close>

fun xor_key :: "bytes \<Rightarrow> nat \<Rightarrow> bytes \<Rightarrow> bytes" where
  "xor_key pad i [] = pad"
| "xor_key pad i (b # key) = xor_key (pad[i := (pad ! i) XOR b]) (i + 1) key"

definition recursive_hash_create :: "bytes \<Rightarrow> vmess_hash \<Rightarrow> vmess_hash result" where
  "recursive_hash_create key hash =
     (if length key \<le> 64 then
        let default_outer = xor_key (replicate 64 0x5c) 0 key;
            default_inner = xor_key (replicate 64 0x36) 0 key;
            inner = hash_update hash default_inner
        in Inr (RecursiveHash inner hash default_inner default_outer)
      else Inl (Panic ''KDF key must be <= 64 bytes''))"

fun kdf_chain :: "bytes list \<Rightarrow> vmess_hash \<Rightarrow> vmess_hash result" where
  "kdf_chain [] current = Inr current"
| "kdf_chain (p # path) current = bind_result (recursive_hash_create p current) (kdf_chain path)"

definition kdf :: "crypto \<Rightarrow> bytes \<Rightarrow> bytes list \<Rightarrow> bytes result" where
  "kdf c key path =
     bind_result (recursive_hash_create (as_bytes ''VMess AEAD KDF'') (Sha256Hash [])) (\<lambda>current.
     bind_result (kdf_chain path current) (\<lambda>current.
     Inr (fst (hash_finalize c (hash_update current key)))))"

subsection \<open>Definitions: UUIDs and verifiers\<close>

text \<open>
  The hexadecimal digits are ASCII, and no byte of a multi-byte UTF-8 sequence is, so filtering the
  characters is filtering the bytes.
\<close>

fun hex_bytes :: "string \<Rightarrow> bytes" where
  "hex_bytes (a # b # r) =
     (case (digit_value a, digit_value b) of
        (Some x, Some y) \<Rightarrow> word_of_nat (16 * x + y) # hex_bytes r
      | _ \<Rightarrow> [])"
| "hex_bytes _ = []"

definition parse_uuid :: "string \<Rightarrow> bytes result" where
  "parse_uuid uuid =
     (let hex = filter (\<lambda>c. digit_value c \<noteq> None) uuid in
      if length hex \<noteq> 32 then Inl (InvalidUuid (length hex)) else Inr (hex_bytes hex))"

definition instruction_key :: "crypto \<Rightarrow> bytes \<Rightarrow> bytes" where
  "instruction_key c uuid_bytes = md5 c (uuid_bytes @ as_bytes ''c48619fe-8f02-49e0-b9e9-edf763e17e21'')"

record auth_verifier =
  ecb_key :: bytes \<comment> \<open>the key the AES cipher was set up with\<close>

definition from_uuid :: "crypto \<Rightarrow> string \<Rightarrow> auth_verifier result" where
  "from_uuid c uuid =
     bind_result (parse_uuid uuid) (\<lambda>uuid_bytes.
       let ikey = instruction_key c uuid_bytes in
       bind_result (kdf c ikey [as_bytes ''AES Auth ID Encryption'']) (\<lambda>derived.
       Inr \<lparr>ecb_key = take 16 derived\<rparr>))"

definition abs_diff :: "nat \<Rightarrow> nat \<Rightarrow> nat" where
  "abs_diff a b = (if a < b then b - a else a - b)"

definition verify :: "crypto \<Rightarrow> nat \<Rightarrow> auth_verifier \<Rightarrow> bytes \<Rightarrow> bool" where
  "verify c now v auth_id =
     (let decrypted = aes128_decrypt_block c (ecb_key v) auth_id;
          checksum = crc32 c (take 12 decrypted);
          expected = nat_of_be (take 4 (drop 12 decrypted))
      in if checksum \<noteq> expected then False
         else let timestamp = nat_of_be (take 8 decrypted) in abs_diff now timestamp \<le> 120)"

subsection \<open>The hash trait\<close>

text \<open>
  What the KDF relies on of a \<^verbatim>\<open>VmessHash\<close>: absorbing two pieces is absorbing their
  concatenation.
\<close>

locale streaming_hash =
  fixes upd :: "'h \<Rightarrow> bytes \<Rightarrow> 'h" and digest :: "'h \<Rightarrow> bytes"
  assumes upd_upd: "upd (upd h a) b = upd h (a @ b)"
    and upd_Nil: "upd h [] = h"
begin

lemma foldl_upd: "foldl upd h pieces = upd h (concat pieces)"
  by (induction pieces arbitrary: h) (simp_all add: upd_upd upd_Nil)

lemma digest_pieces: "concat ps = concat qs \<Longrightarrow> digest (foldl upd h ps) = digest (foldl upd h qs)"
  by (simp add: foldl_upd)

end

lemma hash_update_update [simp]: "hash_update (hash_update h a) b = hash_update h (a @ b)"
  by (induction h a rule: hash_update.induct) auto

lemma hash_update_Nil [simp]: "hash_update h [] = h"
  by (induction h) auto

interpretation vh: streaming_hash hash_update "\<lambda>h. fst (hash_finalize c h)" for c
  by unfold_locales simp_all

subsection \<open>The recursive hash is HMAC\<close>

text \<open>The hash function a state stands for: what it gives once the rest of the input is absorbed.\<close>

definition hash_fun :: "crypto \<Rightarrow> vmess_hash \<Rightarrow> bytes \<Rightarrow> bytes" where
  "hash_fun c h m = fst (hash_finalize c (hash_update h m))"

definition pad64 :: "u8 \<Rightarrow> bytes \<Rightarrow> bytes" where
  "pad64 x key = map (\<lambda>b. x XOR b) key @ replicate (64 - length key) x"

definition hmac :: "(bytes \<Rightarrow> bytes) \<Rightarrow> bytes \<Rightarrow> bytes \<Rightarrow> bytes" where
  "hmac H key m = H (pad64 0x5c key @ H (pad64 0x36 key @ m))"

definition kdf_spec :: "(bytes \<Rightarrow> bytes) \<Rightarrow> bytes list \<Rightarrow> bytes \<Rightarrow> bytes" where
  "kdf_spec H path = foldl hmac H (as_bytes ''VMess AEAD KDF'' # path)"

lemma xor_key_append:
  "length key \<le> n \<Longrightarrow> xor_key (pre @ replicate n x) (length pre) key
     = pre @ map (\<lambda>b. x XOR b) key @ replicate (n - length key) x"
proof (induction key arbitrary: pre n)
  case Nil
  then show ?case by simp
next
  case (Cons b key)
  then obtain n' where n: "n = Suc n'" by (cases n) auto
  have "xor_key ((pre @ [x XOR b]) @ replicate n' x) (length (pre @ [x XOR b])) key
      = (pre @ [x XOR b]) @ map (\<lambda>b. x XOR b) key @ replicate (n' - length key) x"
    using Cons n by (intro Cons.IH) simp
  then show ?case by (simp add: n nth_append list_update_append)
qed

lemma xor_key_pad64: "length key \<le> 64 \<Longrightarrow> xor_key (replicate 64 x) 0 key = pad64 x key"
  using xor_key_append [of key 64 "[]" x] by (simp add: pad64_def)

lemma hash_fun_Sha256 [simp]: "hash_fun c (Sha256Hash []) = sha256 c"
  by (simp add: hash_fun_def fun_eq_iff)

lemma hash_fun_create:
  assumes "recursive_hash_create key h = Inr r"
  shows "hash_fun c r = hmac (hash_fun c h) key"
  using assms
  by (auto simp: recursive_hash_create_def Let_def xor_key_pad64 hash_fun_def hmac_def fun_eq_iff
      split: if_splits)

lemma recursive_hash_create_ok: "is_ok (recursive_hash_create key h) \<longleftrightarrow> length key \<le> 64"
  by (simp add: recursive_hash_create_def Let_def)

lemma kdf_chain_fun:
  "\<forall>p \<in> set path. length p \<le> 64 \<Longrightarrow>
     \<exists>r. kdf_chain path h = Inr r \<and> hash_fun c r = foldl hmac (hash_fun c h) path"
proof (induction path arbitrary: h)
  case Nil
  then show ?case by simp
next
  case (Cons p path)
  then obtain r where r: "recursive_hash_create p h = Inr r"
    using recursive_hash_create_ok [of p h] by (auto simp: is_ok_iff)
  with Cons.IH [of r] Cons.prems hash_fun_create [OF r, of c] show ?case by simp
qed

lemma kdf_chain_panics: "\<exists>p \<in> set path. 64 < length p \<Longrightarrow>
  kdf_chain path h = Inl (Panic ''KDF key must be <= 64 bytes'')"
proof (induction path arbitrary: h)
  case (Cons p path)
  then show ?case by (cases "length p \<le> 64") (auto simp: recursive_hash_create_def Let_def)
qed simp

lemma kdf_eq:
  assumes "\<forall>p \<in> set path. length p \<le> 64"
  shows "kdf c key path = Inr (kdf_spec (sha256 c) path key)"
proof -
  obtain r where r: "recursive_hash_create (as_bytes ''VMess AEAD KDF'') (Sha256Hash []) = Inr r"
    by (simp add: recursive_hash_create_def Let_def)
  obtain r' where r': "kdf_chain path r = Inr r'" "hash_fun c r' = foldl hmac (hash_fun c r) path"
    using kdf_chain_fun [OF assms] by blast
  have "fst (hash_finalize c (hash_update r' key)) = hash_fun c r' key" by (simp add: hash_fun_def)
  with r r' hash_fun_create [OF r, of c] show ?thesis by (simp add: kdf_def kdf_spec_def)
qed

text \<open>
  C21 (kdf_is_nested_hmac). The KDF panics when an element of the path is longer than an HMAC
  block, and otherwise returns the nested HMAC of the VMess specification: SHA-256 keyed with
  the fixed label gives a hash function, which is keyed with the first element of the path, and
  so on; the last hash function is applied to the key.
\<close>

theorem kdf_is_nested_hmac:
  "if list_all (\<lambda>p. length p \<le> 64) path then kdf c key path = Inr (kdf_spec (sha256 c) path key)
   else \<exists>s. kdf c key path = Inl (Panic s)"
proof (cases "list_all (\<lambda>p. length p \<le> 64) path")
  case True
  then show ?thesis by (simp add: kdf_eq list_all_iff)
next
  case False
  then have "\<exists>p \<in> set path. 64 < length p" by (auto simp: list_all_iff not_le)
  with False show ?thesis by (simp add: kdf_def recursive_hash_create_def Let_def kdf_chain_panics)
qed

subsection \<open>UUIDs\<close>

text \<open>The canonical text of a UUID, with lower-case or upper-case digits.\<close>

definition hex_char :: "bool \<Rightarrow> nat \<Rightarrow> char" where
  "hex_char upper d = char_of (if d < 10 then 48 + d else if upper then 55 + d else 87 + d)"

definition hex_byte :: "bool \<Rightarrow> u8 \<Rightarrow> string" where
  "hex_byte upper b = [hex_char upper (unat b div 16), hex_char upper (unat b mod 16)]"

definition hex_string :: "bool \<Rightarrow> bytes \<Rightarrow> string" where
  "hex_string upper bs = concat (map (hex_byte upper) bs)"

definition uuid_string :: "bool \<Rightarrow> bytes \<Rightarrow> string" where
  "uuid_string upper bs =
     hex_string upper (take 4 bs) @ ''-'' @ hex_string upper (take 2 (drop 4 bs)) @ ''-''
     @ hex_string upper (take 2 (drop 6 bs)) @ ''-'' @ hex_string upper (take 2 (drop 8 bs)) @ ''-''
     @ hex_string upper (drop 10 bs)"

lemma digit_value_hex_char [simp]: "d < 16 \<Longrightarrow> digit_value (hex_char u d) = Some d"
  by (auto simp: digit_value_def hex_char_def Let_def)

lemma digit_value_dash [simp]: "digit_value CHR ''-'' = None"
  by (simp add: digit_value_def)

lemma unat_byte_div_mod [simp]: "unat (b :: u8) div 16 < 16" "16 * (unat b div 16) + unat b mod 16 = unat b"
  using unsigned_less [of b, where ?'a = nat] by (simp_all add: less_mult_imp_div_less)

lemma hex_bytes_hex_string [codec_simps]: "hex_bytes (hex_string u bs) = bs"
proof (induction bs)
  case Nil
  then show ?case by (simp add: hex_string_def)
next
  case (Cons b bs)
  then show ?case by (simp add: hex_string_def hex_byte_def)
qed

lemma filter_hex_string [simp]: "filter (\<lambda>c. \<exists>y. digit_value c = Some y) (hex_string u bs) = hex_string u bs"
  by (induction bs) (auto simp: hex_string_def hex_byte_def)

lemma length_hex_string [simp]: "length (hex_string u bs) = 2 * length bs"
  by (induction bs) (auto simp: hex_string_def hex_byte_def)

lemma hex_string_append: "hex_string u (a @ b) = hex_string u a @ hex_string u b"
  by (simp add: hex_string_def)

lemma filter_uuid_string:
  "filter (\<lambda>c. \<exists>y. digit_value c = Some y) (uuid_string u bs) = hex_string u bs"
proof -
  have "bs = take 4 bs @ take 2 (drop 4 bs) @ take 2 (drop 6 bs) @ take 2 (drop 8 bs) @ drop 10 bs"
    using append_take_drop_id [of 4 bs] append_take_drop_id [of 2 "drop 4 bs"]
      append_take_drop_id [of 2 "drop 6 bs"] append_take_drop_id [of 2 "drop 8 bs"] by simp
  then have "hex_string u bs = hex_string u (take 4 bs) @ hex_string u (take 2 (drop 4 bs))
      @ hex_string u (take 2 (drop 6 bs)) @ hex_string u (take 2 (drop 8 bs)) @ hex_string u (drop 10 bs)"
    by (metis hex_string_append)
  then show ?thesis by (simp add: uuid_string_def)
qed

lemma parse_uuid_string: "length bs = 16 \<Longrightarrow> parse_uuid (uuid_string u bs) = Inr bs"
  by (simp add: parse_uuid_def Let_def filter_uuid_string hex_bytes_hex_string)

lemma hex_bytes_length:
  "list_all (\<lambda>c. digit_value c \<noteq> None) s \<Longrightarrow> even (length s) \<Longrightarrow> 2 * length (hex_bytes s) = length s"
  by (induction s rule: hex_bytes.induct) (auto split: option.splits)

lemma parse_uuid_length: "parse_uuid s = Inr bs \<Longrightarrow> length bs = 16"
  using hex_bytes_length [of "filter (\<lambda>c. digit_value c \<noteq> None) s"]
  by (auto simp: parse_uuid_def Let_def list_all_iff split: if_splits)

text \<open>
  The canonical text of sixteen bytes, in lower-case or upper-case
  digits, parses back to these bytes; whatever text parses, the result has sixteen bytes.
\<close>

theorem parse_uuid_roundtrip:
  assumes "length bs = 16"
  shows "parse_uuid (uuid_string u bs) = Inr bs \<and> parse_uuid (hex_string u bs) = Inr bs
    \<and> (parse_uuid s = Inr bs' \<longrightarrow> length bs' = 16)"
  using assms parse_uuid_string parse_uuid_length
  by (auto simp: parse_uuid_def Let_def hex_bytes_hex_string)

subsection \<open>What the verifier accepts\<close>

lemma abs_diff_le: "abs_diff a b \<le> k \<longleftrightarrow> a \<le> b + k \<and> b \<le> a + k"
  by (auto simp: abs_diff_def)

lemma from_uuid_eq:
  "from_uuid c uuid = map_sum id
     (\<lambda>b. \<lparr>ecb_key = take 16 (kdf_spec (sha256 c) [as_bytes ''AES Auth ID Encryption''] (instruction_key c b))\<rparr>)
     (parse_uuid uuid)"
  by (cases "parse_uuid uuid") (simp_all add: from_uuid_def kdf_eq)

lemma nat_of_be_inverse: "be_of_nat (length bs) (nat_of_be bs) = bs"
proof (induction bs rule: rev_induct)
  case (snoc b bs)
  have "unat b < 256" using unsigned_less [of b, where ?'a = nat] by simp
  then show ?case using snoc by (simp add: nat_of_be_append)
qed simp

text \<open>
  C16 (verify_characterised). A verifier accepts an identifier exactly when the identifier decrypts
  to a big-endian time stamp within 120 seconds of the clock, four arbitrary bytes, and the
  big-endian CRC-32 of these twelve bytes. AES decrypts a block to a block and a CRC-32 fits
  into 32 bits.
\<close>

theorem verify_characterised:
  assumes "length (aes128_decrypt_block c (ecb_key v) auth_id) = 16" and "\<And>m. crc32 c m < 2 ^ 32"
  shows "verify c now v auth_id \<longleftrightarrow>
    (\<exists>timestamp r. timestamp < 2 ^ 64 \<and> length r = 4 \<and> now \<le> timestamp + 120 \<and> timestamp \<le> now + 120
      \<and> aes128_decrypt_block c (ecb_key v) auth_id
          = be_of_nat 8 timestamp @ r @ be_of_nat 4 (crc32 c (be_of_nat 8 timestamp @ r)))"
    (is "_ \<longleftrightarrow> (\<exists>t r. ?P t r)")
proof
  let ?d = "aes128_decrypt_block c (ecb_key v) auth_id"
  assume v: "verify c now v auth_id"
  let ?t = "nat_of_be (take 8 ?d)" and ?r = "take 4 (drop 8 ?d)"
  have t: "be_of_nat 8 ?t = take 8 ?d" using nat_of_be_inverse [of "take 8 ?d"] assms(1) by simp
  have tr: "take 8 ?d @ ?r = take 12 ?d" by (simp flip: take_add)
  have "be_of_nat 4 (crc32 c (take 12 ?d)) = drop 12 ?d"
    using nat_of_be_inverse [of "drop 12 ?d"] assms(1) v by (simp add: verify_def Let_def split: if_splits)
  then have "?d = be_of_nat 8 ?t @ ?r @ be_of_nat 4 (crc32 c (be_of_nat 8 ?t @ ?r))"
    unfolding t tr append_assoc [symmetric] by simp
  moreover have "?t < 2 ^ 64" using nat_of_be_bound [of "take 8 ?d"] assms(1) by simp
  moreover have "now \<le> ?t + 120 \<and> ?t \<le> now + 120"
    using v by (simp add: verify_def Let_def abs_diff_le split: if_splits)
  ultimately have "?P ?t ?r" using assms(1) by simp
  then show "\<exists>t r. ?P t r" by blast
next
  assume "\<exists>t r. ?P t r"
  then obtain t r where p: "?P t r" by blast
  have "nat_of_be (be_of_nat 8 t) = t" using p by (intro nat_of_be_of_nat) simp
  moreover have "nat_of_be (be_of_nat 4 m) = m" if "m < 2 ^ 32" for m
    using that by (intro nat_of_be_of_nat) simp
  ultimately show "verify c now v auth_id"
    using p assms(2) by (simp add: verify_def Let_def abs_diff_le)
qed

text \<open>A concrete instance for witnesses: digests that are fixed, an identity cipher.\<close>

definition toy_crypto :: crypto where
  "toy_crypto = \<lparr>sha256 = (\<lambda>m. replicate 32 7), md5 = (\<lambda>m. replicate 16 9),
     aes128_decrypt_block = (\<lambda>k b. b), crc32 = (\<lambda>m. 5)\<rparr>"

theorem verify_characterised_witness:
  "verify toy_crypto 1000 \<lparr>ecb_key = replicate 16 1\<rparr> (be_of_nat 8 1100 @ [1, 2, 3, 4] @ be_of_nat 4 5)"
proof -
  have "\<exists>timestamp r. timestamp < 2 ^ 64 \<and> length r = 4 \<and> 1000 \<le> timestamp + 120 \<and> timestamp \<le> 1000 + 120
      \<and> aes128_decrypt_block toy_crypto (ecb_key \<lparr>ecb_key = replicate 16 1\<rparr>)
          (be_of_nat 8 1100 @ [1, 2, 3, 4] @ be_of_nat 4 5)
          = be_of_nat 8 timestamp @ r @ be_of_nat 4 (crc32 toy_crypto (be_of_nat 8 timestamp @ r))"
    by (intro exI [of _ 1100] exI [of _ "[1, 2, 3, 4]"]) (simp add: toy_crypto_def)
  then show ?thesis
    by (subst verify_characterised) (simp_all add: toy_crypto_def)
qed

end
