(* ===== verification/Net_Addr.thy ===== *)
theory Net_Addr
  imports Rust_Str
begin

text \<open>
  The address parsers of the standard library that the sources call through
  \<^verbatim>\<open>str::parse::<Ipv4Addr>\<close>, \<^verbatim>\<open>parse::<Ipv6Addr>\<close> and \<^verbatim>\<open>parse::<SocketAddr>\<close>
  (\<^verbatim>\<open>core::net::parser\<close>), as recursive-descent functions on the rest of the input. A parser returns
  the value and the input it left, or \<open>None\<close> with nothing consumed.

  The lemmas show that IPv4 socket addresses print and parse back, and that a text whose first
  character is neither a digit nor an opening bracket, such as one that starts with a domain name,
  is no socket address.
\<close>

subsection \<open>Definitions\<close>

datatype ipv4_addr = Ipv4Addr u8 u8 u8 u8
datatype ipv6_addr = Ipv6Addr "u16 list" \<comment> \<open>eight segments\<close>
datatype socket_addr = SocketV4 ipv4_addr u16 | SocketV6 ipv6_addr u16 u32

definition to_digit :: "nat \<Rightarrow> char \<Rightarrow> nat option" where
  "to_digit radix c = (case digit_value c of None \<Rightarrow> None | Some d \<Rightarrow> if d < radix then Some d else None)"

definition digits_prefix :: "nat \<Rightarrow> string \<Rightarrow> string" where
  "digits_prefix radix s = takeWhile (\<lambda>c. to_digit radix c \<noteq> None) s"

definition digits_number :: "nat \<Rightarrow> string \<Rightarrow> nat" where
  "digits_number radix s = foldl (\<lambda>acc c. acc * radix + (case to_digit radix c of None \<Rightarrow> 0 | Some d \<Rightarrow> d)) 0 s"

definition read_number :: "nat \<Rightarrow> nat option \<Rightarrow> bool \<Rightarrow> nat \<Rightarrow> string \<Rightarrow> (nat \<times> string) option" where
  "read_number radix max_digits allow_zero_prefix max_value s =
     (let ds = digits_prefix radix s; digit_count = length ds; v = digits_number radix ds in
      if (case max_digits of None \<Rightarrow> False | Some m \<Rightarrow> m < digit_count) then None
      else if digit_count = 0 then None
      else if \<not> allow_zero_prefix \<and> hd s = CHR ''0'' \<and> digit_count > 1 then None
      else if v \<le> max_value then Some (v, drop digit_count s)
      else None)"

definition read_given_char :: "char \<Rightarrow> string \<Rightarrow> string option" where
  "read_given_char c s = (case s of [] \<Rightarrow> None | x # r \<Rightarrow> if x = c then Some r else None)"

definition read_separator :: "char \<Rightarrow> nat \<Rightarrow> (string \<Rightarrow> ('a \<times> string) option) \<Rightarrow> string \<Rightarrow> ('a \<times> string) option" where
  "read_separator sep index p s =
     (if index > 0 then (case read_given_char sep s of None \<Rightarrow> None | Some r \<Rightarrow> p r) else p s)"

definition read_octet :: "nat \<Rightarrow> string \<Rightarrow> (nat \<times> string) option" where
  "read_octet i = read_separator CHR ''.'' i (read_number 10 (Some 3) False 255)"

definition read_ipv4_addr :: "string \<Rightarrow> (ipv4_addr \<times> string) option" where
  "read_ipv4_addr s =
     (case read_octet 0 s of None \<Rightarrow> None | Some (a, s1) \<Rightarrow>
      (case read_octet 1 s1 of None \<Rightarrow> None | Some (b, s2) \<Rightarrow>
       (case read_octet 2 s2 of None \<Rightarrow> None | Some (c, s3) \<Rightarrow>
        (case read_octet 3 s3 of None \<Rightarrow> None | Some (d, s4) \<Rightarrow>
           Some (Ipv4Addr (word_of_nat a) (word_of_nat b) (word_of_nat c) (word_of_nat d), s4)))))"

definition be16 :: "u8 \<Rightarrow> u8 \<Rightarrow> u16" where
  "be16 a b = word_of_nat (unat a * 256 + unat b)"

text \<open>
  \<^verbatim>\<open>read_groups\<close> with \<open>left\<close> slots still to fill, \<open>acc\<close> the groups read so far: the groups, whether
  they end in an embedded IPv4 address, and the input left.
\<close>

fun read_groups :: "nat \<Rightarrow> u16 list \<Rightarrow> string \<Rightarrow> u16 list \<times> bool \<times> string" where
  "read_groups 0 acc s = (acc, False, s)"
| "read_groups (Suc left) acc s =
     (case (if left > 0 then read_separator CHR '':'' (length acc) read_ipv4_addr s else None) of
        Some (Ipv4Addr one two three four, r) \<Rightarrow> (acc @ [be16 one two, be16 three four], True, r)
      | None \<Rightarrow>
          (case read_separator CHR '':'' (length acc) (read_number 16 (Some 4) True 65535) s of
             Some (g, r) \<Rightarrow> read_groups left (acc @ [word_of_nat g]) r
           | None \<Rightarrow> (acc, False, s)))"

definition read_ipv6_addr :: "string \<Rightarrow> (ipv6_addr \<times> string) option" where
  "read_ipv6_addr s =
     (case read_groups 8 [] s of (head, head_ipv4, r) \<Rightarrow>
        if length head = 8 then Some (Ipv6Addr head, r)
        else if head_ipv4 then None
        else (case read_given_char CHR '':'' r of None \<Rightarrow> None | Some r1 \<Rightarrow>
              (case read_given_char CHR '':'' r1 of None \<Rightarrow> None | Some r2 \<Rightarrow>
               (case read_groups (8 - (length head + 1)) [] r2 of (tail, _, r3) \<Rightarrow>
                  Some (Ipv6Addr (head @ replicate (8 - length head - length tail) 0 @ tail), r3)))))"

definition read_port :: "string \<Rightarrow> (nat \<times> string) option" where
  "read_port s =
     (case read_given_char CHR '':'' s of None \<Rightarrow> None | Some r \<Rightarrow> read_number 10 None True 65535 r)"

definition read_scope_id :: "string \<Rightarrow> (nat \<times> string) option" where
  "read_scope_id s =
     (case read_given_char CHR ''%'' s of None \<Rightarrow> None | Some r \<Rightarrow> read_number 10 None True (2 ^ 32 - 1) r)"

definition read_socket_addr_v4 :: "string \<Rightarrow> (socket_addr \<times> string) option" where
  "read_socket_addr_v4 s =
     (case read_ipv4_addr s of None \<Rightarrow> None | Some (ip, r) \<Rightarrow>
      (case read_port r of None \<Rightarrow> None | Some (port, r') \<Rightarrow> Some (SocketV4 ip (word_of_nat port), r')))"

definition read_socket_addr_v6 :: "string \<Rightarrow> (socket_addr \<times> string) option" where
  "read_socket_addr_v6 s =
     (case read_given_char CHR ''['' s of None \<Rightarrow> None | Some r \<Rightarrow>
      (case read_ipv6_addr r of None \<Rightarrow> None | Some (ip, r1) \<Rightarrow>
       (case (case read_scope_id r1 of None \<Rightarrow> (0, r1) | Some x \<Rightarrow> x) of (scope, r2) \<Rightarrow>
        (case read_given_char CHR '']'' r2 of None \<Rightarrow> None | Some r3 \<Rightarrow>
         (case read_port r3 of None \<Rightarrow> None | Some (port, r4) \<Rightarrow>
            Some (SocketV6 ip (word_of_nat port) (word_of_nat scope), r4))))))"

definition parse_with :: "(string \<Rightarrow> ('a \<times> string) option) \<Rightarrow> string \<Rightarrow> 'a option" where
  "parse_with p s = (case p s of Some (v, []) \<Rightarrow> Some v | _ \<Rightarrow> None)"

definition parse_ipv4 :: "string \<Rightarrow> ipv4_addr option" where
  "parse_ipv4 s = (if length s > 15 then None else parse_with read_ipv4_addr s)"

definition parse_ipv6 :: "string \<Rightarrow> ipv6_addr option" where
  "parse_ipv6 s = parse_with read_ipv6_addr s"

definition parse_socket_addr :: "string \<Rightarrow> socket_addr option" where
  "parse_socket_addr s =
     parse_with (\<lambda>s. case read_socket_addr_v4 s of Some x \<Rightarrow> Some x | None \<Rightarrow> read_socket_addr_v6 s) s"

fun show_ipv4 :: "ipv4_addr \<Rightarrow> string" where
  "show_ipv4 (Ipv4Addr a b c d) =
     show_nat (unat a) @ ''.'' @ show_nat (unat b) @ ''.'' @ show_nat (unat c) @ ''.'' @ show_nat (unat d)"

subsection \<open>Reading back printed numbers\<close>

lemma to_digit_dec: "to_digit 10 c = dec_digit c"
  by (auto simp: to_digit_def digit_value_def dec_digit_def Let_def)

lemma show_nat_dec: "c \<in> set (show_nat n) \<Longrightarrow> dec_digit c \<noteq> None"
  using show_nat_digits [of c n] by (simp add: dec_digit_def Let_def)

lemma digits_acc_number:
  "digits_acc acc s = Some v \<Longrightarrow>
    v = foldl (\<lambda>acc c. acc * 10 + (case to_digit 10 c of None \<Rightarrow> 0 | Some d \<Rightarrow> d)) acc s"
  by (induction s arbitrary: acc) (auto simp: to_digit_dec split: option.splits)

lemma digits_number_show [simp]: "digits_number 10 (show_nat n) = n"
  using digits_acc_number [OF digits_acc_show] by (simp add: digits_number_def)

definition no_digit :: "string \<Rightarrow> bool" where
  "no_digit s \<longleftrightarrow> (s = [] \<or> dec_digit (hd s) = None)"

lemma digits_prefix_show:
  assumes "no_digit r"
  shows "digits_prefix 10 (show_nat n @ r) = show_nat n"
proof -
  have "takeWhile (\<lambda>c. dec_digit c \<noteq> None) r = []" using assms by (cases r) (auto simp: no_digit_def)
  moreover have "takeWhile (\<lambda>c. dec_digit c \<noteq> None) (show_nat n @ r)
      = show_nat n @ takeWhile (\<lambda>c. dec_digit c \<noteq> None) r"
    by (rule takeWhile_append2) (rule show_nat_dec)
  ultimately show ?thesis by (simp add: digits_prefix_def to_digit_dec)
qed

lemma show_nat_length: "n < 10 ^ k \<Longrightarrow> 0 < k \<Longrightarrow> length (show_nat n) \<le> k"
proof (induction n arbitrary: k rule: show_nat.induct)
  case (1 n)
  show ?case
  proof (cases "n < 10")
    case True
    then show ?thesis using "1.prems" by (subst show_nat.simps) simp
  next
    case False
    obtain k' where k: "k = Suc k'" using "1.prems"(2) by (cases k) auto
    have "0 < k'" using False "1.prems"(1) k by (cases k') auto
    moreover have "n div 10 < 10 ^ k'" using "1.prems"(1) k by (simp add: less_mult_imp_div_less)
    ultimately have "length (show_nat (n div 10)) \<le> k'" using "1.IH" False by blast
    then show ?thesis using False k by (subst show_nat.simps) simp
  qed
qed

lemma show_nat_hd_zero: "hd (show_nat n) = CHR ''0'' \<Longrightarrow> n = 0"
proof (induction n rule: show_nat.induct)
  case (1 n)
  show ?case
  proof (cases "n < 10")
    case True
    with "1.prems" have "char_of (48 + n) = CHR ''0''" by (subst (asm) show_nat.simps) simp
    then have "dec_digit (char_of (48 + n)) = dec_digit CHR ''0''" by simp
    then have "Some n = dec_digit CHR ''0''" using dec_digit_char [OF True] by (simp only:)
    then show ?thesis by (simp add: dec_digit_def)
  next
    case False
    with "1.prems" have "hd (show_nat (n div 10)) = CHR ''0''"
      by (subst (asm) show_nat.simps) simp
    with "1.IH" False have "n div 10 = 0" by blast
    with False show ?thesis by simp
  qed
qed

lemma read_number_show:
  assumes "no_digit r" and "n \<le> max_value" and "case max_digits of None \<Rightarrow> True | Some m \<Rightarrow> 0 < m \<and> n < 10 ^ m"
  shows "read_number 10 max_digits z max_value (show_nat n @ r) = Some (n, r)"
proof -
  have pre: "digits_prefix 10 (show_nat n @ r) = show_nat n" by (rule digits_prefix_show [OF assms(1)])
  have "\<not> (case max_digits of None \<Rightarrow> False | Some m \<Rightarrow> m < length (show_nat n))"
    using assms(3) show_nat_length by (fastforce split: option.splits)
  moreover have "hd (show_nat n @ r) = CHR ''0'' \<Longrightarrow> length (show_nat n) = 1"
    using show_nat_hd_zero [of n] by (simp add: show_nat.simps [of 0])
  ultimately show ?thesis
    using assms(2) by (auto simp: read_number_def Let_def pre)
qed

lemma read_octet_show:
  assumes "no_digit r"
  shows "read_octet 0 (show_nat (unat (b :: u8)) @ r) = Some (unat b, r)"
    and "0 < i \<Longrightarrow> read_octet i (CHR ''.'' # show_nat (unat b) @ r) = Some (unat b, r)"
proof -
  have "unat b < 256" using unsigned_less [of b, where ?'a = nat] by simp
  then have "read_number 10 (Some 3) False 255 (show_nat (unat b) @ r) = Some (unat b, r)"
    using read_number_show [OF assms, of "unat b" 255 "Some 3"] by simp
  then show "read_octet 0 (show_nat (unat b) @ r) = Some (unat b, r)"
    and "0 < i \<Longrightarrow> read_octet i (CHR ''.'' # show_nat (unat b) @ r) = Some (unat b, r)"
    by (simp_all add: read_octet_def read_separator_def read_given_char_def)
qed

lemma no_digit_simps [simp]: "no_digit []" "no_digit (CHR ''.'' # s)" "no_digit (CHR '':'' # s)"
  by (simp_all add: no_digit_def dec_digit_def)

lemma read_ipv4_addr_show:
  assumes "no_digit r"
  shows "read_ipv4_addr (show_ipv4 ip @ r) = Some (ip, r)"
proof (cases ip)
  case (Ipv4Addr a b c d)
  then show ?thesis using assms by (simp add: read_ipv4_addr_def read_octet_show)
qed

lemma show_ipv4_length: "length (show_ipv4 ip) \<le> 15"
proof (cases ip)
  case (Ipv4Addr a b c d)
  have "length (show_nat (unat (x :: u8))) \<le> 3" for x
    using show_nat_length [of "unat x" 3] unsigned_less [of x, where ?'a = nat] by simp
  from this [of a] this [of b] this [of c] this [of d] show ?thesis using Ipv4Addr by simp
qed

lemma parse_ipv4_show: "parse_ipv4 (show_ipv4 ip) = Some ip"
  using read_ipv4_addr_show [of "[]" ip] show_ipv4_length [of ip]
  by (simp add: parse_ipv4_def parse_with_def)

lemma parse_socket_addr_show_v4:
  "port < 65536 \<Longrightarrow> parse_socket_addr (show_ipv4 ip @ '':'' @ show_nat port) = Some (SocketV4 ip (word_of_nat port))"
  using read_number_show [of "[]" port 65535 None True]
  by (simp add: parse_socket_addr_def parse_with_def read_socket_addr_v4_def read_ipv4_addr_show
      read_port_def read_given_char_def)

subsection \<open>Texts that are no socket address\<close>

lemma read_number_dec_start:
  "read_number 10 m z mx s = Some x \<Longrightarrow> \<exists>c r. s = c # r \<and> dec_digit c \<noteq> None"
  by (cases s) (auto simp: read_number_def Let_def digits_prefix_def to_digit_dec split: if_splits)

lemma parse_socket_addr_start:
  "parse_socket_addr s = Some a \<Longrightarrow> \<exists>c r. s = c # r \<and> (dec_digit c \<noteq> None \<or> c = CHR ''['')"
proof -
  assume "parse_socket_addr s = Some a"
  then consider x where "read_socket_addr_v4 s = Some x" | x where "read_socket_addr_v6 s = Some x"
    by (auto simp: parse_socket_addr_def parse_with_def split: option.splits)
  then show ?thesis
  proof cases
    case 1
    then obtain y where "read_octet 0 s = Some y"
      by (auto simp: read_socket_addr_v4_def read_ipv4_addr_def split: option.splits)
    then show ?thesis using read_number_dec_start by (fastforce simp: read_octet_def read_separator_def)
  next
    case 2
    then show ?thesis
      by (auto simp: read_socket_addr_v6_def read_given_char_def split: list.splits if_splits)
  qed
qed

end
