(* ===== verification/Validator.thy ===== *)
theory Validator
  imports Vmess_Auth Net_Addr
begin

text \<open>
  \<^verbatim>\<open>src/vmess/validator.rs\<close>: the routing table from authentication identifiers to upstreams. An
  \<^verbatim>\<open>http::Uri\<close> is represented by its text. The lemmas say when a table is built and what the error
  is otherwise, which upstream an identifier is routed to, and that the table distinguishes UUIDs
  by their spelling and not by their value.
\<close>

subsection \<open>Definitions\<close>

type_synonym uri = string

datatype transport = Tcp | Grpc (service_name: string) (tls_sni: string) (request_uri: uri)

record upstream =
  addr :: string
  parsed_addr :: socket_addr
  transport :: transport
  tcp_fast_open :: bool

record entry =
  uuid :: string
  verifier :: auth_verifier
  upstream :: upstream

record validator =
  entries :: "entry list"

fun validator_new_loop :: "crypto \<Rightarrow> string set \<Rightarrow> (string \<times> upstream) list \<Rightarrow> entry list \<Rightarrow> validator result" where
  "validator_new_loop c seen [] es = Inr \<lparr>entries = es\<rparr>"
| "validator_new_loop c seen (p # pairs) es =
     (if fst p \<in> seen then Inl (DuplicateUuid (fst p))
      else bind_result (from_uuid c (fst p)) (\<lambda>v.
        validator_new_loop c (insert (fst p) seen) pairs
          (es @ [\<lparr>uuid = fst p, verifier = v, upstream = snd p\<rparr>])))"

definition validator_new :: "crypto \<Rightarrow> (string \<times> upstream) list \<Rightarrow> validator result" where
  "validator_new c pairs = validator_new_loop c {} pairs []"

fun match_entries :: "crypto \<Rightarrow> nat \<Rightarrow> entry list \<Rightarrow> bytes \<Rightarrow> upstream option" where
  "match_entries c now [] auth_id = None"
| "match_entries c now (e # es) auth_id =
     (if verify c now (verifier e) auth_id then Some (upstream e) else match_entries c now es auth_id)"

definition match_auth_id :: "crypto \<Rightarrow> nat \<Rightarrow> validator \<Rightarrow> bytes \<Rightarrow> upstream option" where
  "match_auth_id c now v auth_id = match_entries c now (entries v) auth_id"

definition grpc_endpoint :: "entry \<Rightarrow> (string \<times> string) option" where
  "grpc_endpoint e =
     (case transport (upstream e) of Grpc _ sni _ \<Rightarrow> Some (addr (upstream e), sni) | Tcp \<Rightarrow> None)"

definition grpc_endpoints :: "validator \<Rightarrow> (string \<times> string) set" where
  "grpc_endpoints v = set (List.map_filter grpc_endpoint (entries v))"

definition validator_len :: "validator \<Rightarrow> nat" where
  "validator_len v = length (entries v)"

definition validator_is_empty :: "validator \<Rightarrow> bool" where
  "validator_is_empty v \<longleftrightarrow> entries v = []"

subsection \<open>Building the table\<close>

lemma from_uuid_ok: "is_ok (from_uuid c u) \<longleftrightarrow> is_ok (parse_uuid u)"
  by (cases "parse_uuid u") (simp_all add: from_uuid_eq)

lemma from_uuid_same: "parse_uuid u = parse_uuid u' \<Longrightarrow> from_uuid c u = from_uuid c u'"
  by (simp add: from_uuid_eq)

definition entry_of :: "crypto \<Rightarrow> string \<times> upstream \<Rightarrow> entry \<Rightarrow> bool" where
  "entry_of c p e \<longleftrightarrow> uuid e = fst p \<and> upstream e = snd p \<and> from_uuid c (fst p) = Inr (verifier e)"

lemma validator_new_loop_eq_Inr:
  "validator_new_loop c seen pairs es = Inr v \<longleftrightarrow>
     distinct (map fst pairs) \<and> set (map fst pairs) \<inter> seen = {}
     \<and> (\<exists>es'. entries v = es @ es' \<and> list_all2 (entry_of c) pairs es')"
proof (induction pairs arbitrary: seen es)
  case Nil
  then show ?case by (cases v) auto
next
  case (Cons p pairs)
  show ?case
  proof (cases "fst p \<in> seen \<or> \<not> is_ok (from_uuid c (fst p))")
    case True
    then show ?thesis
      by (cases "from_uuid c (fst p)") (auto simp: list_all2_Cons1 entry_of_def)
  next
    case False
    then obtain w where w: "from_uuid c (fst p) = Inr w" by (auto simp: is_ok_iff)
    let ?e = "\<lparr>uuid = fst p, verifier = w, upstream = snd p\<rparr>"
    have e: "entry_of c p x \<longleftrightarrow> x = ?e" for x by (cases x) (auto simp: entry_of_def w)
    show ?thesis using False w by (auto simp: Cons.IH list_all2_Cons1 e)
  qed
qed

lemma validator_new_eq_Inr:
  "validator_new c pairs = Inr v \<longleftrightarrow> distinct (map fst pairs) \<and> list_all2 (entry_of c) pairs (entries v)"
  by (simp add: validator_new_def validator_new_loop_eq_Inr)

lemma validator_new_loop_Inl:
  "validator_new_loop c seen pairs es = Inl err \<Longrightarrow>
     \<exists>pre p post. pairs = pre @ p # post \<and> distinct (map fst pre) \<and> set (map fst pre) \<inter> seen = {}
       \<and> (\<forall>q \<in> set pre. is_ok (parse_uuid (fst q)))
       \<and> (if fst p \<in> seen \<union> set (map fst pre) then err = DuplicateUuid (fst p)
          else parse_uuid (fst p) = Inl err)"
proof (induction pairs arbitrary: seen es)
  case (Cons p pairs)
  show ?case
  proof (cases "fst p \<in> seen \<or> \<not> is_ok (from_uuid c (fst p))")
    case True
    have "parse_uuid (fst p) = Inl err" if "fst p \<notin> seen"
      using that True Cons.prems by (cases "parse_uuid (fst p)") (auto simp: from_uuid_eq)
    then show ?thesis using Cons.prems True
      by (intro exI [of _ "[]"] exI [of _ p] exI [of _ pairs]) auto
  next
    case False
    then obtain w where "from_uuid c (fst p) = Inr w" by (auto simp: is_ok_iff)
    with False Cons.prems Cons.IH [of "insert (fst p) seen" "es @ [\<lparr>uuid = fst p, verifier = w, upstream = snd p\<rparr>]"]
    obtain pre q post where i: "pairs = pre @ q # post" "distinct (map fst pre)"
        "set (map fst pre) \<inter> insert (fst p) seen = {}" "\<forall>x \<in> set pre. is_ok (parse_uuid (fst x))"
        "if fst q \<in> insert (fst p) seen \<union> set (map fst pre) then err = DuplicateUuid (fst q)
          else parse_uuid (fst q) = Inl err"
      by auto
    then show ?thesis using False
      by (intro exI [of _ "p # pre"] exI [of _ q] exI [of _ post]) (auto simp: from_uuid_ok)
  qed
qed simp

text \<open>
  Building the table succeeds exactly when the UUID texts are distinct
  and all of them parse, and then has one entry per pair, in order, with the verifier of its UUID;
  otherwise the error is that of the first offending pair: a repeated text, or a text that is no
  UUID.
\<close>

theorem validator_new_outcome:
  "case validator_new c pairs of
     Inr v \<Rightarrow> distinct (map fst pairs) \<and> list_all2 (entry_of c) pairs (entries v)
   | Inl err \<Rightarrow> (\<exists>pre p post. pairs = pre @ p # post \<and> distinct (map fst pre)
        \<and> list_all (\<lambda>q. is_ok (parse_uuid (fst q))) pre
        \<and> (if fst p \<in> set (map fst pre) then err = DuplicateUuid (fst p) else parse_uuid (fst p) = Inl err))"
proof (cases "validator_new c pairs")
  case (Inl err)
  then show ?thesis using validator_new_loop_Inl [of c "{}" pairs "[]" err]
    by (auto simp: validator_new_def list_all_iff)
next
  case (Inr v)
  with validator_new_eq_Inr [of c pairs v] show ?thesis by simp
qed

subsection \<open>Routing\<close>

lemma match_entries_find:
  "match_entries c now es a = map_option upstream (List.find (\<lambda>e. verify c now (verifier e) a) es)"
  by (induction es) auto

definition uuid_accepts :: "crypto \<Rightarrow> nat \<Rightarrow> bytes \<Rightarrow> string \<Rightarrow> bool" where
  "uuid_accepts c now a u = (case from_uuid c u of Inr v \<Rightarrow> verify c now v a | Inl _ \<Rightarrow> False)"

lemma entry_of_find:
  "list_all2 (entry_of c) pairs es \<Longrightarrow>
     map_option upstream (List.find (\<lambda>e. verify c now (verifier e) a) es)
       = map_option snd (List.find (\<lambda>p. uuid_accepts c now a (fst p)) pairs)"
  by (induction rule: list_all2_induct) (auto simp: entry_of_def uuid_accepts_def)

lemma match_auth_id_new:
  "validator_new c pairs = Inr v \<Longrightarrow>
     match_auth_id c now v a = map_option snd (List.find (\<lambda>p. uuid_accepts c now a (fst p)) pairs)"
  by (simp add: validator_new_eq_Inr match_auth_id_def match_entries_find entry_of_find)

text \<open>
  C9 (match_auth_id_first). An identifier is routed to the upstream of the first configured pair
  whose UUID's verifier accepts it, and is refused exactly when no configured UUID accepts it.
\<close>

theorem match_auth_id_first:
  assumes "validator_new c pairs = Inr v"
  shows "match_auth_id c now v a = map_option snd (List.find (\<lambda>p. uuid_accepts c now a (fst p)) pairs)
    \<and> (match_auth_id c now v a = None \<longleftrightarrow> (\<forall>p \<in> set pairs. \<not> uuid_accepts c now a (fst p)))"
  using match_auth_id_new [OF assms] by (auto simp: find_None_iff)

definition sample_upstream :: upstream where
  "sample_upstream = \<lparr>addr = ''127.0.0.1:80'', parsed_addr = SocketV4 (Ipv4Addr 127 0 0 1) 80,
     transport = Tcp, tcp_fast_open = False\<rparr>"

definition sample_uuid :: string where
  "sample_uuid = replicate 32 CHR ''a''"

lemma parse_sample_uuid: "\<exists>b. parse_uuid sample_uuid = Inr b"
  by (simp add: sample_uuid_def parse_uuid_def digit_value_def)

theorem match_auth_id_first_witness:
  "\<exists>v. validator_new toy_crypto [(sample_uuid, sample_upstream)] = Inr v
    \<and> match_auth_id toy_crypto 1000 v (be_of_nat 8 1100 @ [1, 2, 3, 4] @ be_of_nat 4 5) = Some sample_upstream"
proof -
  obtain b where b: "parse_uuid sample_uuid = Inr b" using parse_sample_uuid by blast
  have acc: "uuid_accepts toy_crypto 1000 (be_of_nat 8 1100 @ [1, 2, 3, 4] @ be_of_nat 4 5) sample_uuid"
    by (simp add: uuid_accepts_def from_uuid_eq b verify_def toy_crypto_def nat_of_be_of_nat abs_diff_def)
  obtain v where v: "validator_new toy_crypto [(sample_uuid, sample_upstream)] = Inr v"
    by (simp add: validator_new_def from_uuid_eq b)
  with match_auth_id_first [OF v, of 1000 "be_of_nat 8 1100 @ [1, 2, 3, 4] @ be_of_nat 4 5"] acc
  show ?thesis by simp
qed

text \<open>
  C34 (respelled_uuid_shadowed). Two spellings of one UUID are different texts, so the duplicate
  check lets both in; the entry that comes later is then never chosen, whatever identifier
  arrives.
\<close>

theorem respelled_uuid_shadowed:
  assumes "length bs = 16" and "\<exists>b \<in> set bs. 10 \<le> unat b mod 16"
  shows "\<exists>v. validator_new c [(uuid_string False bs, up1), (uuid_string True bs, up2)] = Inr v
    \<and> match_auth_id c now v a \<in> {None, Some up1}"
proof -
  have "hex_string False bs \<noteq> hex_string True bs"
  proof
    assume eq: "hex_string False bs = hex_string True bs"
    have "hex_char False d \<noteq> hex_char True d" if "10 \<le> d" "d < 16" for d
      using that by (auto simp: hex_char_def)
    then have ne: "hex_byte False b \<noteq> hex_byte True b" if "10 \<le> unat b mod 16" for b
      using that by (auto simp: hex_byte_def)
    have "concat (map f xs) = concat (map g xs) \<Longrightarrow> \<forall>x \<in> set xs. length (f x) = length (g x)
        \<Longrightarrow> \<forall>x \<in> set xs. f x = g x" for f g :: "u8 \<Rightarrow> string" and xs
      by (induction xs) auto
    from this [of "hex_byte False" bs "hex_byte True"] eq ne assms(2) show False
      by (auto simp: hex_string_def hex_byte_def)
  qed
  then have ne: "uuid_string False bs \<noteq> uuid_string True bs" using filter_uuid_string by metis
  have p: "parse_uuid (uuid_string u bs) = Inr bs" for u by (rule parse_uuid_string [OF assms(1)])
  obtain v where v: "validator_new c [(uuid_string False bs, up1), (uuid_string True bs, up2)] = Inr v"
    using ne by (simp add: validator_new_def from_uuid_eq p)
  have "uuid_accepts c now a (uuid_string True bs) = uuid_accepts c now a (uuid_string False bs)"
    by (simp add: uuid_accepts_def from_uuid_eq p)
  then show ?thesis using v by (auto simp: match_auth_id_new)
qed

theorem respelled_uuid_shadowed_witness:
  "\<exists>v. validator_new toy_crypto [(uuid_string False (replicate 16 171), sample_upstream),
      (uuid_string True (replicate 16 171), sample_upstream\<lparr>tcp_fast_open := True\<rparr>)] = Inr v
    \<and> match_auth_id toy_crypto 0 v (replicate 16 0) \<in> {None, Some sample_upstream}"
  by (rule respelled_uuid_shadowed) simp_all

lemma grpc_endpoint_Some [simp]:
  "grpc_endpoint e = Some (a, sni) \<longleftrightarrow>
     addr (upstream e) = a \<and> (\<exists>s u. transport (upstream e) = Grpc s sni u)"
  by (cases "transport (upstream e)") (auto simp: grpc_endpoint_def)

lemma grpc_endpoints_iff:
  "(a, sni) \<in> grpc_endpoints v \<longleftrightarrow> (\<exists>e \<in> set (entries v). addr (upstream e) = a
     \<and> (\<exists>s u. transport (upstream e) = Grpc s sni u))"
  by (simp add: grpc_endpoints_def set_map_filter_iff)

end
