(* ===== verification/Relay_Activity.thy ===== *)
theory Relay_Activity
  imports Tobira_Prelude
begin

text \<open>
  \<^verbatim>\<open>src/relay/activity.rs\<close> and the two functions that wait for the halves of a gRPC relay
  (\<^verbatim>\<open>wait_grpc_relay\<close> of \<^verbatim>\<open>src/relay/outbound/grpc.rs\<close> and \<^verbatim>\<open>wait_grpc_fast_relay\<close> of
  \<^verbatim>\<open>src/relay/inbound/grpc.rs\<close>). Time is a number of milliseconds. A \<^verbatim>\<open>select!\<close> loop is a function of
  the sequence of events it observes; a loop that waits for an event that never comes has the
  value \<open>None\<close>. \<^verbatim>\<open>tokio::io::copy_bidirectional\<close> is library code: its completion is one of the events.

  The lemmas show when the loops end and with what, that the two waiting functions agree, and that
  an idle relay is closed within one checking interval after its timeout.
\<close>

subsection \<open>Definitions: activity\<close>

record relay_activity =
  last_activity :: nat

definition relay_activity_new :: "nat \<Rightarrow> relay_activity" where
  "relay_activity_new now = \<lparr>last_activity = now\<rparr>"

definition mark_at :: "relay_activity \<Rightarrow> nat \<Rightarrow> relay_activity" where
  "mark_at a now = a\<lparr>last_activity := now\<rparr>"

definition idle_for :: "relay_activity \<Rightarrow> nat \<Rightarrow> nat" where
  "idle_for a now = now - last_activity a"

text \<open>
  A quarter of the timeout, between one and five seconds. The code divides a \<^verbatim>\<open>Duration\<close> of nanoseconds;
  the timeouts of a configuration are whole seconds, so their quarters are whole milliseconds.
\<close>

definition idle_check_interval :: "nat \<Rightarrow> nat" where
  "idle_check_interval idle_timeout = max 1000 (min 5000 (idle_timeout div 4))"

text \<open>The wrapper of a stream: an operation that moved at least one byte marks the activity.\<close>

datatype 'a poll = Pending | Ready "'a result"

definition activity_poll_read :: "relay_activity \<Rightarrow> nat \<Rightarrow> nat \<Rightarrow> nat \<Rightarrow> unit poll \<Rightarrow> unit poll \<times> relay_activity" where
  "activity_poll_read a now before after res =
     (res, if (case res of Ready (Inr _) \<Rightarrow> True | _ \<Rightarrow> False) \<and> after > before then mark_at a now else a)"

definition activity_poll_write :: "relay_activity \<Rightarrow> nat \<Rightarrow> nat poll \<Rightarrow> nat poll \<times> relay_activity" where
  "activity_poll_write a now res =
     (res, case res of Ready (Inr n) \<Rightarrow> if n > 0 then mark_at a now else a | _ \<Rightarrow> a)"

definition activity_poll_flush :: "relay_activity \<Rightarrow> unit poll \<Rightarrow> unit poll \<times> relay_activity" where
  "activity_poll_flush a res = (res, a)"

definition activity_poll_shutdown :: "relay_activity \<Rightarrow> unit poll \<Rightarrow> unit poll \<times> relay_activity" where
  "activity_poll_shutdown a res = (res, a)"

text \<open>
  The loop of \<^verbatim>\<open>copy_bidirectional_with_idle_timeout\<close>: the copy ends, or a tick of the interval
  finds the relay idle for some time.
\<close>

datatype copy_event = CopyDone "(nat \<times> nat) result" | CopyTick nat

fun copy_bidirectional_with_idle_timeout :: "nat \<Rightarrow> copy_event list \<Rightarrow> (nat \<times> nat) result option" where
  "copy_bidirectional_with_idle_timeout idle_timeout [] = None"
| "copy_bidirectional_with_idle_timeout idle_timeout (ev # evs) =
     (case ev of
        CopyDone r \<Rightarrow> Some r
      | CopyTick idle \<Rightarrow>
          if idle \<ge> idle_timeout then Some (Inl IdleTimeout)
          else copy_bidirectional_with_idle_timeout idle_timeout evs)"

subsection \<open>Definitions: waiting for both halves\<close>

datatype join_result = Joined "unit result" | Cancelled | Panicked

datatype wait_event = Done1 join_result | Done2 join_result | Tick nat

text \<open>
  \<open>ab1\<close> and \<open>ab2\<close> are what the join handles give after an abort: \<^term>\<open>Cancelled\<close>, or the result of a
  task that had finished already.
\<close>

fun wait_loop :: "nat \<Rightarrow> join_result \<Rightarrow> join_result \<Rightarrow> wait_event list \<Rightarrow> join_result option \<Rightarrow> join_result option
    \<Rightarrow> (join_result \<times> join_result) option" where
  "wait_loop idle_timeout ab1 ab2 [] r1 r2 = None"
| "wait_loop idle_timeout ab1 ab2 (ev # evs) r1 r2 =
     (case ev of
        Tick idle \<Rightarrow>
          if idle \<ge> idle_timeout
          then Some (case r1 of None \<Rightarrow> ab1 | Some x \<Rightarrow> x, case r2 of None \<Rightarrow> ab2 | Some x \<Rightarrow> x)
          else wait_loop idle_timeout ab1 ab2 evs r1 r2
      | Done1 j \<Rightarrow>
          (let r1' = (if r1 = None then Some j else r1) in
           case (r1', r2) of
             (Some x, Some y) \<Rightarrow> Some (x, y)
           | _ \<Rightarrow> wait_loop idle_timeout ab1 ab2 evs r1' r2)
      | Done2 j \<Rightarrow>
          (let r2' = (if r2 = None then Some j else r2) in
           case (r1, r2') of
             (Some x, Some y) \<Rightarrow> Some (x, y)
           | _ \<Rightarrow> wait_loop idle_timeout ab1 ab2 evs r1 r2'))"

text \<open>\<^verbatim>\<open>tokio::join!\<close>: both results, whichever comes first.\<close>

fun join_loop :: "wait_event list \<Rightarrow> join_result option \<Rightarrow> join_result option \<Rightarrow> (join_result \<times> join_result) option" where
  "join_loop evs (Some x) (Some y) = Some (x, y)"
| "join_loop [] r1 r2 = None"
| "join_loop (Done1 j # evs) r1 r2 = join_loop evs (if r1 = None then Some j else r1) r2"
| "join_loop (Done2 j # evs) r1 r2 = join_loop evs r1 (if r2 = None then Some j else r2)"
| "join_loop (Tick i # evs) r1 r2 = join_loop evs r1 r2"

definition wait_grpc_relay :: "bool \<Rightarrow> nat option \<Rightarrow> join_result \<Rightarrow> join_result \<Rightarrow> wait_event list
    \<Rightarrow> (join_result \<times> join_result) option" where
  "wait_grpc_relay has_activity idle_timeout ab1 ab2 evs =
     (case (if has_activity then idle_timeout else None) of
        None \<Rightarrow> join_loop evs None None
      | Some t \<Rightarrow> wait_loop t ab1 ab2 evs None None)"

definition wait_grpc_fast_relay :: "bool \<Rightarrow> nat option \<Rightarrow> join_result \<Rightarrow> join_result \<Rightarrow> wait_event list
    \<Rightarrow> (join_result \<times> join_result) option" where
  "wait_grpc_fast_relay has_activity idle_timeout ab1 ab2 evs =
     (case (if has_activity then idle_timeout else None) of
        None \<Rightarrow> join_loop evs None None
      | Some t \<Rightarrow> wait_loop t ab1 ab2 evs None None)"

subsection \<open>Ending of the loops\<close>

definition first_done :: "(wait_event \<Rightarrow> join_result option) \<Rightarrow> wait_event list \<Rightarrow> join_result option" where
  "first_done f evs = (case List.map_filter f evs of [] \<Rightarrow> None | x # _ \<Rightarrow> Some x)"

definition done1 :: "wait_event \<Rightarrow> join_result option" where
  "done1 ev = (case ev of Done1 j \<Rightarrow> Some j | _ \<Rightarrow> None)"

definition done2 :: "wait_event \<Rightarrow> join_result option" where
  "done2 ev = (case ev of Done2 j \<Rightarrow> Some j | _ \<Rightarrow> None)"

definition quiet_tick :: "nat \<Rightarrow> wait_event \<Rightarrow> bool" where
  "quiet_tick t ev = (case ev of Tick i \<Rightarrow> i < t | _ \<Rightarrow> True)"

lemma first_done_simps [simp]:
  "first_done f [] = None"
  "first_done f (ev # evs) = (case f ev of None \<Rightarrow> first_done f evs | Some j \<Rightarrow> Some j)"
  by (simp_all add: first_done_def List.map_filter_simps split: option.splits)

lemma or_first [simp]: "(if r = None then Some j else r) = Some (case r of None \<Rightarrow> j | Some x \<Rightarrow> x)"
  by (cases r) auto

abbreviation or_first_done :: "join_result option \<Rightarrow> join_result option \<Rightarrow> join_result option" where
  "or_first_done r d \<equiv> (case r of None \<Rightarrow> d | Some x \<Rightarrow> Some x)"

lemma join_loop_result:
  "join_loop evs r1 r2 = (case (or_first_done r1 (first_done done1 evs), or_first_done r2 (first_done done2 evs)) of
     (Some x, Some y) \<Rightarrow> Some (x, y) | _ \<Rightarrow> None)"
  by (induction evs r1 r2 rule: join_loop.induct) (auto simp: done1_def done2_def split: option.splits)

lemma wait_loop_quiet:
  "list_all (quiet_tick t) evs \<Longrightarrow> r1 = None \<or> r2 = None \<Longrightarrow>
     wait_loop t ab1 ab2 evs r1 r2
       = (case (or_first_done r1 (first_done done1 evs), or_first_done r2 (first_done done2 evs)) of
            (Some x, Some y) \<Rightarrow> Some (x, y) | _ \<Rightarrow> None)"
proof (induction evs arbitrary: r1 r2)
  case Nil
  then show ?case by (auto split: option.splits)
next
  case (Cons ev evs)
  show ?case
  proof (cases ev)
    case (Done1 j)
    with Cons show ?thesis by (cases r1; cases r2) (auto simp: done1_def done2_def)
  next
    case (Done2 j)
    with Cons show ?thesis by (cases r1; cases r2) (auto simp: done1_def done2_def split: option.splits)
  next
    case (Tick i)
    with Cons show ?thesis by (cases r1; cases r2) (auto simp: done1_def done2_def quiet_tick_def split: option.splits)
  qed
qed

text \<open>
  The two waiting functions are the same function. Without an idle timeout,
  and with one as long as no tick finds the relay idle for that long, they end exactly when both
  halves have ended, and give the result of each half; a tick that finds the relay idle for
  the timeout ends the wait at once.
\<close>

theorem relay_wait_outcome:
  "wait_grpc_fast_relay a it ab1 ab2 evs = wait_grpc_relay a it ab1 ab2 evs
   \<and> (if list_all (\<lambda>ev. case it of Some t \<Rightarrow> quiet_tick t ev | None \<Rightarrow> True) evs
      then wait_grpc_relay True it ab1 ab2 evs = (case (first_done done1 evs, first_done done2 evs) of
        (Some x, Some y) \<Rightarrow> Some (x, y) | _ \<Rightarrow> None)
      else \<exists>x y. wait_grpc_relay True it ab1 ab2 evs = Some (x, y))"
proof -
  have "\<exists>x y. wait_loop t ab1 ab2 evs r1 r2 = Some (x, y)" if "\<not> list_all (quiet_tick t) evs" for t r1 r2
    using that
  proof (induction evs arbitrary: r1 r2)
    case (Cons ev evs)
    then show ?case
      by (cases ev; cases r1; cases r2) (auto simp: quiet_tick_def)
  qed simp
  then show ?thesis
    by (cases it) (auto simp: wait_grpc_relay_def wait_grpc_fast_relay_def join_loop_result wait_loop_quiet list_all_iff)
qed

subsection \<open>The idle clock follows the traffic\<close>

text \<open>The calls on the two wrapped streams, with what the inner stream answers.\<close>

datatype stream_poll =
    PollRead nat nat "unit poll" \<comment> \<open>the filled part of the buffer before and after\<close>
  | PollWrite "nat poll"
  | PollFlush "unit poll"
  | PollShutdown "unit poll"

fun activity_poll :: "relay_activity \<Rightarrow> nat \<times> stream_poll \<Rightarrow> relay_activity" where
  "activity_poll a (now, PollRead before after res) = snd (activity_poll_read a now before after res)"
| "activity_poll a (now, PollWrite res) = snd (activity_poll_write a now res)"
| "activity_poll a (now, PollFlush res) = snd (activity_poll_flush a res)"
| "activity_poll a (now, PollShutdown res) = snd (activity_poll_shutdown a res)"

fun moves_bytes :: "stream_poll \<Rightarrow> bool" where
  "moves_bytes (PollRead before after (Ready (Inr _))) \<longleftrightarrow> before < after"
| "moves_bytes (PollWrite (Ready (Inr n))) \<longleftrightarrow> 0 < n"
| "moves_bytes _ \<longleftrightarrow> False"

lemma activity_poll_eq: "activity_poll a (now, p) = (if moves_bytes p then mark_at a now else a)"
  by (cases p rule: moves_bytes.cases)
    (auto simp: activity_poll_read_def activity_poll_write_def activity_poll_flush_def activity_poll_shutdown_def)

text \<open>The idle time is the time since bytes were last read or written; no other call resets it.\<close>

lemma idle_since_traffic:
  "idle_for (foldl activity_poll (relay_activity_new start) polls) now
   = now - last (start # map fst (filter (\<lambda>p. moves_bytes (snd p)) polls))"
proof (induction polls rule: rev_induct)
  case (snoc p polls)
  then show ?case by (cases p) (auto simp: activity_poll_eq mark_at_def idle_for_def)
qed (simp add: idle_for_def relay_activity_new_def)

subsection \<open>Idle relays are closed in time\<close>

lemma idle_check_interval_bounds: "1000 \<le> idle_check_interval t" "idle_check_interval t \<le> 5000"
  by (simp_all add: idle_check_interval_def)

lemma copy_ticks:
  "copy_bidirectional_with_idle_timeout t (map CopyTick xs)
     = (if \<exists>x \<in> set xs. t \<le> x then Some (Inl IdleTimeout) else None)"
  by (induction xs) auto

lemma first_tick_at_least:
  fixes i :: nat
  assumes "0 < i"
  shows "\<exists>k. m \<le> k * i \<and> k * i < m + i \<and> (\<forall>n < k. n * i < m)"
proof -
  define k where "k = (LEAST n. m \<le> n * i)"
  have ex: "m \<le> m * i" using assms by simp
  have le: "m \<le> k * i" unfolding k_def by (rule LeastI [where P = "\<lambda>n. m \<le> n * i", OF ex])
  have lt: "n * i < m" if "n < k" for n
    using not_less_Least [of n "\<lambda>n. m \<le> n * i"] that by (simp add: k_def)
  have "k * i < m + i"
  proof (cases k)
    case 0
    then show ?thesis using assms by simp
  next
    case (Suc j)
    then have "j * i < m" using lt by simp
    then show ?thesis using Suc by simp
  qed
  with le lt show ?thesis by blast
qed

text \<open>
  C30 (idle_relay_reaped). If a relay with idle timeout \<open>t\<close> sees no traffic after time \<open>l\<close>, then one of the
  ticks of the checking interval, which come every one to five seconds, ends it: not before
  \<open>l + t\<close>, and less than one interval after \<open>l + t\<close>.
\<close>

theorem idle_relay_reaped:
  assumes "0 < t"
  shows "\<exists>k. let i = idle_check_interval t;
             ticks = (\<lambda>n. map CopyTick (map (\<lambda>j. idle_for \<lparr>last_activity = l\<rparr> (j * i)) [0..<n])) in
     1000 \<le> i \<and> i \<le> 5000 \<and> l + t \<le> k * i \<and> k * i < l + t + i
     \<and> copy_bidirectional_with_idle_timeout t (ticks (Suc k)) = Some (Inl IdleTimeout)
     \<and> copy_bidirectional_with_idle_timeout t (ticks k) = None"
proof -
  let ?i = "idle_check_interval t"
  have "0 < ?i" using idle_check_interval_bounds(1) [of t] by linarith
  then obtain k where k: "l + t \<le> k * ?i" "k * ?i < l + t + ?i" "\<forall>n < k. n * ?i < l + t"
    using first_tick_at_least by blast
  have "\<exists>x \<in> set (map (\<lambda>j. idle_for \<lparr>last_activity = l\<rparr> (j * ?i)) [0..<Suc k]). t \<le> x"
    using k(1) by (intro bexI [of _ "k * ?i - l"]) (auto simp: idle_for_def)
  moreover have "\<not> (\<exists>x \<in> set (map (\<lambda>j. idle_for \<lparr>last_activity = l\<rparr> (j * ?i)) [0..<k]). t \<le> x)"
    using k(3) assms by (fastforce simp: idle_for_def)
  ultimately show ?thesis
    using k(1,2) idle_check_interval_bounds [of t] unfolding Let_def copy_ticks by (intro exI [of _ k]) simp
qed

theorem idle_relay_reaped_witness:
  "\<exists>k. k * 5000 < 7000 + 60000 + (5000 :: nat) \<and> 7000 + 60000 \<le> k * 5000
     \<and> copy_bidirectional_with_idle_timeout 60000
         (map CopyTick (map (\<lambda>j. idle_for \<lparr>last_activity = 7000\<rparr> (j * 5000)) [0..<k])) = None"
proof -
  have "idle_check_interval 60000 = 5000" by (simp add: idle_check_interval_def)
  with idle_relay_reaped [of 60000 7000] show ?thesis by (auto simp: Let_def)
qed

end
