(* ===== verification/Relay_Core.thy ===== *)
theory Relay_Core
  imports Grpc_Stream Grpc_Pool Validator Relay_Activity
begin

text \<open>
  The relay between an inbound byte stream and an upstream: \<^verbatim>\<open>src/relay/core.rs\<close>,
  \<^verbatim>\<open>src/relay/runtime.rs\<close>, \<^verbatim>\<open>src/relay/outbound/mod.rs\<close>, \<^verbatim>\<open>src/relay/outbound/tcp.rs\<close> and
  \<^verbatim>\<open>src/relay/outbound/grpc.rs\<close>. The network is the environment: the record \<open>net_env\<close> holds the
  answers of the sockets and of the HTTP/2 library, and what \<^verbatim>\<open>tokio::io::copy_bidirectional\<close>
  does. The two directions of a gRPC relay run as tasks that share nothing but the pool; each is
  run to its end, and the order in which they end is an answer of the environment. A relay that
  waits for something that never comes has the value \<open>None\<close>.

  The lemmas show that an upstream receives exactly the bytes the client sent, the authentication
  identifier included, that nothing is forwarded for a client that is refused, and how a dead
  cached connection is replaced.
\<close>

subsection \<open>Definitions: streams and environment\<close>

record inbound =
  in_reads :: "read_event list"
  in_writer :: writer

text \<open>
  What one call of \<^verbatim>\<open>tokio::io::copy_bidirectional\<close> does: the idle times found by the ticks that come
  before its end, its result (\<open>None\<close> if it never ends) and the state of both writers at its end.
\<close>

record copy_run =
  cr_ticks :: "nat list"
  cr_result :: "(nat \<times> nat) result option"
  cr_inbound :: writer
  cr_outbound :: writer

definition copy_events :: "copy_run \<Rightarrow> copy_event list" where
  "copy_events run =
     map CopyTick (cr_ticks run) @ (case cr_result run of None \<Rightarrow> [] | Some r \<Rightarrow> [CopyDone r])"

text \<open>One turn of the scheduler: the first task ends, the second one ends, or the interval ticks.\<close>

datatype turn = Turn1 | Turn2 | TurnTick nat

record net_env =
  ne_now :: nat \<comment> \<open>milliseconds, for the pool\<close>
  ne_clock :: nat \<comment> \<open>seconds, for the verifier\<close>
  ne_auth_timeout :: bool
  ne_drain_timeout :: bool
  ne_drain_len :: nat \<comment> \<open>the random number of \<^verbatim>\<open>drain_and_close\<close>\<close>
  ne_tcp_connect :: "socket_addr \<Rightarrow> unit result"
  ne_set_nodelay :: "unit result"
  ne_tcp_writer :: writer \<comment> \<open>the outbound socket\<close>
  ne_tcp_reads :: "read_event list"
  ne_write_timeout :: bool
  ne_copy :: "read_event list \<Rightarrow> writer \<Rightarrow> read_event list \<Rightarrow> writer \<Rightarrow> copy_run"
  ne_connector :: connector
  ne_ready :: "nat \<Rightarrow> bool" \<comment> \<open>\<^verbatim>\<open>poll_ready\<close> of a connection\<close>
  ne_send_request :: "nat \<Rightarrow> uri \<Rightarrow> send_stream result"
  ne_response :: "h2_error + recv_event list" \<comment> \<open>the response headers, with the body\<close>
  ne_turns :: "turn list"
  ne_ended1 :: bool \<comment> \<open>an aborted first task had ended already\<close>
  ne_ended2 :: bool

record relay_runtime =
  rt_validator :: validator
  rt_grpc_pool :: grpc_pool
  rt_idle_timeout :: "nat option"

definition relay_runtime_new :: "validator \<Rightarrow> grpc_pool \<Rightarrow> nat option \<Rightarrow> relay_runtime" where
  "relay_runtime_new v p idle = \<lparr>rt_validator = v, rt_grpc_pool = p, rt_idle_timeout = idle\<rparr>"

definition set_relay_idle_timeout :: "relay_runtime \<Rightarrow> nat option \<Rightarrow> relay_runtime" where
  "set_relay_idle_timeout rt idle = rt\<lparr>rt_idle_timeout := idle\<rparr>"

text \<open>
  What a relay leaves: the pool, the client's side (a socket or a response stream), and the bytes
  handed to the upstream.
\<close>

record 'w relay_end =
  re_result :: "unit result"
  re_pool :: grpc_pool
  re_client :: "'w option" \<comment> \<open>\<open>None\<close> when the task that writes was cut off\<close>
  re_upstream :: "bytes option" \<comment> \<open>\<open>None\<close> when the task that sends was cut off\<close>

subsection \<open>Definitions: reading the identifier\<close>

function read_exact :: "nat \<Rightarrow> bytes \<Rightarrow> read_event list \<Rightarrow> bytes result \<times> read_event list" where
  "read_exact n acc evs =
     (if length acc \<ge> n then (Inr acc, evs)
      else case evs of
             [] \<Rightarrow> (Inl EarlyEof, [])
           | ReadFailed e # r \<Rightarrow> (Inl (Foreign e), r)
           | ReadData d # r \<Rightarrow>
               if d = [] then (Inl EarlyEof, r)
               else let k = n - length acc in
                    if length d \<le> k then read_exact n (acc @ d) r
                    else (Inr (acc @ take k d), ReadData (drop k d) # r))"
  by pat_completeness auto
termination by (relation "measure (\<lambda>(n, acc, evs). length evs)") auto

declare read_exact.simps [simp del]

definition drain_and_close :: "net_env \<Rightarrow> read_event list \<Rightarrow> bytes" where
  "drain_and_close env evs =
     (if ne_drain_timeout env then []
      else case evs of ReadData d # _ \<Rightarrow> take (ne_drain_len env) d | _ \<Rightarrow> [])"

subsection \<open>Definitions: TCP outbound\<close>

definition nothing_relayed :: "unit result \<Rightarrow> 'w \<Rightarrow> grpc_pool \<Rightarrow> 'w relay_end" where
  "nothing_relayed r client p =
     \<lparr>re_result = r, re_pool = p, re_client = Some client, re_upstream = Some []\<rparr>"

text \<open>The copy, with the idle loop around it or without; the loop may cut it off.\<close>

definition copy_streams :: "nat option \<Rightarrow> copy_run \<Rightarrow> grpc_pool \<Rightarrow> writer relay_end option" where
  "copy_streams idle run p =
     (case (case idle of Some t \<Rightarrow> copy_bidirectional_with_idle_timeout t (copy_events run) | None \<Rightarrow> cr_result run) of
        None \<Rightarrow> None
      | Some r \<Rightarrow>
          (let whole = (cr_result run = Some r) in
           Some \<lparr>re_result = map_sum id (\<lambda>_. ()) r, re_pool = p,
                 re_client = (if whole then Some (cr_inbound run) else None),
                 re_upstream = (if whole then Some (w_out (cr_outbound run)) else None)\<rparr>))"

definition relay_tcp :: "net_env \<Rightarrow> inbound \<Rightarrow> upstream \<Rightarrow> bytes \<Rightarrow> nat option \<Rightarrow> grpc_pool \<Rightarrow> writer relay_end option" where
  "relay_tcp env inb up auth_id idle pool =
     (case bind_result (ne_tcp_connect env (parsed_addr up)) (\<lambda>_. ne_set_nodelay env) of
        Inl e \<Rightarrow> Some (nothing_relayed (Inl e) (in_writer inb) pool)
      | Inr _ \<Rightarrow>
          if ne_write_timeout env then
            Some ((nothing_relayed (Inl Timeout) (in_writer inb) pool)\<lparr>re_upstream := None\<rparr>)
          else
            (case write_all (ne_tcp_writer env) auth_id of
               (Inl e, w) \<Rightarrow> Some ((nothing_relayed (Inl e) (in_writer inb) pool)\<lparr>re_upstream := Some (w_out w)\<rparr>)
             | (Inr _, w) \<Rightarrow>
                 copy_streams idle (ne_copy env (in_reads inb) (in_writer inb) (ne_tcp_reads env) w) pool))"

subsection \<open>Definitions: gRPC outbound\<close>

record grpc_tunnel =
  tn_service_name :: string
  tn_tls_sni :: string
  tn_conn :: nat
  tn_send_stream :: send_stream

definition send_tunnel_request :: "net_env \<Rightarrow> string \<Rightarrow> string \<Rightarrow> uri \<Rightarrow> nat \<Rightarrow> grpc_pool \<Rightarrow> grpc_tunnel result \<times> grpc_pool" where
  "send_tunnel_request env service sni u c p =
     (case ne_send_request env c u of
        Inl e \<Rightarrow> (Inl e, p)
      | Inr s \<Rightarrow> (Inr \<lparr>tn_service_name = service, tn_tls_sni = sni, tn_conn = c, tn_send_stream = s\<rparr>, p))"

definition open_grpc_tunnel :: "net_env \<Rightarrow> upstream \<Rightarrow> grpc_pool \<Rightarrow> grpc_tunnel result \<times> grpc_pool" where
  "open_grpc_tunnel env up p =
     (case transport up of
        Tcp \<Rightarrow> (Inl NotGrpcUpstream, p)
      | Grpc service sni u \<Rightarrow>
          (case get_or_create (ne_connector env) p (addr up) sni (ne_now env) of
             (Inl e, p1) \<Rightarrow> (Inl e, p1)
           | (Inr c, p1) \<Rightarrow>
               if ne_ready env c then send_tunnel_request env service sni u c p1
               else
                 (case get_or_create (ne_connector env) (evict p1 (addr up) sni) (addr up) sni (ne_now env) of
                    (Inl e, p2) \<Rightarrow> (Inl e, p2)
                  | (Inr c2, p2) \<Rightarrow>
                      if ne_ready env c2 then send_tunnel_request env service sni u c2 p2
                      else (Inl NotReadyAfterReconnect, p2))))"

text \<open>The error branch of \<^verbatim>\<open>await_grpc_response_headers\<close>.\<close>

definition response_headers_failed :: "h2_error \<Rightarrow> string \<Rightarrow> string \<Rightarrow> grpc_pool \<Rightarrow> unit result \<times> grpc_pool" where
  "response_headers_failed e upstream_addr sni p =
     (Inl (ResponseHeadersError e), if is_h2_connection_error e then evict p upstream_addr sni else p)"

text \<open>The epilogue of the sending task: a connection error evicts the pooled connection.\<close>

definition evict_on_error :: "unit result \<Rightarrow> string \<Rightarrow> string \<Rightarrow> grpc_pool \<Rightarrow> grpc_pool" where
  "evict_on_error r upstream_addr sni p =
     (case r of Inl e \<Rightarrow> if is_grpc_connection_error e then evict p upstream_addr sni else p | Inr _ \<Rightarrow> p)"

definition activity_of :: "nat option \<Rightarrow> activity" where
  "activity_of idle = map_option (\<lambda>_. 0) idle"

text \<open>
  A task that ran to its end with a result (\<open>None\<close> if it blocks for ever), seen through its join handle;
  the waiting loop sees the ends of the tasks in the order of the turns.
\<close>

definition join_of :: "unit result \<Rightarrow> join_result" where
  "join_of r = (case r of Inl (Panic _) \<Rightarrow> Panicked | _ \<Rightarrow> Joined r)"

definition aborted :: "bool \<Rightarrow> unit result option \<Rightarrow> join_result" where
  "aborted ended r = (case r of Some x \<Rightarrow> if ended then join_of x else Cancelled | None \<Rightarrow> Cancelled)"

definition turn_event :: "unit result option \<Rightarrow> unit result option \<Rightarrow> turn \<Rightarrow> wait_event option" where
  "turn_event r1 r2 t =
     (case t of
        Turn1 \<Rightarrow> map_option (\<lambda>r. Done1 (join_of r)) r1
      | Turn2 \<Rightarrow> map_option (\<lambda>r. Done2 (join_of r)) r2
      | TurnTick i \<Rightarrow> Some (Tick i))"

definition wait_events :: "unit result option \<Rightarrow> unit result option \<Rightarrow> turn list \<Rightarrow> wait_event list" where
  "wait_events r1 r2 ts = List.map_filter (turn_event r1 r2) ts"

text \<open>The two tasks of a gRPC relay and the wait for both; an aborted task leaves nothing known.\<close>

definition relay_tasks :: "(bool \<Rightarrow> nat option \<Rightarrow> join_result \<Rightarrow> join_result \<Rightarrow> wait_event list \<Rightarrow> (join_result \<times> join_result) option)
    \<Rightarrow> net_env \<Rightarrow> (unit result \<times> send_stream \<times> activity) option \<Rightarrow> (unit result \<times> 'w \<times> activity) option
    \<Rightarrow> upstream \<Rightarrow> string \<Rightarrow> nat option \<Rightarrow> grpc_pool \<Rightarrow> 'w relay_end option" where
  "relay_tasks wait env t1 t2 up sni idle p =
     (let r1 = map_option fst t1; r2 = map_option fst t2 in
      case wait (idle \<noteq> None) idle (aborted (ne_ended1 env) r1) (aborted (ne_ended2 env) r2)
             (wait_events r1 r2 (ne_turns env)) of
        None \<Rightarrow> None
      | Some (j1, j2) \<Rightarrow>
          Some \<lparr>re_result = Inr (),
                re_pool = (case t1 of Some (r, _) \<Rightarrow> if j1 = Cancelled then p else evict_on_error r (addr up) sni p
                             | None \<Rightarrow> p),
                re_client = (if j2 = Cancelled then None else map_option (\<lambda>x. fst (snd x)) t2),
                re_upstream = (if j1 = Cancelled then None else map_option (\<lambda>x. sent_bytes (fst (snd x))) t1)\<rparr>)"

text \<open>The state of the pool when the response headers fail: the sending task may have ended before.\<close>

definition pool_after_send :: "net_env \<Rightarrow> (unit result \<times> send_stream \<times> activity) option \<Rightarrow> upstream \<Rightarrow> string \<Rightarrow> grpc_pool \<Rightarrow> grpc_pool" where
  "pool_after_send env t1 up sni p =
     (case t1 of Some (r, _) \<Rightarrow> if ne_ended1 env then evict_on_error r (addr up) sni p else p | None \<Rightarrow> p)"

definition relay_grpc :: "net_env \<Rightarrow> inbound \<Rightarrow> upstream \<Rightarrow> bytes \<Rightarrow> nat option \<Rightarrow> grpc_pool \<Rightarrow> writer relay_end option" where
  "relay_grpc env inb up auth_id idle pool =
     (case open_grpc_tunnel env up pool of
        (Inl e, p1) \<Rightarrow> Some (nothing_relayed (Inl e) (in_writer inb) p1)
      | (Inr tn, p1) \<Rightarrow>
          (case send_grpc_data (tn_send_stream tn) (encode_grpc_frame auth_id) False of
             None \<Rightarrow> None
           | Some (Inl e, s) \<Rightarrow> Some ((nothing_relayed (Inl e) (in_writer inb) p1)\<lparr>re_upstream := Some (sent_bytes s)\<rparr>)
           | Some (Inr _, s) \<Rightarrow>
               (let t1 = raw_to_grpc_with_activity (in_reads inb) s (activity_of idle) in
                case ne_response env of
                  Inl e \<Rightarrow>
                    (let f = response_headers_failed e (addr up) (tn_tls_sni tn) (pool_after_send env t1 up (tn_tls_sni tn) p1)
                     in Some ((nothing_relayed (fst f) (in_writer inb) (snd f))\<lparr>re_upstream := None\<rparr>))
                | Inr body \<Rightarrow>
                    relay_tasks wait_grpc_relay env t1
                      (Some (grpc_to_raw_with_activity (frame_reader_new body) (in_writer inb) (activity_of idle)))
                      up (tn_tls_sni tn) idle p1)))"

subsection \<open>Definitions: dispatch\<close>

datatype outbound = TcpOutbound | GrpcOutbound

definition from_transport :: "transport \<Rightarrow> outbound" where
  "from_transport t = (case t of Tcp \<Rightarrow> TcpOutbound | Grpc _ _ _ \<Rightarrow> GrpcOutbound)"

text \<open>The two implementations of the trait method: each reads the idle timeout when it starts.\<close>

definition outbound_relay :: "outbound \<Rightarrow> net_env \<Rightarrow> inbound \<Rightarrow> relay_runtime \<Rightarrow> upstream \<Rightarrow> bytes \<Rightarrow> writer relay_end option" where
  "outbound_relay ob env inb rt up auth_id =
     (case ob of
        TcpOutbound \<Rightarrow> relay_tcp env inb up auth_id (rt_idle_timeout rt) (rt_grpc_pool rt)
      | GrpcOutbound \<Rightarrow> relay_grpc env inb up auth_id (rt_idle_timeout rt) (rt_grpc_pool rt))"

definition relay_authenticated_stream :: "net_env \<Rightarrow> inbound \<Rightarrow> relay_runtime \<Rightarrow> upstream \<Rightarrow> bytes \<Rightarrow> writer relay_end option" where
  "relay_authenticated_stream env inb rt up auth_id =
     outbound_relay (from_transport (transport up)) env inb rt up auth_id"

definition handle_stream :: "crypto \<Rightarrow> net_env \<Rightarrow> inbound \<Rightarrow> relay_runtime \<Rightarrow> writer relay_end option" where
  "handle_stream c env inb rt =
     (if ne_auth_timeout env then Some (nothing_relayed (Inl Timeout) (in_writer inb) (rt_grpc_pool rt))
      else case read_exact 16 [] (in_reads inb) of
             (Inl e, _) \<Rightarrow> Some (nothing_relayed (Inl e) (in_writer inb) (rt_grpc_pool rt))
           | (Inr auth_id, rest) \<Rightarrow>
               (case match_auth_id c (ne_clock env) (rt_validator rt) auth_id of
                  None \<Rightarrow> (let _ = drain_and_close env rest in Some (nothing_relayed (Inr ()) (in_writer inb) (rt_grpc_pool rt)))
                | Some up \<Rightarrow> relay_authenticated_stream env (inb\<lparr>in_reads := rest\<rparr>) rt up auth_id))"

subsection \<open>Reading the identifier\<close>

text \<open>The bytes a stream delivers before its end or its first failure.\<close>

fun stream_bytes :: "read_event list \<Rightarrow> bytes" where
  "stream_bytes [] = []"
| "stream_bytes (ReadFailed e # evs) = []"
| "stream_bytes (ReadData d # evs) = (if d = [] then [] else d @ stream_bytes evs)"

lemma read_exact_simps [simp]:
  "n \<le> length acc \<Longrightarrow> read_exact n acc evs = (Inr acc, evs)"
  "length acc < n \<Longrightarrow> read_exact n acc [] = (Inl EarlyEof, [])"
  "length acc < n \<Longrightarrow> read_exact n acc (ReadFailed e # r) = (Inl (Foreign e), r)"
  "length acc < n \<Longrightarrow> read_exact n acc (ReadData [] # r) = (Inl EarlyEof, r)"
  "d \<noteq> [] \<Longrightarrow> length acc + length d \<le> n \<Longrightarrow> read_exact n acc (ReadData d # r) = read_exact n (acc @ d) r"
  "length acc < n \<Longrightarrow> n < length acc + length d \<Longrightarrow>
     read_exact n acc (ReadData d # r)
       = (Inr (acc @ take (n - length acc) d), ReadData (drop (n - length acc) d) # r)"
  by (auto simp: read_exact.simps [of n acc] Let_def)

lemma read_exact_ok:
  assumes "length acc \<le> n" and "n \<le> length acc + length (stream_bytes evs)"
  shows "\<exists>rest. read_exact n acc evs = (Inr (take n (acc @ stream_bytes evs)), rest)
    \<and> stream_bytes rest = drop n (acc @ stream_bytes evs)"
  using assms
proof (induction evs arbitrary: acc rule: stream_bytes.induct)
  case (3 d evs)
  consider "n \<le> length acc" | "d \<noteq> []" "length acc + length d \<le> n" | "length acc < n" "n < length acc + length d"
    using "3.prems" by (cases "d = []") (simp_all, linarith)
  then show ?case
  proof cases
    case 2
    with "3.IH" [of "acc @ d"] "3.prems" show ?thesis by simp
  qed (use "3.prems" in \<open>auto split: if_splits\<close>)
qed simp_all

lemma read_exact_short:
  "length acc + length (stream_bytes evs) < n \<Longrightarrow> \<exists>e r. read_exact n acc evs = (Inl e, r)"
proof (induction evs arbitrary: acc rule: stream_bytes.induct)
  case (3 d evs)
  then show ?case by (cases "d = []") simp_all
qed simp_all

text \<open>A stream in pieces leaves a stream in pieces that are no longer, and no more of them.\<close>

definition pieces :: "nat \<Rightarrow> bytes list \<Rightarrow> bool" where
  "pieces m ds \<longleftrightarrow> list_all (\<lambda>d. d \<noteq> [] \<and> length d \<le> m) ds"

lemma pieces_Cons [simp]: "pieces m (d # ds) \<longleftrightarrow> d \<noteq> [] \<and> length d \<le> m \<and> pieces m ds" "pieces m []"
  by (simp_all add: pieces_def)

lemma stream_bytes_pieces: "pieces m ds \<Longrightarrow> stream_bytes (map ReadData ds) = concat ds"
  by (induction ds) auto

lemma read_exact_pieces:
  "pieces m ds \<Longrightarrow> length acc \<le> n \<Longrightarrow> n \<le> length acc + length (concat ds) \<Longrightarrow>
   \<exists>ds'. read_exact n acc (map ReadData ds) = (Inr (take n (acc @ concat ds)), map ReadData ds')
     \<and> concat ds' = drop n (acc @ concat ds) \<and> pieces m ds' \<and> length ds' \<le> length ds"
proof (induction ds arbitrary: acc)
  case Nil
  then show ?case by (simp add: read_exact.simps)
next
  case (Cons d ds)
  consider "n \<le> length acc" | "length acc + length d \<le> n" | "length acc < n" "n < length acc + length d"
    by linarith
  then show ?case
  proof cases
    case 1
    with Cons.prems show ?thesis by (intro exI [of _ "d # ds"]) simp
  next
    case 2
    with Cons.prems Cons.IH [of "acc @ d"] show ?thesis by fastforce
  next
    case 3
    with Cons.prems show ?thesis by (intro exI [of _ "drop (n - length acc) d # ds"]) auto
  qed
qed

subsection \<open>Refused clients\<close>

text \<open>
  C17 (refused_client_unrelayed). A client whose stream ends or fails before sixteen bytes, is too slow,
  or sends an identifier no entry accepts gets no byte back, nothing is sent upstream for it, and
  the pool is not touched. Only the refused identifier counts as a success.
\<close>

theorem refused_client_unrelayed:
  "let bs = stream_bytes (in_reads inb);
       refused = match_auth_id c (ne_clock env) (rt_validator rt) (take 16 bs) = None
   in if ne_auth_timeout env \<or> length bs < 16 \<or> refused
      then \<exists>r. handle_stream c env inb rt = Some (nothing_relayed r (in_writer inb) (rt_grpc_pool rt))
             \<and> (is_ok r \<longleftrightarrow> \<not> ne_auth_timeout env \<and> 16 \<le> length bs)
      else \<exists>up rest. match_auth_id c (ne_clock env) (rt_validator rt) (take 16 bs) = Some up
             \<and> stream_bytes rest = drop 16 bs
             \<and> handle_stream c env inb rt = relay_authenticated_stream env (inb\<lparr>in_reads := rest\<rparr>) rt up (take 16 bs)"
proof -
  let ?bs = "stream_bytes (in_reads inb)"
  show ?thesis
  proof (cases "16 \<le> length ?bs")
    case True
    then obtain rest where "read_exact 16 [] (in_reads inb) = (Inr (take 16 ?bs), rest)" "stream_bytes rest = drop 16 ?bs"
      using read_exact_ok [of "[]" 16 "in_reads inb"] by auto
    with True show ?thesis
      by (cases "match_auth_id c (ne_clock env) (rt_validator rt) (take 16 ?bs)")
        (auto simp: handle_stream_def Let_def)
  next
    case False
    then obtain e r where "read_exact 16 [] (in_reads inb) = (Inl e, r)"
      using read_exact_short [of "[]" "in_reads inb" 16] by auto
    with False show ?thesis by (auto simp: handle_stream_def Let_def)
  qed
qed

subsection \<open>TCP relays are transparent\<close>

text \<open>
  What the relay relies on: a call of \<^verbatim>\<open>tokio::io::copy_bidirectional\<close> that succeeds has copied each
  stream, up to its end, to the writer of the other side.
\<close>

definition run_ok :: "copy_run \<Rightarrow> bool" where
  "run_ok run \<longleftrightarrow> (case cr_result run of Some (Inr _) \<Rightarrow> True | _ \<Rightarrow> False)"

definition copies_streams :: "(read_event list \<Rightarrow> writer \<Rightarrow> read_event list \<Rightarrow> writer \<Rightarrow> copy_run) \<Rightarrow> bool" where
  "copies_streams f \<longleftrightarrow> (\<forall>ra wa rb wb. run_ok (f ra wa rb wb) \<longrightarrow>
     w_out (cr_outbound (f ra wa rb wb)) = w_out wb @ stream_bytes ra
     \<and> w_out (cr_inbound (f ra wa rb wb)) = w_out wa @ stream_bytes rb)"

text \<open>The network is up: the upstream can be reached, takes the identifier, and no tick finds the copy idle.\<close>

definition tcp_up :: "net_env \<Rightarrow> upstream \<Rightarrow> nat option \<Rightarrow> bool" where
  "tcp_up env up idle \<longleftrightarrow>
     ne_tcp_connect env (parsed_addr up) = Inr () \<and> ne_set_nodelay env = Inr () \<and> \<not> ne_write_timeout env
     \<and> w_left (ne_tcp_writer env) = None
     \<and> (\<forall>ra wa rb wb. let run = ne_copy env ra wa rb wb in
          run_ok run \<and> list_all (\<lambda>i. case idle of Some t \<Rightarrow> i < t | None \<Rightarrow> True) (cr_ticks run))"

lemma copy_quiet:
  "list_all (\<lambda>i. i < t) xs \<Longrightarrow>
     copy_bidirectional_with_idle_timeout t (map CopyTick xs @ evs) = copy_bidirectional_with_idle_timeout t evs"
  by (induction xs) auto

lemma copy_streams_ok:
  assumes "run_ok run" and "list_all (\<lambda>i. case idle of Some t \<Rightarrow> i < t | None \<Rightarrow> True) (cr_ticks run)"
  shows "copy_streams idle run p = Some \<lparr>re_result = Inr (), re_pool = p, re_client = Some (cr_inbound run),
           re_upstream = Some (w_out (cr_outbound run))\<rparr>"
  using assms
  by (auto simp: copy_streams_def run_ok_def copy_events_def copy_quiet split: option.splits sum.splits)

lemma relay_tcp_copies:
  assumes "tcp_up env up idle" and "copies_streams (ne_copy env)"
  obtains w where "relay_tcp env inb up auth_id idle p
      = Some \<lparr>re_result = Inr (), re_pool = p, re_client = Some w,
              re_upstream = Some (w_out (ne_tcp_writer env) @ auth_id @ stream_bytes (in_reads inb))\<rparr>"
    "w_out w = w_out (in_writer inb) @ stream_bytes (ne_tcp_reads env)"
proof -
  let ?w = "(ne_tcp_writer env)\<lparr>w_out := w_out (ne_tcp_writer env) @ auth_id, w_flushed := False\<rparr>"
  let ?run = "ne_copy env (in_reads inb) (in_writer inb) (ne_tcp_reads env) ?w"
  have up: "run_ok ?run" "list_all (\<lambda>i. case idle of Some t \<Rightarrow> i < t | None \<Rightarrow> True) (cr_ticks ?run)"
    using assms(1) by (simp_all add: tcp_up_def Let_def)
  have "relay_tcp env inb up auth_id idle p = copy_streams idle ?run p"
    using assms(1) by (simp add: relay_tcp_def tcp_up_def)
  moreover have "w_out (cr_outbound ?run) = w_out ?w @ stream_bytes (in_reads inb)"
      "w_out (cr_inbound ?run) = w_out (in_writer inb) @ stream_bytes (ne_tcp_reads env)"
    using assms(2) up(1) by (simp_all add: copies_streams_def)
  ultimately show thesis using copy_streams_ok [OF up] that by simp
qed

lemma handle_stream_tcp:
  assumes "match_auth_id c (ne_clock env) (rt_validator rt) (take 16 (stream_bytes (in_reads inb))) = Some up"
    and "transport up = Tcp" and "16 \<le> length (stream_bytes (in_reads inb))" and "\<not> ne_auth_timeout env"
    and "tcp_up env up (rt_idle_timeout rt)" and "copies_streams (ne_copy env)"
  shows "\<exists>w. handle_stream c env inb rt
      = Some \<lparr>re_result = Inr (), re_pool = rt_grpc_pool rt, re_client = Some w,
              re_upstream = Some (w_out (ne_tcp_writer env) @ stream_bytes (in_reads inb))\<rparr>
    \<and> w_out w = w_out (in_writer inb) @ stream_bytes (ne_tcp_reads env)"
proof -
  let ?bs = "stream_bytes (in_reads inb)"
  obtain rest where rd: "read_exact 16 [] (in_reads inb) = (Inr (take 16 ?bs), rest)" "stream_bytes rest = drop 16 ?bs"
    using read_exact_ok [of "[]" 16 "in_reads inb"] assms(3) by auto
  then have "handle_stream c env inb rt
      = relay_tcp env (inb\<lparr>in_reads := rest\<rparr>) up (take 16 ?bs) (rt_idle_timeout rt) (rt_grpc_pool rt)"
    using assms(1,2,4)
    by (simp add: handle_stream_def relay_authenticated_stream_def from_transport_def outbound_relay_def)
  with relay_tcp_copies [OF assms(5,6), of "inb\<lparr>in_reads := rest\<rparr>" "take 16 ?bs" "rt_grpc_pool rt"] rd(2)
  show ?thesis by (metis append_take_drop_id inbound.select_convs(1,2) inbound.surjective inbound.update_convs(1))
qed

text \<open>
  C4 (tcp_relay_transparent). A client with an accepted identifier whose upstream is reached over TCP
  is relayed transparently: the upstream receives exactly the bytes the client sent, the sixteen
  bytes the relay looked at included, and the client exactly the bytes the upstream sent.
\<close>

theorem tcp_relay_transparent:
  assumes "match_auth_id c (ne_clock env) (rt_validator rt) (take 16 (stream_bytes (in_reads inb))) = Some up"
    and "transport up = Tcp" and "16 \<le> length (stream_bytes (in_reads inb))" and "\<not> ne_auth_timeout env"
    and "tcp_up env up (rt_idle_timeout rt)" and "copies_streams (ne_copy env)"
  shows "\<exists>w. handle_stream c env inb rt
      = Some \<lparr>re_result = Inr (), re_pool = rt_grpc_pool rt, re_client = Some w,
              re_upstream = Some (w_out (ne_tcp_writer env) @ stream_bytes (in_reads inb))\<rparr>
    \<and> w_out w = w_out (in_writer inb) @ stream_bytes (ne_tcp_reads env)"
  using assms by (rule handle_stream_tcp)

subsection \<open>gRPC relays are transparent\<close>

definition both_end :: "nat option \<Rightarrow> turn list \<Rightarrow> bool" where
  "both_end idle ts \<longleftrightarrow> Turn1 \<in> set ts \<and> Turn2 \<in> set ts
     \<and> list_all (\<lambda>t. case (t, idle) of (TurnTick i, Some t) \<Rightarrow> i < t | _ \<Rightarrow> True) ts"

lemma wait_events_simps [simp]:
  "wait_events (Some r1) (Some r2) [] = []"
  "wait_events (Some r1) (Some r2) (t # ts)
     = (case t of Turn1 \<Rightarrow> Done1 (join_of r1) | Turn2 \<Rightarrow> Done2 (join_of r2) | TurnTick i \<Rightarrow> Tick i)
       # wait_events (Some r1) (Some r2) ts"
  by (simp_all add: wait_events_def turn_event_def List.map_filter_simps split: turn.split)

lemma wait_events_first:
  "first_done done1 (wait_events (Some r1) (Some r2) ts) = (if Turn1 \<in> set ts then Some (join_of r1) else None)"
  "first_done done2 (wait_events (Some r1) (Some r2) ts) = (if Turn2 \<in> set ts then Some (join_of r2) else None)"
  by (induction ts) (auto simp: done1_def done2_def split: turn.split)

lemma wait_events_quiet:
  "list_all (\<lambda>t. case (t, Some k) of (TurnTick i, Some t) \<Rightarrow> i < t | _ \<Rightarrow> True) ts \<Longrightarrow>
     list_all (quiet_tick k) (wait_events (Some r1) (Some r2) ts)"
  by (induction ts) (auto simp: quiet_tick_def split: turn.splits)

lemma both_end_wait:
  "both_end idle ts \<Longrightarrow> wait_grpc_relay (idle \<noteq> None) idle ab1 ab2 (wait_events (Some r1) (Some r2) ts)
     = Some (join_of r1, join_of r2)"
  by (cases idle)
    (auto simp: both_end_def wait_grpc_relay_def join_loop_result wait_loop_quiet wait_events_quiet wait_events_first)

lemma relay_tasks_both_end:
  "both_end idle (ne_turns env) \<Longrightarrow> relay_tasks wait_grpc_relay env (Some (Inr (), s, a)) (Some (Inr (), w, b)) up sni idle p
     = Some \<lparr>re_result = Inr (), re_pool = p, re_client = Some w, re_upstream = Some (sent_bytes s)\<rparr>"
  by (simp add: relay_tasks_def Let_def both_end_wait join_of_def evict_on_error_def del: not_None_eq)


lemma capacity_for_mono: "capacity_for s n \<Longrightarrow> m \<le> n \<Longrightarrow> capacity_for s m"
  by (simp add: capacity_for_def)

lemma encode_overhead: "length (encode_grpc_frame d) \<le> 16 + length d"
  using varint_size_le_10 [of "of_nat (length d)"] by (simp add: frame_outer_len_def)

lemma encode_all_overhead: "length (concat (map encode_grpc_frame ds)) \<le> 16 * length ds + length (concat ds)"
proof (induction ds)
  case (Cons d ds)
  with encode_overhead [of d] show ?case by simp
qed simp

lemma pieces_small: "pieces RAW_TO_GRPC_READ_BUF_SIZE ds \<Longrightarrow> list_all small_payload ds \<and> [] \<notin> set ds"
  by (auto simp: pieces_def list_all_iff read_buf_small)

lemma deframe_payloads:
  assumes "list_all small_payload ds"
  shows "snd (deframe (concat (map encode_grpc_frame ds))) = None"
    and "concat (map frame_payload (fst (deframe (concat (map encode_grpc_frame ds))))) = concat ds"
  using deframe_encode [OF assms] encoded_payloads(2) [OF assms] by simp_all

lemma handle_stream_grpc:
  assumes "match_auth_id c (ne_clock env) (rt_validator rt) (take 16 (concat ds)) = Some up"
    and "transport up = Grpc service sni u" and "\<not> ne_auth_timeout env"
    and "in_reads inb = map ReadData ds" and "pieces RAW_TO_GRPC_READ_BUF_SIZE ds" and "16 \<le> length (concat ds)"
    and "open_grpc_tunnel env up (rt_grpc_pool rt) = (Inr tn, p)" and "ss_sent (tn_send_stream tn) = []"
    and "capacity_for (tn_send_stream tn) (length (concat ds) + 16 * (length ds + 1))"
    and "ne_response env = Inr (map Chunk cs)" and "concat cs = concat (map encode_grpc_frame rs)"
    and "list_all small_payload rs" and "w_left (in_writer inb) = None"
    and "both_end (rt_idle_timeout rt) (ne_turns env)"
  shows "\<exists>bs. handle_stream c env inb rt
      = Some \<lparr>re_result = Inr (), re_pool = p,
              re_client = Some ((in_writer inb)\<lparr>w_out := w_out (in_writer inb) @ concat rs,
                                                w_flushed := True, w_shutdown := True\<rparr>),
              re_upstream = Some bs\<rparr>
    \<and> snd (deframe bs) = None \<and> concat (map frame_payload (fst (deframe bs))) = concat ds"
proof -
  let ?auth = "take 16 (concat ds)" and ?idle = "rt_idle_timeout rt"
  obtain ds' where rd: "read_exact 16 [] (map ReadData ds) = (Inr ?auth, map ReadData ds')"
      "concat ds' = drop 16 (concat ds)" "pieces RAW_TO_GRPC_READ_BUF_SIZE ds'" "length ds' \<le> length ds"
    using read_exact_pieces [OF assms(5), of "[]" 16] assms(6) by auto
  let ?rest = "concat (map encode_grpc_frame ds')"
  have "length (encode_grpc_frame ?auth) + length ?rest \<le> length (concat ds) + 16 * (length ds + 1)"
    using encode_overhead [of ?auth] encode_all_overhead [of ds'] rd(2,4) assms(6)
    by (simp del: length_encode_grpc_frame)
  from send_grpc_data_returns [OF capacity_for_mono [OF assms(9) this], of False] obtain s1 where
    s1: "send_grpc_data (tn_send_stream tn) (encode_grpc_frame ?auth) False = Some (Inr (), s1)" "capacity_for s1 (length ?rest)"
    by auto
  obtain s2 a2 where s2: "raw_to_grpc_with_activity (map ReadData ds') s1 (activity_of ?idle) = Some (Inr (), s2, a2)"
      "sent_bytes s2 = sent_bytes s1 @ ?rest"
    using raw_to_grpc_returns [OF s1(2)] pieces_small [OF rd(3)] by blast
  have small: "list_all small_payload (?auth # ds')"
    using pieces_small [OF rd(3)] read_buf_small [of ?auth] by (simp add: RAW_TO_GRPC_READ_BUF_SIZE_def)
  have sent: "sent_bytes s2 = concat (map encode_grpc_frame (?auth # ds'))"
    using send_grpc_data_bytes [OF s1(1)] s2(2) assms(8) by (simp add: sent_bytes_def)
  obtain b where "grpc_to_raw_with_activity (frame_reader_new (map Chunk cs)) (in_writer inb) (activity_of ?idle)
      = (Inr (), (in_writer inb)\<lparr>w_out := w_out (in_writer inb) @ concat rs, w_flushed := True, w_shutdown := True\<rparr>, b)"
    using grpc_to_raw_of_encoded [OF assms(12,11,13)] by blast
  then have "handle_stream c env inb rt
      = Some \<lparr>re_result = Inr (), re_pool = p,
              re_client = Some ((in_writer inb)\<lparr>w_out := w_out (in_writer inb) @ concat rs,
                                                w_flushed := True, w_shutdown := True\<rparr>),
              re_upstream = Some (sent_bytes s2)\<rparr>"
    using assms(1-4,7,10,14) rd(1) s1(1) s2(1)
    by (simp add: handle_stream_def relay_authenticated_stream_def from_transport_def outbound_relay_def
        relay_grpc_def Let_def relay_tasks_both_end)
  with deframe_payloads [OF small] sent rd(2) show ?thesis by simp
qed

text \<open>
  C2 (grpc_relay_transparent). A client with an accepted identifier whose upstream speaks gRPC is
  relayed transparently: once a tunnel is open and the tasks are given time to end, the payloads of
  the frames sent upstream are exactly the bytes the client sent, the sixteen bytes the relay
  looked at included, the client receives exactly the payloads of the upstream's frames, and its
  socket is flushed and shut down.
\<close>

theorem grpc_relay_transparent:
  assumes "match_auth_id c (ne_clock env) (rt_validator rt) (take 16 (concat ds)) = Some up"
    and "transport up = Grpc service sni u" and "\<not> ne_auth_timeout env"
    and "in_reads inb = map ReadData ds" and "pieces RAW_TO_GRPC_READ_BUF_SIZE ds" and "16 \<le> length (concat ds)"
    and "open_grpc_tunnel env up (rt_grpc_pool rt) = (Inr tn, p)" and "ss_sent (tn_send_stream tn) = []"
    and "capacity_for (tn_send_stream tn) (length (concat ds) + 16 * (length ds + 1))"
    and "ne_response env = Inr (map Chunk cs)" and "concat cs = concat (map encode_grpc_frame rs)"
    and "list_all small_payload rs" and "w_left (in_writer inb) = None"
    and "both_end (rt_idle_timeout rt) (ne_turns env)"
  shows "\<exists>bs. handle_stream c env inb rt
      = Some \<lparr>re_result = Inr (), re_pool = p,
              re_client = Some ((in_writer inb)\<lparr>w_out := w_out (in_writer inb) @ concat rs,
                                                w_flushed := True, w_shutdown := True\<rparr>),
              re_upstream = Some bs\<rparr>
    \<and> snd (deframe bs) = None \<and> concat (map frame_payload (fst (deframe bs))) = concat ds"
  using assms by (rule handle_stream_grpc)

definition grpc_upstream :: upstream where
  "grpc_upstream = sample_upstream\<lparr>transport := Grpc ''GunService'' ''example.org'' ''https://example.org/GunService/Tun''\<rparr>"

definition sample_auth :: bytes where
  "sample_auth = be_of_nat 8 1100 @ [1, 2, 3, 4] @ be_of_nat 4 5"

lemma length_sample_auth [simp]: "length sample_auth = 16"
  by (simp add: sample_auth_def)

lemma sample_auth_matches:
  obtains v where "match_auth_id toy_crypto 1000 v sample_auth = Some up"
proof -
  obtain b where b: "parse_uuid sample_uuid = Inr b" using parse_sample_uuid by blast
  have acc: "uuid_accepts toy_crypto 1000 sample_auth sample_uuid"
    by (simp add: uuid_accepts_def from_uuid_eq b verify_def toy_crypto_def nat_of_be_of_nat abs_diff_def sample_auth_def)
  obtain v where "validator_new toy_crypto [(sample_uuid, up)] = Inr v"
    by (simp add: validator_new_def from_uuid_eq b)
  from match_auth_id_new [OF this, of 1000 sample_auth] acc show thesis by (intro that [of v]) simp
qed

definition sample_copy :: "read_event list \<Rightarrow> writer \<Rightarrow> read_event list \<Rightarrow> writer \<Rightarrow> copy_run" where
  "sample_copy ra wa rb wb = \<lparr>cr_ticks = [5], cr_result = Some (Inr (length (stream_bytes ra), length (stream_bytes rb))),
     cr_inbound = wa\<lparr>w_out := w_out wa @ stream_bytes rb\<rparr>, cr_outbound = wb\<lparr>w_out := w_out wb @ stream_bytes ra\<rparr>\<rparr>"

definition sample_net :: net_env where
  "sample_net = \<lparr>ne_now = 0, ne_clock = 1000, ne_auth_timeout = False, ne_drain_timeout = False, ne_drain_len = 64,
     ne_tcp_connect = (\<lambda>_. Inr ()), ne_set_nodelay = Inr (), ne_tcp_writer = sample_writer,
     ne_tcp_reads = [ReadData [7], ReadData [8]], ne_write_timeout = False, ne_copy = sample_copy,
     ne_connector = good_connector, ne_ready = (\<lambda>c. c \<noteq> 1),
     ne_send_request = (\<lambda>_ _. Inr \<lparr>ss_caps = replicate 100 (Capacity 3 None), ss_end_err = None, ss_sent = []\<rparr>),
     ne_response = Inr [Chunk (encode_grpc_frame [7, 8])], ne_turns = [Turn2, TurnTick 3, Turn1],
     ne_ended1 = False, ne_ended2 = False\<rparr>"

definition sample_inbound :: inbound where
  "sample_inbound = \<lparr>in_reads = map ReadData [sample_auth, [1, 2]], in_writer = sample_writer\<rparr>"

theorem tcp_relay_transparent_witness:
  "\<exists>v w. handle_stream toy_crypto sample_net sample_inbound (relay_runtime_new v (grpc_pool_new None) (Some 10))
      = Some \<lparr>re_result = Inr (), re_pool = grpc_pool_new None, re_client = Some w,
              re_upstream = Some (sample_auth @ [1, 2])\<rparr> \<and> w_out w = [7, 8]"
proof -
  obtain v where v: "match_auth_id toy_crypto 1000 v sample_auth = Some sample_upstream"
    using sample_auth_matches .
  let ?rt = "relay_runtime_new v (grpc_pool_new None) (Some 10)"
  have ne: "sample_auth \<noteq> []" using length_sample_auth by (metis list.size(3) zero_neq_numeral)
  have bs: "stream_bytes (in_reads sample_inbound) = sample_auth @ [1, 2]"
    using ne by (simp add: sample_inbound_def)
  have "tcp_up sample_net sample_upstream (rt_idle_timeout ?rt)"
    by (simp add: tcp_up_def sample_net_def sample_copy_def run_ok_def relay_runtime_new_def sample_writer_def)
  moreover have "copies_streams (ne_copy sample_net)"
    by (simp add: copies_streams_def sample_net_def sample_copy_def)
  ultimately show ?thesis
    using tcp_relay_transparent [of toy_crypto sample_net ?rt sample_inbound sample_upstream] v bs
    by (auto simp: sample_net_def relay_runtime_new_def sample_upstream_def sample_inbound_def sample_writer_def)
qed

lemma open_grpc_tunnel_reconnects:
  assumes "transport up = Grpc service sni u"
    and "get_or_create (ne_connector env) p (addr up) sni (ne_now env) = (Inr c, p1)" and "\<not> ne_ready env c"
    and "get_or_create (ne_connector env) (evict p1 (addr up) sni) (addr up) sni (ne_now env) = (Inr c2, p2)"
  shows "open_grpc_tunnel env up p
    = (if ne_ready env c2 then send_tunnel_request env service sni u c2 p2 else (Inl NotReadyAfterReconnect, p2))"
  using assms by (simp add: open_grpc_tunnel_def)

text \<open>
  C25 (dead_connection_replaced). When the pooled connection of an endpoint turns out to be dead, the
  tunnel is opened on a connection made anew, with a new id, and it is this connection that later
  requests reuse; when the new connection is not ready either, no third one is tried and no request
  is sent.
\<close>

theorem dead_connection_replaced:
  assumes "transport up = Grpc service sni u"
    and "get_or_create (ne_connector env) p (addr up) sni (ne_now env) = (Inr c, p1)" and "\<not> ne_ready env c"
    and "endpoint_free (addr up) sni p1"
    and "connect_h2 (ne_connector env) (addr up) sni (gp_next_conn_id p1) = Inr c2"
  shows "c2 = gp_next_conn_id p1
    \<and> (if \<not> ne_ready env c2 then fst (open_grpc_tunnel env up p) = Inl NotReadyAfterReconnect
       else case ne_send_request env c2 u of
              Inl e \<Rightarrow> fst (open_grpc_tunnel env up p) = Inl e
            | Inr s \<Rightarrow> fst (open_grpc_tunnel env up p)
                  = Inr \<lparr>tn_service_name = service, tn_tls_sni = sni, tn_conn = c2, tn_send_stream = s\<rparr>
                \<and> fst (get_or_create cn (snd (open_grpc_tunnel env up p)) (addr up) sni now) = Inr c2)"
proof -
  obtain p2 where p2: "get_or_create (ne_connector env) (evict p1 (addr up) sni) (addr up) sni (ne_now env) = (Inr c2, p2)"
    using endpoint.replaced [OF assms(4,5)] by blast
  then have "fst (get_or_create cn p2 (addr up) sni now) = Inr c2" by (rule get_or_create_reuses)
  with open_grpc_tunnel_reconnects [OF assms(1-3) p2] connect_h2_id [OF assms(5)] show ?thesis
    by (auto simp: send_tunnel_request_def split: sum.split)
qed

text \<open>The sample network declares connection 1 dead.\<close>

lemma sample_first_connection:
  obtains p1 where "get_or_create good_connector (grpc_pool_new None) h sni 0 = (Inr 1, p1)"
    "endpoint_free h sni p1" "gp_next_conn_id p1 = 2"
  by (simp add: endpoint_free_def get_or_create_def slot_entry_def grpc_pool_new_def lock_slot_def empty_slot_def Let_def
      good_connector_fresh(1) finish_connect_def set_slot_def)

theorem dead_connection_replaced_witness:
  "\<exists>s. fst (open_grpc_tunnel sample_net grpc_upstream (grpc_pool_new None))
      = Inr \<lparr>tn_service_name = ''GunService'', tn_tls_sni = ''example.org'', tn_conn = 2, tn_send_stream = s\<rparr>"
proof -
  let ?h = "addr grpc_upstream" and ?sni = "''example.org''"
  obtain p1 where p1: "get_or_create good_connector (grpc_pool_new None) ?h ?sni 0 = (Inr 1, p1)"
      "endpoint_free ?h ?sni p1" "gp_next_conn_id p1 = 2"
    using sample_first_connection .
  then show ?thesis
    using dead_connection_replaced [of grpc_upstream "''GunService''" ?sni "''https://example.org/GunService/Tun''"
        sample_net "grpc_pool_new None" 1 p1 2]
    by (simp add: sample_net_def grpc_upstream_def good_connector_fresh)
qed

lemma sample_tunnel:
  obtains tn p where "open_grpc_tunnel sample_net grpc_upstream (grpc_pool_new None) = (Inr tn, p)"
    "ss_sent (tn_send_stream tn) = []" "capacity_for (tn_send_stream tn) 100"
proof -
  let ?h = "addr grpc_upstream" and ?sni = "''example.org''" and ?u = "''https://example.org/GunService/Tun''"
  obtain p1 where p1: "get_or_create good_connector (grpc_pool_new None) ?h ?sni 0 = (Inr 1, p1)"
      "endpoint_free ?h ?sni p1" "gp_next_conn_id p1 = 2"
    using sample_first_connection .
  obtain s where s: "ne_send_request sample_net 2 ?u = Inr s" "ss_sent s = []" "ss_caps s = replicate 100 (Capacity 3 None)"
    by (simp add: sample_net_def)
  obtain p2 where "get_or_create good_connector (evict p1 ?h ?sni) ?h ?sni 0 = (Inr 2, p2)"
    using endpoint.replaced [OF p1(2), of good_connector 2 0] p1(3) by (auto simp: good_connector_fresh)
  then have "open_grpc_tunnel sample_net grpc_upstream (grpc_pool_new None)
      = (Inr \<lparr>tn_service_name = ''GunService'', tn_tls_sni = ?sni, tn_conn = 2, tn_send_stream = s\<rparr>, p2)"
    using open_grpc_tunnel_reconnects [of grpc_upstream "''GunService''" ?sni ?u sample_net "grpc_pool_new None" 1 p1 2 p2]
      p1(1) s(1) by (simp add: sample_net_def grpc_upstream_def send_tunnel_request_def)
  moreover have "capacity_for s 100" using s(3) by (simp add: capacity_for_def list_all_iff grants_def)
  ultimately show thesis using s(2) that by (metis grpc_tunnel.select_convs(4))
qed

theorem grpc_relay_transparent_witness:
  "\<exists>v p bs w. handle_stream toy_crypto sample_net sample_inbound (relay_runtime_new v (grpc_pool_new None) (Some 10))
      = Some \<lparr>re_result = Inr (), re_pool = p, re_client = Some w, re_upstream = Some bs\<rparr>
    \<and> w_out w = [7, 8] \<and> concat (map frame_payload (fst (deframe bs))) = sample_auth @ [1, 2]"
proof -
  obtain v where v: "match_auth_id toy_crypto 1000 v sample_auth = Some grpc_upstream"
    using sample_auth_matches .
  let ?rt = "relay_runtime_new v (grpc_pool_new None) (Some 10)"
  have ne: "sample_auth \<noteq> []" using length_sample_auth by (metis list.size(3) zero_neq_numeral)
  obtain tn p where tn: "open_grpc_tunnel sample_net grpc_upstream (grpc_pool_new None) = (Inr tn, p)"
      "ss_sent (tn_send_stream tn) = []" "capacity_for (tn_send_stream tn) 100"
    using sample_tunnel .
  have "capacity_for (tn_send_stream tn) (length (concat [sample_auth, [1, 2]]) + 16 * (length [sample_auth, [1, 2]] + 1))"
    using capacity_for_mono [OF tn(3)] by simp
  moreover have "small_payload [7, 8]" by (rule read_buf_small) (simp add: RAW_TO_GRPC_READ_BUF_SIZE_def)
  ultimately have "\<exists>bs w. handle_stream toy_crypto sample_net sample_inbound ?rt
      = Some \<lparr>re_result = Inr (), re_pool = p, re_client = Some w, re_upstream = Some bs\<rparr>
    \<and> w_out w = [7, 8] \<and> concat (map frame_payload (fst (deframe bs))) = sample_auth @ [1, 2]"
    using grpc_relay_transparent [of toy_crypto sample_net ?rt "[sample_auth, [1, 2]]" grpc_upstream "''GunService''"
        "''example.org''" "''https://example.org/GunService/Tun''" sample_inbound tn
        p "[encode_grpc_frame [7, 8]]" "[[7, 8]]"] v ne tn(1,2)
    by (auto simp: sample_net_def relay_runtime_new_def grpc_upstream_def sample_inbound_def sample_writer_def
        RAW_TO_GRPC_READ_BUF_SIZE_def both_end_def)
  then show ?thesis by blast
qed

end
