(* ===== verification/Grpc_Inbound.thy ===== *)
theory Grpc_Inbound
  imports Relay_Core
begin

text \<open>
  The gRPC listener of \<^verbatim>\<open>src/relay/inbound/grpc.rs\<close>: checking a request, reading the identifier from
  the first frames, and the two ways to the upstream. For a gRPC upstream the frames are forwarded as
  they are; for a TCP upstream they are decoded into a pipe, relayed by the core, and the answer
  is encoded again. A \<^verbatim>\<open>tokio::io::duplex\<close> pipe delivers the bytes written to it in pieces the
  environment chooses. A panic of the decoder ends the task it happens in: in the request handler it
  is the outcome \<open>Panic\<close>, in a spawned task it is seen through the join handle. The accept loops are
  modelled in \<open>Listeners\<close>.

  The lemmas show that a refused request leaves no trace upstream, that the client gets exactly the
  upstream's answer both ways, and that the upstream gets exactly the client's bytes, unless it is
  reached over TCP and closes its side first: then it has a prefix. They also show that a client
  without an accepted identifier can make the handler of its request panic.
\<close>

subsection \<open>Definitions: requests\<close>

record grpc_request =
  gr_method :: string
  gr_path :: string
  gr_content_type :: "string option" \<comment> \<open>the header, if it is visible text\<close>
  gr_body :: "recv_event list"

text \<open>The order in which the three tasks of \<^verbatim>\<open>relay_grpc_via_core\<close> end.\<close>

datatype core_turn = DecodeEnds | EncodeEnds | RelayEnds

record grpc_in_env =
  gi_net :: net_env
  gi_respond :: "h2_error + send_stream" \<comment> \<open>the answer to \<^verbatim>\<open>send_response\<close>\<close>
  gi_late :: "frame_reader \<Rightarrow> frame_reader" \<comment> \<open>the reader when the time for the identifier is over\<close>
  gi_pipe_left :: "nat option" \<comment> \<open>how many writes to the pipe succeed, all of them for \<open>None\<close>\<close>
  gi_cut :: "bytes \<Rightarrow> bytes list" \<comment> \<open>the pieces a pipe delivers\<close>
  gi_core_turns :: "core_turn list"
  gi_handed :: nat \<comment> \<open>how many bytes the upstream has when the relay is aborted\<close>

definition validate_request :: "grpc_request \<Rightarrow> string \<Rightarrow> nat + unit" where
  "validate_request rq service =
     (if gr_method rq \<noteq> ''POST'' then Inl 405
      else if gr_path rq \<noteq> ''/'' @ service @ ''/Tun'' then Inl 404
      else if \<not> starts_with (case gr_content_type rq of None \<Rightarrow> '''' | Some ct \<Rightarrow> ct) ''application/grpc'' then Inl 415
      else Inr ())"

subsection \<open>Definitions: reading the identifier\<close>

function read_initial_auth :: "frame_reader \<Rightarrow> bytes list \<Rightarrow> bytes
    \<Rightarrow> (bytes list \<times> bytes) result \<times> frame_reader" where
  "read_initial_auth r cached_frames initial_raw =
     (if 16 \<le> length initial_raw then (Inr (cached_frames, take 16 initial_raw), r)
      else case next_frame r of
             (Inl e, r') \<Rightarrow> (Inl e, r')
           | (Inr None, r') \<Rightarrow> (Inl EarlyEof, r')
           | (Inr (Some frame), r') \<Rightarrow>
               (case decode_grpc_frame_data frame of
                  Inl e \<Rightarrow> (Inl e, r')
                | Inr None \<Rightarrow> read_initial_auth r' (cached_frames @ [frame]) initial_raw
                | Inr (Some data) \<Rightarrow> read_initial_auth r' (cached_frames @ [frame]) (initial_raw @ data)))"
  by pat_completeness auto
termination
  by (relation "measure (\<lambda>(r, c, i). length (pending_bytes r))") (auto dest!: next_frame_shrinks)

function drain_loop :: "nat \<Rightarrow> nat \<Rightarrow> frame_reader \<Rightarrow> unit result" where
  "drain_loop drain_len drained r =
     (if drained < drain_len then
        (case next_frame r of
           (Inr (Some frame), r') \<Rightarrow>
             (case decode_grpc_frame_data frame of
                Inl e \<Rightarrow> Inl e
              | Inr None \<Rightarrow> drain_loop drain_len drained r'
              | Inr (Some data) \<Rightarrow> drain_loop drain_len (drained + length data) r')
         | _ \<Rightarrow> Inr ())
      else Inr ())"
  by pat_completeness auto
termination
  by (relation "measure (\<lambda>(n, d, r). length (pending_bytes r))") (auto dest!: next_frame_shrinks)

declare read_initial_auth.simps [simp del] drain_loop.simps [simp del]

definition drain_grpc_request :: "net_env \<Rightarrow> frame_reader \<Rightarrow> unit result" where
  "drain_grpc_request env r =
     (if ne_drain_timeout env then Inr () else drain_loop (ne_drain_len env) 0 r)"

text \<open>The three identical branches of \<^verbatim>\<open>relay_request\<close>: drain, then end the response without data.\<close>

definition refuse :: "net_env \<Rightarrow> frame_reader \<Rightarrow> send_stream \<Rightarrow> grpc_pool \<Rightarrow> send_stream relay_end option" where
  "refuse env r response p =
     (case drain_grpc_request env r of
        Inl e \<Rightarrow> Some (nothing_relayed (Inl e) response p)
      | Inr _ \<Rightarrow> map_option (\<lambda>x. nothing_relayed (Inr ()) (snd x) p) (send_grpc_data response [] True))"

subsection \<open>Definitions: gRPC to gRPC\<close>

fun send_frames :: "send_stream \<Rightarrow> bytes list \<Rightarrow> activity \<Rightarrow> (unit result \<times> send_stream \<times> activity) option" where
  "send_frames s [] a = Some (Inr (), s, a)"
| "send_frames s (frame # frames) a =
     (case send_grpc_data s frame False of
        None \<Rightarrow> None
      | Some (Inl e, s') \<Rightarrow> Some (Inl e, s', a)
      | Some (Inr _, s') \<Rightarrow> send_frames s' frames (mark a))"

definition relay_grpc_to_grpc_fast :: "net_env \<Rightarrow> frame_reader \<Rightarrow> bytes list \<Rightarrow> send_stream \<Rightarrow> upstream
    \<Rightarrow> relay_runtime \<Rightarrow> send_stream relay_end option" where
  "relay_grpc_to_grpc_fast env r cached_frames response up rt =
     (case open_grpc_tunnel env up (rt_grpc_pool rt) of
        (Inl e, p1) \<Rightarrow> Some (nothing_relayed (Inl e) response p1)
      | (Inr tn, p1) \<Rightarrow>
          (let idle = rt_idle_timeout rt in
           case send_frames (tn_send_stream tn) cached_frames (activity_of idle) of
             None \<Rightarrow> None
           | Some (Inl e, s, _) \<Rightarrow> Some ((nothing_relayed (Inl e) response p1)\<lparr>re_upstream := Some (sent_bytes s)\<rparr>)
           | Some (Inr _, s, a) \<Rightarrow>
               (let t1 = grpc_frames_to_grpc_with_activity r s a in
                case ne_response env of
                  Inl e \<Rightarrow>
                    (let f = response_headers_failed e (addr up) (tn_tls_sni tn) (pool_after_send env t1 up (tn_tls_sni tn) p1)
                     in Some ((nothing_relayed (fst f) response (snd f))\<lparr>re_upstream := None\<rparr>))
                | Inr body \<Rightarrow>
                    relay_tasks wait_grpc_fast_relay env t1
                      (grpc_frames_to_grpc_with_activity (frame_reader_new body) response a)
                      up (tn_tls_sni tn) idle p1)))"

subsection \<open>Definitions: gRPC to TCP through the core\<close>

definition skip_auth_id_bytes :: "bytes \<Rightarrow> nat \<Rightarrow> bytes \<times> nat" where
  "skip_auth_id_bytes data skip = (let n = min skip (length data) in (drop n data, skip - n))"

text \<open>What the decoding task does with one frame.\<close>

definition decode_frame :: "bytes \<Rightarrow> nat \<Rightarrow> writer \<Rightarrow> unit result \<times> nat \<times> writer" where
  "decode_frame frame skip w =
     (case decode_grpc_frame_data frame of
        Inl e \<Rightarrow> (Inl e, skip, w)
      | Inr None \<Rightarrow> (Inr (), skip, w)
      | Inr (Some data) \<Rightarrow>
          (let d = skip_auth_id_bytes data skip in
           if fst d = [] then (Inr (), snd d, w)
           else case write_all w (fst d) of (res, w') \<Rightarrow> (res, snd d, w')))"

fun decode_cached :: "bytes list \<Rightarrow> nat \<Rightarrow> writer \<Rightarrow> unit result \<times> nat \<times> writer" where
  "decode_cached [] skip w = (Inr (), skip, w)"
| "decode_cached (frame # frames) skip w =
     (case decode_frame frame skip w of
        (Inl e, skip', w') \<Rightarrow> (Inl e, skip', w')
      | (Inr _, skip', w') \<Rightarrow> decode_cached frames skip' w')"

function decode_rest :: "frame_reader \<Rightarrow> nat \<Rightarrow> writer \<Rightarrow> unit result \<times> writer" where
  "decode_rest r skip w =
     (case next_frame r of
        (Inl e, r') \<Rightarrow> (Inl e, w)
      | (Inr None, r') \<Rightarrow> (Inr (), w)
      | (Inr (Some frame), r') \<Rightarrow>
          (case decode_frame frame skip w of
             (Inl e, skip', w') \<Rightarrow> (Inl e, w')
           | (Inr _, skip', w') \<Rightarrow> decode_rest r' skip' w'))"
  by pat_completeness auto
termination
  by (relation "measure (\<lambda>(r, s, w). length (pending_bytes r))") (auto dest!: next_frame_shrinks)

declare decode_rest.simps [simp del]

definition decode_task :: "frame_reader \<Rightarrow> bytes list \<Rightarrow> writer \<Rightarrow> unit result \<times> writer" where
  "decode_task r cached_frames w =
     (case decode_cached cached_frames 16 w of
        (Inl e, _, w') \<Rightarrow> (Inl e, w')
      | (Inr _, skip, w') \<Rightarrow> decode_rest r skip w')"

definition decode_result_to_result :: "join_result \<Rightarrow> unit result" where
  "decode_result_to_result j =
     (case j of Joined r \<Rightarrow> r | Cancelled \<Rightarrow> Inl JoinCancelled | Panicked \<Rightarrow> Inl JoinPanicked)"

definition relay_result_to_result :: "join_result \<Rightarrow> unit result" where
  "relay_result_to_result j =
     (case j of Joined r \<Rightarrow> r | Cancelled \<Rightarrow> Inr () | Panicked \<Rightarrow> Inl JoinPanicked)"

text \<open>
  The nested \<^verbatim>\<open>select!\<close>: the result, and whether the relay and the encoder ran to their ends. A task that
  blocks for ever (\<open>None\<close>) has no turn. When the encoder is the first to end, the tasks that decode and relay
  are aborted.
\<close>

definition await_encode :: "core_turn list \<Rightarrow> unit result option \<Rightarrow> (unit result \<times> bool \<times> bool) option" where
  "await_encode ts enc =
     (case enc of Some e \<Rightarrow> if EncodeEnds \<in> set ts then Some (e, True, True) else None | None \<Rightarrow> None)"

fun select_after_decode :: "core_turn list \<Rightarrow> unit result option \<Rightarrow> join_result option
    \<Rightarrow> (unit result \<times> bool \<times> bool) option" where
  "select_after_decode [] enc rel = None"
| "select_after_decode (t # ts) enc rel =
     (case t of
        DecodeEnds \<Rightarrow> select_after_decode ts enc rel
      | EncodeEnds \<Rightarrow> (case enc of Some e \<Rightarrow> Some (e, False, True) | None \<Rightarrow> select_after_decode ts enc rel)
      | RelayEnds \<Rightarrow>
          (case rel of
             None \<Rightarrow> select_after_decode ts enc rel
           | Some j \<Rightarrow>
               (case relay_result_to_result j of
                  Inr _ \<Rightarrow> await_encode ts enc
                | Inl e \<Rightarrow> Some (Inl e, True, False))))"

fun core_select :: "core_turn list \<Rightarrow> join_result \<Rightarrow> unit result option \<Rightarrow> join_result option
    \<Rightarrow> (unit result \<times> bool \<times> bool) option" where
  "core_select [] dec enc rel = None"
| "core_select (t # ts) dec enc rel =
     (case t of
        DecodeEnds \<Rightarrow>
          (case decode_result_to_result dec of
             Inr _ \<Rightarrow> select_after_decode ts enc rel
           | Inl e \<Rightarrow> Some (Inl e, False, False))
      | EncodeEnds \<Rightarrow> (case enc of Some e \<Rightarrow> Some (e, False, True) | None \<Rightarrow> core_select ts dec enc rel)
      | RelayEnds \<Rightarrow>
          (case rel of
             None \<Rightarrow> core_select ts dec enc rel
           | Some j \<Rightarrow>
               (case relay_result_to_result j of
                  Inr _ \<Rightarrow> await_encode ts enc
                | Inl e \<Rightarrow> Some (Inl e, True, False))))"

text \<open>
  \<^verbatim>\<open>SplitDuplex\<close>: reads go to one pipe, everything else to the other. The calls of a pipe are
  parameters, functions that answer and change the pipe.
\<close>

record 'd split_duplex =
  sd_reader :: 'd
  sd_writer :: 'd

definition split_poll_read :: "('d \<Rightarrow> 'r \<times> 'd) \<Rightarrow> 'd split_duplex \<Rightarrow> 'r \<times> 'd split_duplex" where
  "split_poll_read poll_read s = (case poll_read (sd_reader s) of (r, d) \<Rightarrow> (r, s\<lparr>sd_reader := d\<rparr>))"

definition split_poll_write :: "('d \<Rightarrow> 'r \<times> 'd) \<Rightarrow> 'd split_duplex \<Rightarrow> 'r \<times> 'd split_duplex" where
  "split_poll_write poll_write s = (case poll_write (sd_writer s) of (r, d) \<Rightarrow> (r, s\<lparr>sd_writer := d\<rparr>))"

definition split_poll_flush :: "('d \<Rightarrow> 'r \<times> 'd) \<Rightarrow> 'd split_duplex \<Rightarrow> 'r \<times> 'd split_duplex" where
  "split_poll_flush poll_flush s = (case poll_flush (sd_writer s) of (r, d) \<Rightarrow> (r, s\<lparr>sd_writer := d\<rparr>))"

definition split_poll_shutdown :: "('d \<Rightarrow> 'r \<times> 'd) \<Rightarrow> 'd split_duplex \<Rightarrow> 'r \<times> 'd split_duplex" where
  "split_poll_shutdown poll_shutdown s = (case poll_shutdown (sd_writer s) of (r, d) \<Rightarrow> (r, s\<lparr>sd_writer := d\<rparr>))"

text \<open>
  So the relay's stream is a pair of a source and a sink, \<open>inbound\<close>. An aborted relay has handed a prefix of
  its bytes to the upstream, as long as the environment says.
\<close>

definition pipe :: "nat option \<Rightarrow> writer" where
  "pipe left = \<lparr>w_out = [], w_left = left, w_flushed = False, w_shutdown = False\<rparr>"

definition relay_grpc_via_core :: "grpc_in_env \<Rightarrow> frame_reader \<Rightarrow> bytes list \<Rightarrow> send_stream \<Rightarrow> upstream \<Rightarrow> bytes
    \<Rightarrow> relay_runtime \<Rightarrow> send_stream relay_end option" where
  "relay_grpc_via_core env r cached_frames response up auth_id rt =
     (let dec = decode_task r cached_frames (pipe (gi_pipe_left env));
          rel = relay_authenticated_stream (gi_net env)
                  \<lparr>in_reads = map ReadData (gi_cut env (w_out (snd dec))), in_writer = pipe None\<rparr> rt up auth_id;
          answer = (case rel of Some re \<Rightarrow> re_client re | None \<Rightarrow> None);
          enc = (case answer of Some w \<Rightarrow> raw_to_grpc (map ReadData (gi_cut env (w_out w))) response | None \<Rightarrow> None)
      in case core_select (gi_core_turns env) (join_of (fst dec)) (map_option fst enc)
                (map_option (\<lambda>re. join_of (re_result re)) rel) of
           None \<Rightarrow> None
         | Some (res, rel_ended, enc_ended) \<Rightarrow>
             Some \<lparr>re_result = res,
                   re_pool = (case rel of Some re \<Rightarrow> if rel_ended then re_pool re else rt_grpc_pool rt | None \<Rightarrow> rt_grpc_pool rt),
                   re_client = (if enc_ended then map_option snd enc else None),
                   re_upstream = (case rel of
                       Some re \<Rightarrow> if rel_ended then re_upstream re else map_option (take (gi_handed env)) (re_upstream re)
                     | None \<Rightarrow> None)\<rparr>)"

subsection \<open>Definitions: the request handler\<close>

definition is_panic :: "error \<Rightarrow> bool" where
  "is_panic e = (case e of Panic _ \<Rightarrow> True | _ \<Rightarrow> False)"

definition relay_request :: "crypto \<Rightarrow> grpc_in_env \<Rightarrow> recv_event list \<Rightarrow> send_stream \<Rightarrow> relay_runtime
    \<Rightarrow> send_stream relay_end option" where
  "relay_request c env body response rt =
     (let net = gi_net env; reader = frame_reader_new body in
      if ne_auth_timeout net then refuse net (gi_late env reader) response (rt_grpc_pool rt)
      else case read_initial_auth reader [] [] of
             (Inl e, r) \<Rightarrow>
               if is_panic e then Some (nothing_relayed (Inl e) response (rt_grpc_pool rt))
               else refuse net r response (rt_grpc_pool rt)
           | (Inr (cached_frames, auth_id), r) \<Rightarrow>
               (case match_auth_id c (ne_clock net) (rt_validator rt) auth_id of
                  None \<Rightarrow> refuse net r response (rt_grpc_pool rt)
                | Some up \<Rightarrow>
                    (case transport up of
                       Grpc _ _ _ \<Rightarrow> relay_grpc_to_grpc_fast net r cached_frames response up rt
                     | Tcp \<Rightarrow> relay_grpc_via_core env r cached_frames response up auth_id rt)))"

datatype handled =
    Rejected nat "unit result" \<comment> \<open>the status of the only response\<close>
  | NoResponse error
  | Relayed "send_stream relay_end option"

definition handle_request :: "crypto \<Rightarrow> grpc_in_env \<Rightarrow> grpc_request \<Rightarrow> string \<Rightarrow> relay_runtime \<Rightarrow> handled" where
  "handle_request c env rq service rt =
     (case validate_request rq service of
        Inl status \<Rightarrow> Rejected status (case gi_respond env of Inl e \<Rightarrow> Inl (SendError e) | Inr _ \<Rightarrow> Inr ())
      | Inr _ \<Rightarrow>
          (case gi_respond env of
             Inl e \<Rightarrow> NoResponse (SendError e)
           | Inr response \<Rightarrow> Relayed (relay_request c env (gr_body rq) response rt)))"

subsection \<open>The identifier and the frames it came in\<close>

abbreviation decodes :: "bytes \<Rightarrow> bool" where
  "decodes f \<equiv> is_ok (decode_grpc_frame_data f)"

abbreviation payloads :: "bytes list \<Rightarrow> bytes" where
  "payloads fs \<equiv> concat (map frame_payload fs)"

lemma decode_cases:
  obtains (fails) e where "decode_grpc_frame_data f = Inl e"
  | (skipped) "decode_grpc_frame_data f = Inr None" "frame_payload f = []"
  | (data) "decode_grpc_frame_data f = Inr (Some (frame_payload f))"
proof (cases "decode_grpc_frame_data f")
  case (Inr d)
  then show thesis using skipped data by (cases d) (simp_all add: frame_payload_def)
qed (rule fails)

lemma read_initial_auth_returns:
  assumes "list_all decodes (fst (frames_of r))" and "16 \<le> length (raw @ payloads (fst (frames_of r)))"
  shows "\<exists>fs r'. read_initial_auth r cached raw = (Inr (cached @ fs, take 16 (raw @ payloads (fst (frames_of r)))), r')
    \<and> frames_of r = (fs @ fst (frames_of r'), snd (frames_of r'))"
  using assms
proof (induction r cached raw rule: read_initial_auth.induct)
  case (1 r cached raw)
  show ?case
  proof (cases "16 \<le> length raw")
    case True
    then show ?thesis by (intro exI [of _ "[]"] exI [of _ r]) (simp add: read_initial_auth.simps [of r])
  next
    case False
    show ?thesis
    proof (cases r rule: frames_of_cases)
      case (frame f r')
      show ?thesis
      proof (cases f rule: decode_cases)
        case skipped
        with "1.IH"(1) [OF False frame(1) [symmetric] refl refl] "1.prems" frame False show ?thesis
          by (fastforce simp: read_initial_auth.simps [of r])
      next
        case data
        with "1.IH"(2) [OF False frame(1) [symmetric] refl refl] "1.prems" frame False show ?thesis
          by (fastforce simp: read_initial_auth.simps [of r])
      qed (use "1.prems" frame in simp)
    qed (use "1.prems" False in simp_all)
  qed
qed

lemma read_initial_auth_is_prefix:
  "read_initial_auth r cached raw = (Inr (cached', auth_id), r') \<Longrightarrow>
     auth_id = take 16 (raw @ payloads (fst (frames_of r)))"
proof (induction r cached raw rule: read_initial_auth.induct)
  case (1 r cached raw)
  show ?case
  proof (cases "16 \<le> length raw")
    case True
    with "1.prems" show ?thesis by (simp add: read_initial_auth.simps [of r])
  next
    case False
    show ?thesis
    proof (cases r rule: frames_of_cases)
      case (frame f r'')
      show ?thesis
      proof (cases f rule: decode_cases)
        case skipped
        with "1.IH"(1) [OF False frame(1) [symmetric] refl refl] "1.prems" frame False show ?thesis
          by (simp add: read_initial_auth.simps [of r])
      next
        case data
        with "1.IH"(2) [OF False frame(1) [symmetric] refl refl] "1.prems" frame False show ?thesis
          by (simp add: read_initial_auth.simps [of r])
      qed (use "1.prems" frame False in \<open>simp add: read_initial_auth.simps [of r]\<close>)
    qed (use "1.prems" False in \<open>simp_all add: read_initial_auth.simps [of r]\<close>)
  qed
qed

subsection \<open>Refused requests\<close>

lemma end_stream_silent:
  obtains x s' where "send_grpc_data s [] True = Some (x, s')" "sent_bytes s' = sent_bytes s"
  by (cases "ss_end_err s") (simp_all add: send_grpc_data_def sent_bytes_def)

lemma refuse_silent:
  "\<exists>r s. refuse env rd response p = Some (nothing_relayed r s p) \<and> sent_bytes s = sent_bytes response"
proof (cases "drain_grpc_request env rd")
  case (Inl e)
  then show ?thesis by (auto simp: refuse_def)
next
  case (Inr u)
  obtain x s where "send_grpc_data response [] True = Some (x, s)" "sent_bytes s = sent_bytes response"
    using end_stream_silent .
  with Inr show ?thesis by (auto simp: refuse_def)
qed

lemma grpc_content_type:
  "starts_with (case ct of None \<Rightarrow> [] | Some t \<Rightarrow> t) ''application/grpc'' \<longleftrightarrow> (\<exists>sub. ct = Some (''application/grpc'' @ sub))"
proof (cases ct)
  case (Some t)
  show ?thesis unfolding Some option.case option.inject
  proof
    assume "starts_with t ''application/grpc''"
    from starts_withD [OF this] show "\<exists>sub. t = ''application/grpc'' @ sub" ..
  next
    assume "\<exists>sub. t = ''application/grpc'' @ sub"
    then obtain sub where t: "t = ''application/grpc'' @ sub" ..
    show "starts_with t ''application/grpc''" unfolding t by (rule starts_with_append)
  qed
qed (simp add: starts_with_def)

lemma matched_entry:
  assumes "match_auth_id c now v a = Some up"
  obtains e where "e \<in> set (entries v)" "verify c now (verifier e) a"
  using assms by (auto simp: match_auth_id_def match_entries_find find_Some_iff intro: that nth_mem)

lemma rejected_status:
  assumes "validate_request rq service = Inl status"
  shows "if gr_method rq \<noteq> ''POST'' then status = 405
    else if gr_path rq \<noteq> ''/'' @ service @ ''/Tun'' then status = 404
    else status = 415 \<and> (\<nexists>sub. gr_content_type rq = Some (''application/grpc'' @ sub))"
  using assms unfolding validate_request_def grpc_content_type by (simp split: if_splits)

lemma accepted_request:
  assumes "validate_request rq service = Inr u"
  shows "gr_method rq = ''POST'' \<and> gr_path rq = ''/'' @ service @ ''/Tun''
    \<and> (\<exists>sub. gr_content_type rq = Some (''application/grpc'' @ sub))"
  using assms unfolding validate_request_def grpc_content_type by (simp split: if_splits)


subsection \<open>Frames that end the task\<close>

text \<open>A frame that comes out of the reader is as long as its header says.\<close>

lemma peeled_frame:
  assumes "peel_frame buf = Frame f rest"
  shows "length f = 5 + frame_header_len f \<and> frame_header_len f \<le> MAX_GRPC_FRAME_SIZE"
proof -
  have b: "5 + frame_header_len buf \<le> length buf" "frame_header_len buf \<le> MAX_GRPC_FRAME_SIZE" "f = take (5 + frame_header_len buf) buf"
    using assms by (auto simp: peel_frame_def Let_def split: if_splits)
  have "take 4 (drop 1 (take (5 + n) buf)) = take 4 (drop 1 buf)" for n :: nat
    by (simp add: drop_take min_def)
  then have "frame_header_len f = frame_header_len buf" unfolding b(3) frame_header_len_def by simp
  with b show ?thesis by simp
qed

lemma next_frame_length:
  assumes "next_frame r = (Inr (Some f), r')"
  shows "length f = 5 + frame_header_len f \<and> frame_header_len f \<le> MAX_GRPC_FRAME_SIZE"
proof -
  have "next_frame_loop evs buf rel = (Inr (Some f), r') \<Longrightarrow> \<exists>b rest. peel_frame b = Frame f rest" for evs buf rel
    by (induction evs buf rel rule: next_frame_loop.induct) (auto split: peel_result.splits recv_event.splits)
  with assms obtain b rest where "peel_frame b = Frame f rest" unfolding next_frame_def by blast
  then show ?thesis by (rule peeled_frame)
qed

text \<open>The length field of the payload puts its end beyond the range of \<^verbatim>\<open>usize\<close>.\<close>

definition wrapping_frame :: "bytes \<Rightarrow> bool" where
  "wrapping_frame f \<longleftrightarrow>
     (case drop 5 f of
        [] \<Rightarrow> False
      | b # rest \<Rightarrow> b = 0x0A \<and> (case read_varint rest of None \<Rightarrow> False | Some (l, n) \<Rightarrow> 2 ^ 64 \<le> 1 + n + unat l))"

lemma wrapping_frame_panics:
  assumes "wrapping_frame f" and "length f = 5 + frame_header_len f" and "frame_header_len f \<le> MAX_GRPC_FRAME_SIZE"
  shows "decode_grpc_frame_data f = Inl (Panic ''slice index'')"
proof -
  have "decode_grpc_frame_data f = decode_gun_payload (drop 5 f)"
    using assms(2,3) by (simp add: decode_grpc_frame_data_def Let_def)
  also have "length (drop 5 f) < 2 ^ 63" using assms(2,3) by (simp add: MAX_GRPC_FRAME_SIZE_def)
  then have "decode_gun_payload (drop 5 f) = decode_gun_spec (drop 5 f)" by (rule decode_gun_payload_spec)
  also have "\<dots> = Inl (Panic ''slice index'')"
    using assms(1) by (auto simp: wrapping_frame_def decode_gun_spec_def split: list.splits option.splits)
  finally show ?thesis .
qed

lemma read_initial_auth_fails:
  assumes "frames_of r = (fs @ f # gs, e)" and "list_all decodes fs" and "length (raw @ payloads fs) < 16"
    and "wrapping_frame f"
  shows "\<exists>r'. read_initial_auth r cached raw = (Inl (Panic ''slice index''), r')"
  using assms
proof (induction fs arbitrary: r cached raw)
  case Nil
  show ?case
  proof (cases r rule: frames_of_cases)
    case (frame g r')
    then have "g = f" using Nil.prems(1) by simp
    with wrapping_frame_panics [OF Nil.prems(4)] next_frame_length [OF frame(1)]
    have "decode_grpc_frame_data g = Inl (Panic ''slice index'')" by blast
    with frame(1) Nil.prems(3) show ?thesis by (simp add: read_initial_auth.simps [of r])
  qed (use Nil.prems(1) in simp_all)
next
  case (Cons h fs)
  show ?case
  proof (cases r rule: frames_of_cases)
    case (frame g r')
    then have g: "g = h" "frames_of r' = (fs @ f # gs, e)" using Cons.prems(1) by (auto simp: prod_eq_iff)
    show ?thesis
    proof (cases h rule: decode_cases)
      case skipped
      with Cons.IH [OF g(2), of raw "cached @ [h]"] Cons.prems frame(1) g(1) show ?thesis
        by (auto simp: read_initial_auth.simps [of r])
    next
      case data
      with Cons.IH [OF g(2), of "raw @ frame_payload h" "cached @ [h]"] Cons.prems frame(1) g(1) show ?thesis
        by (auto simp: read_initial_auth.simps [of r])
    qed (use Cons.prems(2) in simp)
  qed (use Cons.prems(1) in simp_all)
qed

text \<open>
  C38 (malformed_frame_panics). Any client can make the task that handles its request panic, without an accepted
  identifier: it is enough that one of the frames it sends before sixteen bytes of payload
  has a length field that, added to the position of the data, exceeds the range of \<^verbatim>\<open>usize\<close>. The
  reader accepts such a frame, however it is cut into chunks, whatever frames came before and follow.
\<close>

theorem malformed_frame_panics:
  assumes "frames_of (frame_reader_new body) = (fs @ f # gs, e)" and "list_all decodes fs" and "length (payloads fs) < 16"
    and "wrapping_frame f" and "\<not> ne_auth_timeout (gi_net env)"
  shows "relay_request c env body response rt
    = Some (nothing_relayed (Inl (Panic ''slice index'')) response (rt_grpc_pool rt))"
proof -
  obtain r' where "read_initial_auth (frame_reader_new body) [] [] = (Inl (Panic ''slice index''), r')"
    using read_initial_auth_fails [OF assms(1,2) _ assms(4), of "[]" "[]"] assms(3) by auto
  with assms(5) show ?thesis by (simp add: relay_request_def Let_def is_panic_def)
qed

definition wrapping_sample :: bytes where
  "wrapping_sample = [0, 0, 0, 0, 11, 0x0A, 0xFF, 0xFF, 0xFF, 0xFF, 0xFF, 0xFF, 0xFF, 0xFF, 0xFF, 0x01]"

subsection \<open>Frames forwarded as they are\<close>

lemma send_frames_returns:
  assumes "[] \<notin> set fs" and "capacity_for s (length (concat fs) + n)"
  shows "\<exists>s' a'. send_frames s fs a = Some (Inr (), s', a') \<and> capacity_for s' n
    \<and> sent_bytes s' = sent_bytes s @ concat fs"
  using assms
proof (induction fs arbitrary: s a)
  case (Cons f fs)
  then obtain s1 where s1: "send_grpc_data s f False = Some (Inr (), s1)" "capacity_for s1 (length (concat fs) + n)"
    using send_grpc_data_returns [of s f "length (concat fs) + n" False] by (auto simp: add.assoc)
  with Cons.IH [of s1 "mark a"] Cons.prems(1) send_grpc_data_bytes [OF s1(1)] show ?case by auto
qed simp

lemma frames_nonempty: "[] \<notin> set (fst (frames_of r))"
proof (induction r rule: frames_of.induct)
  case (1 r)
  show ?case
  proof (cases r rule: frames_of_cases)
    case (frame f r')
    with "1.IH" [OF frame(1) [symmetric] refl refl] show ?thesis by simp
  qed simp_all
qed

lemma fast_is_relay: "wait_grpc_fast_relay = wait_grpc_relay"
  by (intro ext) (simp add: wait_grpc_fast_relay_def wait_grpc_relay_def)

lemma relay_request_grpc:
  assumes "frames_of (frame_reader_new body) = (fs, None)" and "list_all decodes fs" and "16 \<le> length (payloads fs)"
    and "match_auth_id c (ne_clock (gi_net env)) (rt_validator rt) (take 16 (payloads fs)) = Some up"
    and "transport up = Grpc service sni u" and "\<not> ne_auth_timeout (gi_net env)"
    and "open_grpc_tunnel (gi_net env) up (rt_grpc_pool rt) = (Inr tn, p)"
    and "capacity_for (tn_send_stream tn) (length (concat fs))"
    and "ne_response (gi_net env) = Inr answer" and "frames_of (frame_reader_new answer) = (gs, None)"
    and "capacity_for response (length (concat gs))" and "both_end (rt_idle_timeout rt) (ne_turns (gi_net env))"
  shows "\<exists>s. relay_request c env body response rt
      = Some \<lparr>re_result = Inr (), re_pool = p, re_client = Some s,
              re_upstream = Some (sent_bytes (tn_send_stream tn) @ concat fs)\<rparr>
    \<and> sent_bytes s = sent_bytes response @ concat gs"
proof -
  obtain cs r where rd: "read_initial_auth (frame_reader_new body) [] [] = (Inr (cs, take 16 (payloads fs)), r)"
      "(fs, None) = (cs @ fst (frames_of r), snd (frames_of r))"
    using read_initial_auth_returns [of "frame_reader_new body" "[]" "[]"] assms(1-3) by auto
  have ne: "[] \<notin> set cs" using frames_nonempty [of "frame_reader_new body"] assms(1) rd(2) by auto
  let ?a = "activity_of (rt_idle_timeout rt)"
  obtain s1 a1 where s1: "send_frames (tn_send_stream tn) cs ?a = Some (Inr (), s1, a1)"
      "capacity_for s1 (length (concat (fst (frames_of r))))" "sent_bytes s1 = sent_bytes (tn_send_stream tn) @ concat cs"
    using send_frames_returns [OF ne, of "tn_send_stream tn" "length (concat (fst (frames_of r)))" ?a] assms(8) rd(2) by auto
  obtain s2 a2 where s2: "grpc_frames_to_grpc_with_activity r s1 a1 = Some (Inr (), s2, a2)"
      "sent_bytes s2 = sent_bytes s1 @ concat (fst (frames_of r))"
    using frames_forward_returns [OF _ s1(2)] rd(2) by fastforce
  obtain s3 a3 where s3: "grpc_frames_to_grpc_with_activity (frame_reader_new answer) response a1 = Some (Inr (), s3, a3)"
      "sent_bytes s3 = sent_bytes response @ concat gs"
    using frames_forward_returns [of "frame_reader_new answer" response a1] assms(10,11) by auto
  have "relay_request c env body response rt
      = Some \<lparr>re_result = Inr (), re_pool = p, re_client = Some s3, re_upstream = Some (sent_bytes s2)\<rparr>"
    using rd(1) assms(4-7,9,12) s1(1) s2(1) s3(1)
    by (simp add: relay_request_def relay_grpc_to_grpc_fast_def Let_def fast_is_relay relay_tasks_both_end)
  with s1(3) s2(2) s3(2) rd(2) show ?thesis by simp
qed

text \<open>
  C5 (grpc_to_grpc_exact). A gRPC client with an accepted identifier whose upstream speaks gRPC is
  relayed frame by frame: the upstream receives exactly the frames of the request, byte for byte,
  those read for the identifier included, and the client exactly the frames of the response.
\<close>

theorem grpc_to_grpc_exact:
  assumes "frames_of (frame_reader_new body) = (fs, None)" and "list_all decodes fs" and "16 \<le> length (payloads fs)"
    and "match_auth_id c (ne_clock (gi_net env)) (rt_validator rt) (take 16 (payloads fs)) = Some up"
    and "transport up = Grpc service sni u" and "\<not> ne_auth_timeout (gi_net env)"
    and "open_grpc_tunnel (gi_net env) up (rt_grpc_pool rt) = (Inr tn, p)"
    and "capacity_for (tn_send_stream tn) (length (concat fs))"
    and "ne_response (gi_net env) = Inr answer" and "frames_of (frame_reader_new answer) = (gs, None)"
    and "capacity_for response (length (concat gs))" and "both_end (rt_idle_timeout rt) (ne_turns (gi_net env))"
  shows "\<exists>s. relay_request c env body response rt
      = Some \<lparr>re_result = Inr (), re_pool = p, re_client = Some s,
              re_upstream = Some (sent_bytes (tn_send_stream tn) @ concat fs)\<rparr>
    \<and> sent_bytes s = sent_bytes response @ concat gs"
  using assms by (rule relay_request_grpc)

subsection \<open>Frames decoded for the core\<close>

text \<open>The two directions of a \<^verbatim>\<open>SplitDuplex\<close> do not touch each other, however their calls are mixed.\<close>

datatype 'd duplex_call =
    CallRead "'d \<Rightarrow> unit \<times> 'd"
  | CallWrite "'d \<Rightarrow> unit \<times> 'd"
  | CallFlush "'d \<Rightarrow> unit \<times> 'd"
  | CallShutdown "'d \<Rightarrow> unit \<times> 'd"

fun do_call :: "'d split_duplex \<Rightarrow> 'd duplex_call \<Rightarrow> 'd split_duplex" where
  "do_call s (CallRead f) = snd (split_poll_read f s)"
| "do_call s (CallWrite f) = snd (split_poll_write f s)"
| "do_call s (CallFlush f) = snd (split_poll_flush f s)"
| "do_call s (CallShutdown f) = snd (split_poll_shutdown f s)"

fun read_call :: "'d duplex_call \<Rightarrow> 'd \<Rightarrow> 'd" where
  "read_call (CallRead f) d = snd (f d)"
| "read_call _ d = d"

fun write_call :: "'d duplex_call \<Rightarrow> 'd \<Rightarrow> 'd" where
  "write_call (CallRead f) d = d"
| "write_call (CallWrite f) d = snd (f d)"
| "write_call (CallFlush f) d = snd (f d)"
| "write_call (CallShutdown f) d = snd (f d)"

lemma split_duplex_halves:
  "foldl do_call s calls
   = s\<lparr>sd_reader := foldl (\<lambda>d c. read_call c d) (sd_reader s) calls,
       sd_writer := foldl (\<lambda>d c. write_call c d) (sd_writer s) calls\<rparr>"
proof (induction calls arbitrary: s)
  case (Cons c calls)
  have "do_call s c = s\<lparr>sd_reader := read_call c (sd_reader s), sd_writer := write_call c (sd_writer s)\<rparr>"
    by (cases c) (simp_all add: split_poll_read_def split_poll_write_def split_poll_flush_def split_poll_shutdown_def
        split: prod.split)
  with Cons.IH show ?case by simp
qed simp

abbreviation pipe_with :: "bytes \<Rightarrow> writer" where
  "pipe_with bs \<equiv> (pipe None)\<lparr>w_out := bs\<rparr>"

lemma decode_frame_pipe:
  assumes "decodes f"
  shows "decode_frame f skip (pipe_with bs)
    = (Inr (), skip - length (frame_payload f), pipe_with (bs @ drop skip (frame_payload f)))"
proof (cases f rule: decode_cases)
  case data
  then show ?thesis
    by (auto simp: decode_frame_def skip_auth_id_bytes_def Let_def pipe_def min_def)
qed (use assms in \<open>simp_all add: decode_frame_def pipe_def\<close>)

lemma decode_cached_pipe:
  "list_all decodes fs \<Longrightarrow> decode_cached fs skip (pipe_with bs)
     = (Inr (), skip - length (payloads fs), pipe_with (bs @ drop skip (payloads fs)))"
  by (induction fs arbitrary: skip bs) (simp_all add: decode_frame_pipe)

lemma decode_rest_pipe:
  "list_all decodes (fst (frames_of r)) \<Longrightarrow> snd (frames_of r) = None \<Longrightarrow>
     decode_rest r skip (pipe_with bs) = (Inr (), pipe_with (bs @ drop skip (payloads (fst (frames_of r)))))"
proof (induction r arbitrary: skip bs rule: frames_of.induct)
  case (1 r)
  show ?case
  proof (cases r rule: frames_of_cases)
    case (frame f r')
    with "1.IH" [OF frame(1) [symmetric] refl refl] "1.prems" show ?thesis
      by (simp add: decode_rest.simps [of r] decode_frame_pipe)
  qed (use "1.prems" in \<open>simp_all add: decode_rest.simps [of r]\<close>)
qed

lemma decode_task_exact:
  assumes "list_all decodes (cs @ fst (frames_of r))" and "snd (frames_of r) = None"
  shows "decode_task r cs (pipe None) = (Inr (), pipe_with (drop 16 (payloads (cs @ fst (frames_of r)))))"
proof -
  have "pipe None = pipe_with []" by (simp add: pipe_def)
  then show ?thesis
    using assms decode_cached_pipe [of cs 16 "[]"] decode_rest_pipe [of r]
    by (simp add: decode_task_def)
qed

text \<open>
  Whether the relay is the first of the two to end. Both orders happen. The relay ends when both of its
  directions are done; but it shuts the pipe to the encoder down as soon as the upstream has sent all it
  has, and the encoder ends then, even when the client is still sending.
\<close>

definition relay_first :: "core_turn list \<Rightarrow> bool" where
  "relay_first ts \<longleftrightarrow> (case filter (\<lambda>t. t \<noteq> DecodeEnds) ts of RelayEnds # _ \<Rightarrow> True | _ \<Rightarrow> False)"

lemma select_after_decode_order:
  "EncodeEnds \<in> set ts \<Longrightarrow> select_after_decode ts (Some e) (Some (Joined (Inr ()))) = Some (e, relay_first ts, True)"
proof (induction ts)
  case (Cons t ts)
  then show ?case
    by (cases t) (auto simp: relay_first_def relay_result_to_result_def await_encode_def)
qed simp

lemma core_select_order:
  "EncodeEnds \<in> set ts \<Longrightarrow> core_select ts (Joined (Inr ())) (Some e) (Some (Joined (Inr ()))) = Some (e, relay_first ts, True)"
proof (induction ts)
  case (Cons t ts)
  then show ?case
  proof (cases t)
    case DecodeEnds
    with Cons.prems select_after_decode_order [of ts e] show ?thesis
      by (simp add: relay_first_def decode_result_to_result_def)
  qed (auto simp: relay_first_def relay_result_to_result_def await_encode_def)
qed simp

text \<open>What the relay relies on: a pipe delivers the bytes written to it, in pieces that fit the read buffer.\<close>

definition pipe_law :: "(bytes \<Rightarrow> bytes list) \<Rightarrow> bool" where
  "pipe_law f \<longleftrightarrow> (\<forall>bs. concat (f bs) = bs \<and> pieces RAW_TO_GRPC_READ_BUF_SIZE (f bs))"

lemma pieces_count: "pieces m ds \<Longrightarrow> length ds \<le> length (concat ds)"
proof (induction ds)
  case (Cons d ds)
  then show ?case by (cases d) auto
qed simp

lemma encode_pipe:
  assumes "pipe_law f" and "capacity_for s (17 * length bs)" and "ss_sent s = []"
  obtains s' where "raw_to_grpc (map ReadData (f bs)) s = Some (Inr (), s')"
    "snd (deframe (sent_bytes s')) = None" "payloads (fst (deframe (sent_bytes s'))) = bs"
proof -
  have cut: "concat (f bs) = bs" "pieces RAW_TO_GRPC_READ_BUF_SIZE (f bs)" using assms(1) by (auto simp: pipe_law_def)
  have "length (concat (map encode_grpc_frame (f bs))) \<le> 17 * length bs"
    using encode_all_overhead [of "f bs"] pieces_count [OF cut(2)] cut(1) by simp
  from capacity_for_mono [OF assms(2) this] pieces_small [OF cut(2)] obtain s' a' where
    "raw_to_grpc_with_activity (map ReadData (f bs)) s None = Some (Inr (), s', a')"
    "sent_bytes s' = sent_bytes s @ concat (map encode_grpc_frame (f bs))"
    using raw_to_grpc_returns [of s "f bs" None] by blast
  moreover have "sent_bytes s = []" using assms(3) by (simp add: sent_bytes_def)
  ultimately show thesis
    using that [of s'] deframe_payloads [of "f bs"] pieces_small [OF cut(2)] cut(1) by (simp add: raw_to_grpc_def)
qed

lemma relay_request_tcp:
  assumes "frames_of (frame_reader_new body) = (fs, None)" and "list_all decodes fs" and "16 \<le> length (payloads fs)"
    and "match_auth_id c (ne_clock (gi_net env)) (rt_validator rt) (take 16 (payloads fs)) = Some up"
    and "transport up = Tcp" and "\<not> ne_auth_timeout (gi_net env)"
    and "tcp_up (gi_net env) up (rt_idle_timeout rt)" and "copies_streams (ne_copy (gi_net env))"
    and "gi_pipe_left env = None" and "pipe_law (gi_cut env)" and "EncodeEnds \<in> set (gi_core_turns env)"
    and "capacity_for response (17 * length (stream_bytes (ne_tcp_reads (gi_net env))))" and "ss_sent response = []"
  shows "\<exists>s. relay_request c env body response rt
      = Some \<lparr>re_result = Inr (), re_pool = rt_grpc_pool rt, re_client = Some s,
              re_upstream = Some (if relay_first (gi_core_turns env) then w_out (ne_tcp_writer (gi_net env)) @ payloads fs
                else take (gi_handed env) (w_out (ne_tcp_writer (gi_net env)) @ payloads fs))\<rparr>
    \<and> snd (deframe (sent_bytes s)) = None
    \<and> payloads (fst (deframe (sent_bytes s))) = stream_bytes (ne_tcp_reads (gi_net env))"
proof -
  let ?net = "gi_net env" and ?auth = "take 16 (payloads fs)" and ?rest = "drop 16 (payloads fs)"
  obtain cs r where rd: "read_initial_auth (frame_reader_new body) [] [] = (Inr (cs, ?auth), r)"
      "(fs, None) = (cs @ fst (frames_of r), snd (frames_of r))"
    using read_initial_auth_returns [of "frame_reader_new body" "[]" "[]"] assms(1-3) by auto
  have dec: "decode_task r cs (pipe None) = (Inr (), pipe_with ?rest)"
    using decode_task_exact [of cs r] rd(2) assms(2) by simp
  let ?inb = "\<lparr>in_reads = map ReadData (gi_cut env ?rest), in_writer = pipe None\<rparr>"
  have cut: "stream_bytes (in_reads ?inb) = ?rest"
    using assms(10) stream_bytes_pieces [of RAW_TO_GRPC_READ_BUF_SIZE "gi_cut env ?rest"] by (simp add: pipe_law_def)
  obtain w where w: "relay_tcp ?net ?inb up ?auth (rt_idle_timeout rt) (rt_grpc_pool rt)
      = Some \<lparr>re_result = Inr (), re_pool = rt_grpc_pool rt, re_client = Some w,
              re_upstream = Some (w_out (ne_tcp_writer ?net) @ payloads fs)\<rparr>"
      "w_out w = stream_bytes (ne_tcp_reads ?net)"
    using relay_tcp_copies [OF assms(7,8), of ?inb ?auth "rt_grpc_pool rt"] cut
    by (auto simp: pipe_def)
  have cap: "capacity_for response (17 * length (w_out w))" using assms(12) w(2) by simp
  obtain s where "raw_to_grpc (map ReadData (gi_cut env (w_out w))) response = Some (Inr (), s)"
      "snd (deframe (sent_bytes s)) = None" "payloads (fst (deframe (sent_bytes s))) = w_out w"
    using encode_pipe [OF assms(10) cap assms(13)] .
  then show ?thesis
    using rd(1) assms(4-6,9) dec w core_select_order [OF assms(11), of "Inr ()"]
    by (simp add: relay_request_def relay_grpc_via_core_def Let_def relay_authenticated_stream_def
        from_transport_def outbound_relay_def join_of_def)
qed

text \<open>
  C6 (grpc_to_tcp_exact). A gRPC client with an accepted identifier whose upstream is reached over TCP
  is relayed through the core. In whichever order the tasks end, the payloads of the frames sent back
  are exactly the bytes the upstream sent. If the relay is the first to end, the upstream has received
  exactly the payload bytes of the request's frames, the sixteen bytes of the identifier once and first. If
  the encoder is, because the upstream has closed its side before the client, the relay is aborted: the
  upstream keeps what it had been handed by then, a prefix, the rest of the client's bytes is lost, and the
  request still ends without an error.
\<close>

theorem grpc_to_tcp_exact:
  assumes "frames_of (frame_reader_new body) = (fs, None)" and "list_all decodes fs" and "16 \<le> length (payloads fs)"
    and "match_auth_id c (ne_clock (gi_net env)) (rt_validator rt) (take 16 (payloads fs)) = Some up"
    and "transport up = Tcp" and "\<not> ne_auth_timeout (gi_net env)"
    and "tcp_up (gi_net env) up (rt_idle_timeout rt)" and "copies_streams (ne_copy (gi_net env))"
    and "gi_pipe_left env = None" and "pipe_law (gi_cut env)" and "EncodeEnds \<in> set (gi_core_turns env)"
    and "capacity_for response (17 * length (stream_bytes (ne_tcp_reads (gi_net env))))" and "ss_sent response = []"
  shows "\<exists>s. relay_request c env body response rt
      = Some \<lparr>re_result = Inr (), re_pool = rt_grpc_pool rt, re_client = Some s,
              re_upstream = Some (if relay_first (gi_core_turns env) then w_out (ne_tcp_writer (gi_net env)) @ payloads fs
                else take (gi_handed env) (w_out (ne_tcp_writer (gi_net env)) @ payloads fs))\<rparr>
    \<and> snd (deframe (sent_bytes s)) = None
    \<and> payloads (fst (deframe (sent_bytes s))) = stream_bytes (ne_tcp_reads (gi_net env))"
  using assms by (rule relay_request_tcp)

definition sample_grpc_in :: grpc_in_env where
  "sample_grpc_in = \<lparr>gi_net = sample_net, gi_respond = Inr sample_stream, gi_late = id, gi_pipe_left = None,
     gi_cut = map (\<lambda>b. [b]), gi_core_turns = [DecodeEnds, RelayEnds, EncodeEnds], gi_handed = 17\<rparr>"

lemma sample_grpc_in_sel:
  "gi_net sample_grpc_in = sample_net" "gi_pipe_left sample_grpc_in = None" "gi_cut sample_grpc_in = map (\<lambda>b. [b])"
  "gi_core_turns sample_grpc_in = [DecodeEnds, RelayEnds, EncodeEnds]" "gi_handed sample_grpc_in = 17" "ne_clock sample_net = 1000"
  "\<not> ne_auth_timeout sample_net" "ne_tcp_writer sample_net = sample_writer" "w_out sample_writer = []"
  "stream_bytes (ne_tcp_reads sample_net) = [7, 8]" "ss_sent sample_stream = []"
  "ne_response sample_net = Inr [Chunk (encode_grpc_frame [7, 8])]" "ne_turns sample_net = [Turn2, TurnTick 3, Turn1]"
  by (simp_all add: sample_grpc_in_def sample_net_def sample_writer_def sample_stream_def)

text \<open>A frame of sixteen bytes that declares \<^verbatim>\<open>2^64 - 1\<close> bytes of data, in two chunks.\<close>

theorem malformed_frame_panics_witness:
  "relay_request toy_crypto sample_grpc_in [Chunk (take 7 wrapping_sample), Chunk (drop 7 wrapping_sample)] sample_stream
      (relay_runtime_new \<lparr>entries = []\<rparr> (grpc_pool_new None) None)
    = Some (nothing_relayed (Inl (Panic ''slice index'')) sample_stream (grpc_pool_new None))"
proof -
  let ?rt = "relay_runtime_new \<lparr>entries = []\<rparr> (grpc_pool_new None) None"
  let ?body = "[Chunk (take 7 wrapping_sample), Chunk (drop 7 wrapping_sample)]"
  have fs: "frames_of (frame_reader_new ?body) = ([] @ wrapping_sample # [], None)"
    by (simp add: frames_of.simps next_frame_def frame_reader_new_def peel_frame_def frame_header_len_def nat_of_be_def
        MAX_GRPC_FRAME_SIZE_def wrapping_sample_def)
  have w: "wrapping_frame wrapping_sample"
    by (simp add: wrapping_frame_def wrapping_sample_def read_varint_def)
  have "relay_request toy_crypto sample_grpc_in ?body sample_stream ?rt
      = Some (nothing_relayed (Inl (Panic ''slice index'')) sample_stream (rt_grpc_pool ?rt))"
    by (rule malformed_frame_panics [OF fs _ _ w]) (simp_all add: sample_grpc_in_sel)
  then show ?thesis by (simp add: relay_runtime_new_def)
qed

definition sample_payloads :: "bytes list" where
  "sample_payloads = [sample_auth, [1, 2]]"

definition sample_body :: "recv_event list" where
  "sample_body = map Chunk (map encode_grpc_frame sample_payloads)"

lemma sample_body_frames:
  "frames_of (frame_reader_new sample_body) = (map encode_grpc_frame sample_payloads, None)"
  "list_all decodes (map encode_grpc_frame sample_payloads)"
  "payloads (map encode_grpc_frame sample_payloads) = sample_auth @ [1, 2]"
proof -
  have small: "list_all small_payload sample_payloads"
    by (simp add: sample_payloads_def read_buf_small RAW_TO_GRPC_READ_BUF_SIZE_def)
  show "frames_of (frame_reader_new sample_body) = (map encode_grpc_frame sample_payloads, None)"
    unfolding sample_body_def by (rule frames_of_encoded [OF small refl])
  show "list_all decodes (map encode_grpc_frame sample_payloads)" using encoded_payloads(1) [OF small] .
  show "payloads (map encode_grpc_frame sample_payloads) = sample_auth @ [1, 2]"
    unfolding encoded_payloads(2) [OF small] by (simp add: sample_payloads_def)
qed

lemma sample_pipe_law: "pipe_law (map (\<lambda>b. [b]))"
  by (auto simp: pipe_law_def pieces_def list_all_iff RAW_TO_GRPC_READ_BUF_SIZE_def concat_map_singleton)

text \<open>In the second run the upstream closes its side first: the client's last byte is lost.\<close>

theorem grpc_to_tcp_exact_witness:
  "\<exists>v. (\<exists>s. relay_request toy_crypto sample_grpc_in sample_body (sample_stream\<lparr>ss_caps := replicate 34 (Capacity 9 None)\<rparr>)
        (relay_runtime_new v (grpc_pool_new None) (Some 10))
      = Some \<lparr>re_result = Inr (), re_pool = grpc_pool_new None, re_client = Some s,
              re_upstream = Some (sample_auth @ [1, 2])\<rparr>
    \<and> payloads (fst (deframe (sent_bytes s))) = [7, 8])
   \<and> (\<exists>s. relay_request toy_crypto (sample_grpc_in\<lparr>gi_core_turns := [EncodeEnds]\<rparr>) sample_body
        (sample_stream\<lparr>ss_caps := replicate 34 (Capacity 9 None)\<rparr>) (relay_runtime_new v (grpc_pool_new None) (Some 10))
      = Some \<lparr>re_result = Inr (), re_pool = grpc_pool_new None, re_client = Some s,
              re_upstream = Some (sample_auth @ [1])\<rparr>
    \<and> payloads (fst (deframe (sent_bytes s))) = [7, 8])"
proof -
  obtain v where v: "match_auth_id toy_crypto 1000 v sample_auth = Some sample_upstream"
    using sample_auth_matches .
  let ?rt = "relay_runtime_new v (grpc_pool_new None) (Some 10)"
  let ?resp = "sample_stream\<lparr>ss_caps := replicate 34 (Capacity 9 None)\<rparr>"
  have "tcp_up sample_net sample_upstream (rt_idle_timeout ?rt)"
    by (simp add: tcp_up_def sample_net_def sample_copy_def run_ok_def relay_runtime_new_def sample_writer_def)
  moreover have "copies_streams (ne_copy sample_net)"
    by (simp add: copies_streams_def sample_net_def sample_copy_def)
  moreover have "relay_first [DecodeEnds, RelayEnds, EncodeEnds]" "\<not> relay_first [EncodeEnds]"
    by (simp_all add: relay_first_def)
  moreover have "capacity_for ?resp 34"
    by (simp add: capacity_for_def list_all_iff grants_def)
  moreover have "transport sample_upstream = Tcp" by (simp add: sample_upstream_def)
  moreover have "rt_grpc_pool ?rt = grpc_pool_new None" "rt_validator ?rt = v" by (simp_all add: relay_runtime_new_def)
  moreover have "take 17 (sample_auth @ [1, 2]) = sample_auth @ [1]" using length_sample_auth by simp
  ultimately show ?thesis
    using grpc_to_tcp_exact [OF sample_body_frames(1,2), of toy_crypto sample_grpc_in ?rt sample_upstream ?resp]
      grpc_to_tcp_exact [OF sample_body_frames(1,2), of toy_crypto "sample_grpc_in\<lparr>gi_core_turns := [EncodeEnds]\<rparr>" ?rt
        sample_upstream ?resp] v
    unfolding sample_body_frames(3)
    by (intro exI [of _ v] conjI) (simp_all add: sample_grpc_in_sel sample_pipe_law, blast+)
qed

theorem grpc_to_grpc_exact_witness:
  "\<exists>v p s. relay_request toy_crypto sample_grpc_in sample_body sample_stream
        (relay_runtime_new v (grpc_pool_new None) (Some 10))
      = Some \<lparr>re_result = Inr (), re_pool = p, re_client = Some s,
              re_upstream = Some (concat (map encode_grpc_frame sample_payloads))\<rparr>
    \<and> sent_bytes s = encode_grpc_frame [7, 8]"
proof -
  obtain v where v: "match_auth_id toy_crypto 1000 v sample_auth = Some grpc_upstream"
    using sample_auth_matches .
  let ?rt = "relay_runtime_new v (grpc_pool_new None) (Some 10)"
  obtain tn p where tn: "open_grpc_tunnel sample_net grpc_upstream (grpc_pool_new None) = (Inr tn, p)"
      "ss_sent (tn_send_stream tn) = []" "capacity_for (tn_send_stream tn) 100"
    using sample_tunnel .
  have "length (concat (map encode_grpc_frame sample_payloads)) \<le> 100"
    using encode_all_overhead [of sample_payloads] by (simp add: sample_payloads_def)
  with tn(3) have cap: "capacity_for (tn_send_stream tn) (length (concat (map encode_grpc_frame sample_payloads)))"
    by (rule capacity_for_mono)
  have small: "list_all small_payload [[7, 8]]"
    by (simp add: read_buf_small RAW_TO_GRPC_READ_BUF_SIZE_def)
  have ans: "frames_of (frame_reader_new [Chunk (encode_grpc_frame [7, 8])]) = ([encode_grpc_frame [7, 8]], None)"
    using frames_of_encoded [OF small, of "[encode_grpc_frame [7, 8]]"] by simp
  have cap2: "capacity_for sample_stream (length (concat [encode_grpc_frame [7, 8 :: u8]]))"
    using encode_overhead [of "[7, 8]"] by (simp add: capacity_for_def list_all_iff grants_def sample_stream_def)
  have "transport grpc_upstream = Grpc ''GunService'' ''example.org'' ''https://example.org/GunService/Tun''"
    by (simp add: grpc_upstream_def)
  moreover have "rt_grpc_pool ?rt = grpc_pool_new None" "rt_validator ?rt = v" "rt_idle_timeout ?rt = Some 10"
    by (simp_all add: relay_runtime_new_def)
  moreover have "both_end (Some 10) [Turn2, TurnTick 3, Turn1]" by (simp add: both_end_def)
  moreover have "sent_bytes (tn_send_stream tn) = []" "sent_bytes sample_stream = []"
    using tn(2) by (simp_all add: sent_bytes_def sample_stream_def)
  ultimately show ?thesis
    using grpc_to_grpc_exact [OF sample_body_frames(1,2), of toy_crypto sample_grpc_in ?rt grpc_upstream "''GunService''"
        "''example.org''" "''https://example.org/GunService/Tun''" tn p "[Chunk (encode_grpc_frame [7, 8])]"
        "[encode_grpc_frame [7, 8]]" sample_stream] v tn(1) cap cap2 ans
    unfolding sample_body_frames(3) sample_grpc_in_sel
    by (intro exI [of _ v] exI [of _ p]) (auto simp: sample_grpc_in_sel)
qed

end
