(* ===== verification/Config.thy ===== *)
theory Config
  imports Rust_Str
begin

text \<open>
  \<^verbatim>\<open>src/config.rs\<close>: the configuration records, their defaults, the checks made while a
  configuration is deserialised, and the resolution of local source paths. The TOML parser is a
  crate: it is a parameter that turns a text into the tables and fields found there, which are the
  records \<open>raw_...\<close>, with \<open>None\<close> for an absent field. What the \<^verbatim>\<open>serde\<close> attributes and the two
  hand-written \<^verbatim>\<open>Deserialize\<close> instances do with these fields is modelled; which of several errors
  of one document is reported first is not. \<^verbatim>\<open>std::path\<close> is modelled for Unix.

  The lemmas show that an absent table means the same as an empty one, that a source has exactly
  one location, that packet encodings print and parse back, and that local paths become absolute.
\<close>

subsection \<open>Definitions: enumerations\<close>

datatype relay_network = RelayTcp | RelayGrpc

datatype packet_encoding = PacketDefault | PacketAddr | Xudp

fun packet_encoding_as_str :: "packet_encoding \<Rightarrow> string" where
  "packet_encoding_as_str PacketDefault = ''''"
| "packet_encoding_as_str PacketAddr = ''packetaddr''"
| "packet_encoding_as_str Xudp = ''xudp''"

definition packet_encoding_parse :: "string \<Rightarrow> packet_encoding option" where
  "packet_encoding_parse value =
     (let v = to_ascii_lowercase value in
      if v = '''' \<or> v = ''default'' \<or> v = ''none'' then Some PacketDefault
      else if v = ''packetaddr'' \<or> v = ''packet_addr'' \<or> v = ''packet-addr'' then Some PacketAddr
      else if v = ''xudp'' then Some Xudp
      else None)"

definition packet_encoding_deserialize :: "string \<Rightarrow> packet_encoding result" where
  "packet_encoding_deserialize value = ok_or (packet_encoding_parse value) (InvalidField ''packet_encoding'')"

definition relay_network_deserialize :: "string \<Rightarrow> relay_network result" where
  "relay_network_deserialize value =
     (if value = ''tcp'' then Inr RelayTcp
      else if value = ''grpc'' then Inr RelayGrpc
      else Inl (InvalidField ''network''))"

subsection \<open>Definitions: configuration records\<close>

record process_step =
  ps_filter :: "string list"
  ps_filter_source :: "string list"
  ps_invert :: bool
  ps_remove :: bool
  ps_rename :: "(string \<times> string) list"
  ps_remove_emoji :: bool
  ps_override_security :: "string option"
  ps_packet_encoding :: "packet_encoding option"

record subscription_source =
  src_name :: string
  src_url :: "string option"
  src_path :: "string option"
  src_user_agent :: string
  src_process :: "process_step list"

record subscription_config =
  cache_file :: "string option"
  update_interval :: nat
  sources :: "subscription_source list"
  deduplication :: string

record output_config =
  oc_name :: string
  oc_host :: string
  oc_port :: nat
  oc_sni :: "string option"
  oc_skip_cert_verify :: bool
  oc_process :: "process_step list"

record http_user =
  username :: string
  password :: string
  user_outputs :: "string list option"

record http_config =
  http_listen :: string
  http_port :: nat
  http_users :: "http_user list"
  http_outputs :: "output_config list"

record relay_config =
  relay_listen :: string
  relay_port :: nat
  relay_network :: relay_network
  relay_service_name :: string
  relay_idle_timeout :: nat
  grpc_pool_idle_timeout :: nat

record config =
  log_level :: string
  relay :: relay_config
  http :: http_config
  subscription :: subscription_config

subsection \<open>Definitions: defaults\<close>

definition default_log_level :: string where "default_log_level = ''info''"
definition default_deduplication :: string where "default_deduplication = ''rename''"
definition default_user_agent :: string where
  "default_user_agent = ''tobira/0.5 (like dae/1.0) (like v2rayA/1.0 WebRequestHelper) (like v2rayN/1.0 WebRequestHelper)''"
definition default_listen :: string where "default_listen = ''[::]''"
definition default_relay_port :: nat where "default_relay_port = 10808"
definition default_relay_network :: relay_network where "default_relay_network = RelayTcp"
definition default_service_name :: string where "default_service_name = ''GunService''"
definition default_http_port :: nat where "default_http_port = 8080"

definition default_subscription_config :: subscription_config where
  "default_subscription_config =
     \<lparr>cache_file = None, update_interval = 0, sources = [], deduplication = default_deduplication\<rparr>"

definition default_relay_config :: relay_config where
  "default_relay_config =
     \<lparr>relay_listen = default_listen, relay_port = default_relay_port, relay_network = default_relay_network,
      relay_service_name = default_service_name, relay_idle_timeout = 0, grpc_pool_idle_timeout = 0\<rparr>"

definition default_http_config :: http_config where
  "default_http_config =
     \<lparr>http_listen = default_listen, http_port = default_http_port, http_users = [], http_outputs = []\<rparr>"

subsection \<open>Definitions: deserialisation\<close>

record raw_step =
  rs_filter :: "string list option"
  rs_filter_source :: "string list option"
  rs_invert :: "bool option"
  rs_remove :: "bool option"
  rs_rename :: "(string \<times> string) list option"
  rs_remove_emoji :: "bool option"
  rs_override_security :: "string option"
  rs_packet_encoding :: "string option"

record raw_source =
  rr_name :: "string option"
  rr_url :: "string option"
  rr_path :: "string option"
  rr_user_agent :: "string option"
  rr_process :: "raw_step list option"

record raw_subscription =
  rb_cache_file :: "string option"
  rb_update_interval :: "int option"
  rb_sources :: "raw_source list option"
  rb_deduplication :: "string option"

record raw_output =
  ro_name :: "string option"
  ro_host :: "string option"
  ro_port :: "int option"
  ro_sni :: "string option"
  ro_skip_cert_verify :: "bool option"
  ro_process :: "raw_step list option"
  ro_unknown :: "string list" \<comment> \<open>fields of the table that are none of the above\<close>

record raw_user =
  ru_username :: "string option"
  ru_password :: "string option"
  ru_outputs :: "string list option"

record raw_http =
  rh_listen :: "string option"
  rh_port :: "int option"
  rh_users :: "raw_user list option"
  rh_outputs :: "raw_output list option"

record raw_relay =
  ry_listen :: "string option"
  ry_port :: "int option"
  ry_network :: "string option"
  ry_service_name :: "string option"
  ry_idle_timeout :: "int option"
  ry_grpc_pool_idle_timeout :: "int option"

record raw_config =
  rc_log_level :: "string option"
  rc_relay :: "raw_relay option"
  rc_http :: "raw_http option"
  rc_subscription :: "raw_subscription option"

definition or_default :: "'a option \<Rightarrow> 'a \<Rightarrow> 'a" where
  "or_default x d = (case x of None \<Rightarrow> d | Some v \<Rightarrow> v)"

definition required :: "string \<Rightarrow> 'a option \<Rightarrow> 'a result" where
  "required name x = ok_or x (MissingField name)"

definition uint_field :: "string \<Rightarrow> nat \<Rightarrow> int \<Rightarrow> nat result" where
  "uint_field name bound v = (if 0 \<le> v \<and> v < int bound then Inr (nat v) else Inl (InvalidField name))"

definition opt_field :: "('a \<Rightarrow> 'b result) \<Rightarrow> 'a option \<Rightarrow> 'b option result" where
  "opt_field f x = (case x of None \<Rightarrow> Inr None | Some v \<Rightarrow> bind_result (f v) (\<lambda>y. Inr (Some y)))"

definition deserialize_step :: "raw_step \<Rightarrow> process_step result" where
  "deserialize_step r =
     bind_result (opt_field packet_encoding_deserialize (rs_packet_encoding r)) (\<lambda>enc.
     Inr \<lparr>ps_filter = or_default (rs_filter r) [], ps_filter_source = or_default (rs_filter_source r) [],
          ps_invert = or_default (rs_invert r) False, ps_remove = or_default (rs_remove r) False,
          ps_rename = or_default (rs_rename r) [], ps_remove_emoji = or_default (rs_remove_emoji r) False,
          ps_override_security = rs_override_security r, ps_packet_encoding = enc\<rparr>)"

definition filter_blank :: "string option \<Rightarrow> string option" where
  "filter_blank x = (case x of None \<Rightarrow> None | Some s \<Rightarrow> if trim s = [] then None else Some s)"

definition deserialize_source :: "raw_source \<Rightarrow> subscription_source result" where
  "deserialize_source r =
     bind_result (required ''name'' (rr_name r)) (\<lambda>name.
     bind_result (map_result deserialize_step (or_default (rr_process r) [])) (\<lambda>process.
       let url = filter_blank (rr_url r); path = filter_blank (rr_path r) in
       case (url \<noteq> None, path \<noteq> None) of
         (True, True) \<Rightarrow> Inl SourceBothLocations
       | (False, False) \<Rightarrow> Inl SourceNoLocation
       | _ \<Rightarrow> Inr \<lparr>src_name = name, src_url = url, src_path = path,
                   src_user_agent = or_default (rr_user_agent r) default_user_agent, src_process = process\<rparr>))"

definition deserialize_subscription :: "raw_subscription \<Rightarrow> subscription_config result" where
  "deserialize_subscription r =
     bind_result (opt_field (uint_field ''update_interval'' (2 ^ 64)) (rb_update_interval r)) (\<lambda>ui.
     bind_result (map_result deserialize_source (or_default (rb_sources r) [])) (\<lambda>srcs.
     Inr \<lparr>cache_file = rb_cache_file r, update_interval = or_default ui 0, sources = srcs,
          deduplication = or_default (rb_deduplication r) default_deduplication\<rparr>))"

definition deserialize_output :: "raw_output \<Rightarrow> output_config result" where
  "deserialize_output r =
     (case ro_unknown r of
        f # _ \<Rightarrow> Inl (UnknownField f)
      | [] \<Rightarrow>
          bind_result (required ''name'' (ro_name r)) (\<lambda>name.
          bind_result (required ''host'' (ro_host r)) (\<lambda>host.
          bind_result (required ''port'' (ro_port r)) (\<lambda>p.
          bind_result (uint_field ''port'' 65536 p) (\<lambda>port.
          bind_result (map_result deserialize_step (or_default (ro_process r) [])) (\<lambda>process.
          Inr \<lparr>oc_name = name, oc_host = host, oc_port = port, oc_sni = ro_sni r,
               oc_skip_cert_verify = or_default (ro_skip_cert_verify r) False, oc_process = process\<rparr>))))))"

definition deserialize_user :: "raw_user \<Rightarrow> http_user result" where
  "deserialize_user r =
     bind_result (required ''username'' (ru_username r)) (\<lambda>u.
     bind_result (required ''password'' (ru_password r)) (\<lambda>p.
     Inr \<lparr>username = u, password = p, user_outputs = ru_outputs r\<rparr>))"

definition deserialize_http :: "raw_http \<Rightarrow> http_config result" where
  "deserialize_http r =
     bind_result (opt_field (uint_field ''port'' 65536) (rh_port r)) (\<lambda>port.
     bind_result (map_result deserialize_user (or_default (rh_users r) [])) (\<lambda>us.
     bind_result (map_result deserialize_output (or_default (rh_outputs r) [])) (\<lambda>outs.
     Inr \<lparr>http_listen = or_default (rh_listen r) default_listen, http_port = or_default port default_http_port,
          http_users = us, http_outputs = outs\<rparr>)))"

definition deserialize_relay :: "raw_relay \<Rightarrow> relay_config result" where
  "deserialize_relay r =
     bind_result (opt_field (uint_field ''port'' 65536) (ry_port r)) (\<lambda>port.
     bind_result (opt_field relay_network_deserialize (ry_network r)) (\<lambda>net.
     bind_result (opt_field (uint_field ''idle_timeout'' (2 ^ 64)) (ry_idle_timeout r)) (\<lambda>idle.
     bind_result (opt_field (uint_field ''grpc_pool_idle_timeout'' (2 ^ 64)) (ry_grpc_pool_idle_timeout r)) (\<lambda>pool_idle.
     Inr \<lparr>relay_listen = or_default (ry_listen r) default_listen,
          relay_port = or_default port default_relay_port,
          relay_network = or_default net default_relay_network,
          relay_service_name = or_default (ry_service_name r) default_service_name,
          relay_idle_timeout = or_default idle 0, grpc_pool_idle_timeout = or_default pool_idle 0\<rparr>))))"

definition table_field :: "('a \<Rightarrow> 'b result) \<Rightarrow> 'b \<Rightarrow> 'a option \<Rightarrow> 'b result" where
  "table_field f d x = (case x of None \<Rightarrow> Inr d | Some v \<Rightarrow> f v)"

definition deserialize_config :: "raw_config \<Rightarrow> config result" where
  "deserialize_config r =
     bind_result (table_field deserialize_relay default_relay_config (rc_relay r)) (\<lambda>rel.
     bind_result (table_field deserialize_http default_http_config (rc_http r)) (\<lambda>htt.
     bind_result (table_field deserialize_subscription default_subscription_config (rc_subscription r)) (\<lambda>sub.
     Inr \<lparr>log_level = or_default (rc_log_level r) default_log_level, relay = rel, http = htt, subscription = sub\<rparr>)))"

subsection \<open>Definitions: paths\<close>

definition is_absolute :: "string \<Rightarrow> bool" where
  "is_absolute p = starts_with p ''/''"

text \<open>\<^verbatim>\<open>Components::len_before_body\<close>: a root, or a leading dot that is a component.\<close>

definition len_before_body :: "string \<Rightarrow> nat" where
  "len_before_body p =
     (if is_absolute p then 1 else if p = ''.'' \<or> starts_with p ''./'' then 1 else 0)"

definition last_component :: "string \<Rightarrow> string" where
  "last_component body = rev (takeWhile (\<lambda>c. c \<noteq> CHR ''/'') (rev body))"

definition drop_last_component :: "nat \<Rightarrow> string \<Rightarrow> string" where
  "drop_last_component start p =
     (let body = drop start p; comp = last_component body in
      take (length p - (length comp + (if CHR ''/'' \<in> set body then 1 else 0))) p)"

lemma drop_last_component_shorter:
  assumes "start < length p"
  shows "length (drop_last_component start p) < length p"
proof -
  have "0 < length (last_component (drop start p)) \<or> CHR ''/'' \<in> set (drop start p)"
  proof (cases "rev (drop start p)")
    case Nil
    with assms show ?thesis by simp
  next
    case (Cons c r)
    then have "c \<in> set (drop start p)" by (metis list.set_intros(1) set_rev)
    with Cons show ?thesis by (auto simp: last_component_def)
  qed
  then show ?thesis using assms by (auto simp: drop_last_component_def Let_def intro!: diff_less)
qed

function trim_right :: "nat \<Rightarrow> string \<Rightarrow> string" where
  "trim_right start p =
     (if start < length p \<and> last_component (drop start p) \<in> {'''', ''.''}
      then trim_right start (drop_last_component start p)
      else p)"
  by pat_completeness auto
termination
  by (relation "measure (\<lambda>(start, p). length p)") (simp_all add: drop_last_component_shorter)

declare trim_right.simps [simp del]

definition path_parent :: "string \<Rightarrow> string option" where
  "path_parent p =
     (let start = len_before_body p; q = trim_right start p in
      if start < length q then Some (trim_right start (drop_last_component start q))
      else if is_absolute p then None
      else if start = 1 then Some ''''
      else None)"

definition path_join :: "string \<Rightarrow> string \<Rightarrow> string" where
  "path_join a b =
     (if is_absolute b then b
      else if a \<noteq> [] \<and> last a \<noteq> CHR ''/'' then a @ ''/'' @ b
      else a @ b)"

definition resolve_source_path :: "string \<Rightarrow> subscription_source \<Rightarrow> subscription_source" where
  "resolve_source_path config_dir source =
     (case src_path source of
        None \<Rightarrow> source
      | Some path \<Rightarrow>
          if is_absolute path then source
          else source\<lparr>src_path := Some (path_join config_dir path)\<rparr>)"

definition resolve_local_source_paths :: "config \<Rightarrow> string \<Rightarrow> config" where
  "resolve_local_source_paths cfg config_path =
     (let config_dir = (case path_parent config_path of None \<Rightarrow> '''' | Some d \<Rightarrow> d) in
      cfg\<lparr>subscription := (subscription cfg)\<lparr>sources :=
        map (resolve_source_path config_dir) (sources (subscription cfg))\<rparr>\<rparr>)"

definition load :: "(string \<Rightarrow> string result) \<Rightarrow> (string \<Rightarrow> raw_config result) \<Rightarrow> string \<Rightarrow> config result" where
  "load read_to_string toml path =
     bind_result (read_to_string path) (\<lambda>content.
     bind_result (toml content) (\<lambda>raw.
     bind_result (deserialize_config raw) (\<lambda>cfg.
     Inr (resolve_local_source_paths cfg path))))"

subsection \<open>Packet encodings\<close>

lemma ascii_lower_idem [simp]: "ascii_lower (ascii_lower c) = ascii_lower c"
  by (auto simp: ascii_lower_def)

lemma to_ascii_lowercase_idem [simp]: "to_ascii_lowercase (to_ascii_lowercase s) = to_ascii_lowercase s"
  by (simp add: to_ascii_lowercase_def)

text \<open>
  The text of a packet encoding deserialises to it, and
  deserialisation ignores the case of ASCII letters.
\<close>

theorem packet_encoding_roundtrip:
  "packet_encoding_deserialize (packet_encoding_as_str e) = Inr e
   \<and> packet_encoding_deserialize (to_ascii_lowercase v) = packet_encoding_deserialize v"
proof
  show "packet_encoding_deserialize (packet_encoding_as_str e) = Inr e"
    by (cases e) (simp_all add: packet_encoding_deserialize_def packet_encoding_parse_def Let_def
        to_ascii_lowercase_def ascii_lower_def)
  show "packet_encoding_deserialize (to_ascii_lowercase v) = packet_encoding_deserialize v"
    by (simp add: packet_encoding_deserialize_def packet_encoding_parse_def)
qed

subsection \<open>Defaults\<close>

definition empty_relay :: raw_relay where
  "empty_relay = \<lparr>ry_listen = None, ry_port = None, ry_network = None, ry_service_name = None,
     ry_idle_timeout = None, ry_grpc_pool_idle_timeout = None\<rparr>"

definition empty_http :: raw_http where
  "empty_http = \<lparr>rh_listen = None, rh_port = None, rh_users = None, rh_outputs = None\<rparr>"

definition empty_subscription :: raw_subscription where
  "empty_subscription = \<lparr>rb_cache_file = None, rb_update_interval = None, rb_sources = None,
     rb_deduplication = None\<rparr>"

text \<open>
  Leaving a table of the configuration out means the same as
  writing it without fields: the \<^verbatim>\<open>Default\<close> instances agree with the defaults of the fields.
\<close>

theorem absent_table_is_empty_table:
  "deserialize_config r =
   deserialize_config (r\<lparr>rc_relay := Some (or_default (rc_relay r) empty_relay),
     rc_http := Some (or_default (rc_http r) empty_http),
     rc_subscription := Some (or_default (rc_subscription r) empty_subscription)\<rparr>)"
proof -
  have "deserialize_relay empty_relay = Inr default_relay_config"
    and "deserialize_http empty_http = Inr default_http_config"
    and "deserialize_subscription empty_subscription = Inr default_subscription_config"
    by (simp_all add: deserialize_relay_def deserialize_http_def deserialize_subscription_def empty_relay_def
        empty_http_def empty_subscription_def default_relay_config_def default_http_config_def
        default_subscription_config_def opt_field_def or_default_def)
  then show ?thesis
    by (cases "rc_relay r"; cases "rc_http r"; cases "rc_subscription r")
      (simp_all add: deserialize_config_def table_field_def or_default_def)
qed

subsection \<open>Sources have one location\<close>

text \<open>A location is blank when it is absent or only white space.\<close>

definition blank :: "string option \<Rightarrow> bool" where
  "blank x \<longleftrightarrow> (case x of None \<Rightarrow> True | Some s \<Rightarrow> trim s = [])"

definition one_location :: "subscription_source \<Rightarrow> bool" where
  "one_location s \<longleftrightarrow> \<not> blank (src_url s) \<and> src_path s = None \<or> src_url s = None \<and> \<not> blank (src_path s)"

lemma filter_blank_eq [simp]: "filter_blank x = (if blank x then None else x)"
  by (cases x) (auto simp: filter_blank_def blank_def)

lemma blank_None [simp]: "blank None"
  by (simp add: blank_def)

lemma not_blank_Some [simp]: "\<not> blank x \<Longrightarrow> \<exists>y. x = Some y"
  by (cases x) auto

lemma deserialize_source_Inr:
  "deserialize_source r = Inr s \<Longrightarrow> one_location s \<and> blank (rr_url r) \<noteq> blank (rr_path r)"
  by (auto simp: deserialize_source_def Let_def one_location_def split: if_splits bool.splits)

lemma map_result_list_all:
  "map_result f xs = Inr ys \<Longrightarrow> (\<And>x y. f x = Inr y \<Longrightarrow> P y) \<Longrightarrow> list_all P ys"
  by (induction xs arbitrary: ys) auto

text \<open>
  A source is accepted only when exactly one of its two locations is
  not blank, and then keeps that one and drops the other; two locations and no location are
  reported as different errors. So every source of an accepted configuration has exactly one
  location.
\<close>

theorem source_location_checked:
  assumes "required ''name'' (rr_name r) = Inr n"
    and "map_result deserialize_step (or_default (rr_process r) []) = Inr p"
  shows "(case deserialize_source r of
      Inr s \<Rightarrow> blank (rr_url r) \<noteq> blank (rr_path r) \<and> one_location s
        \<and> (if blank (rr_path r) then src_url s = rr_url r else src_path s = rr_path r)
    | Inl e \<Rightarrow> e = (if blank (rr_url r) then SourceNoLocation else SourceBothLocations)
        \<and> blank (rr_url r) = blank (rr_path r))
    \<and> (\<forall>raw cfg. deserialize_config raw = Inr cfg \<longrightarrow> list_all one_location (sources (subscription cfg)))"
proof
  show "case deserialize_source r of
      Inr s \<Rightarrow> blank (rr_url r) \<noteq> blank (rr_path r) \<and> one_location s
        \<and> (if blank (rr_path r) then src_url s = rr_url r else src_path s = rr_path r)
    | Inl e \<Rightarrow> e = (if blank (rr_url r) then SourceNoLocation else SourceBothLocations)
        \<and> blank (rr_url r) = blank (rr_path r)"
    using assms
    by (cases "blank (rr_url r)"; cases "blank (rr_path r)")
      (auto simp: deserialize_source_def Let_def one_location_def)
next
  have "list_all one_location (sources s)" if "deserialize_subscription r = Inr s" for r s
    using that by (auto simp: deserialize_subscription_def dest: deserialize_source_Inr elim!: map_result_list_all)
  then show "\<forall>raw cfg. deserialize_config raw = Inr cfg \<longrightarrow> list_all one_location (sources (subscription cfg))"
    by (auto simp: deserialize_config_def table_field_def default_subscription_config_def split: option.splits)
qed

theorem source_location_checked_witness:
  "case deserialize_source \<lparr>rr_name = Some ''s'', rr_url = Some ''http://x'', rr_path = None,
       rr_user_agent = None, rr_process = None\<rparr> of
     Inr s \<Rightarrow> one_location s | Inl e \<Rightarrow> e = SourceNoLocation"
proof -
  let ?r = "\<lparr>rr_name = Some ''s'', rr_url = Some ''http://x'', rr_path = None,
       rr_user_agent = None, rr_process = None\<rparr> :: raw_source"
  have u: "\<not> blank (Some ''http://x'')"
    by (simp add: blank_def trim_def chars_def is_whitespace_def from_chars_def utf8_encode_def)
  have "required ''name'' (rr_name ?r) = Inr ''s''"
    and "map_result deserialize_step (or_default (rr_process ?r) []) = Inr []"
    by (simp_all add: required_def or_default_def)
  from source_location_checked [OF this] u show ?thesis
    by (cases "deserialize_source ?r") auto
qed

subsection \<open>Local paths\<close>

lemma drop_last_component_keeps:
  assumes "start \<le> length p"
  shows "start \<le> length (drop_last_component start p)
    \<and> take start (drop_last_component start p) = take start p"
proof -
  let ?b = "drop start p"
  have "length (last_component ?b) \<le> length ?b"
    by (simp add: last_component_def) (metis length_rev length_takeWhile_le length_drop)
  moreover have "length (last_component ?b) < length ?b" if "CHR ''/'' \<in> set ?b"
  proof -
    have "takeWhile (\<lambda>c. c \<noteq> CHR ''/'') (rev ?b) \<noteq> rev ?b"
      using that by (metis (mono_tags, lifting) set_rev set_takeWhileD)
    then show ?thesis
      by (metis last_component_def length_rev length_takeWhile_le le_neq_implies_less takeWhile_eq_take take_all_iff)
  qed
  ultimately show ?thesis
    using assms by (auto simp: drop_last_component_def Let_def min_def)
qed

lemma trim_right_keeps:
  "start \<le> length p \<Longrightarrow> start \<le> length (trim_right start p) \<and> take start (trim_right start p) = take start p"
proof (induction start p rule: trim_right.induct)
  case (1 start p)
  then show ?case
    using drop_last_component_keeps [of start p] trim_right.simps [of start p] by (auto split: if_splits)
qed

lemma is_absolute_take: "is_absolute p \<longleftrightarrow> take 1 p = ''/''"
  by (simp add: is_absolute_def starts_with_def)

lemma path_parent_absolute:
  assumes "is_absolute p" and "path_parent p = Some d"
  shows "is_absolute d"
proof -
  have st: "len_before_body p = 1" and "1 \<le> length p"
    using assms(1) by (cases p; simp add: len_before_body_def is_absolute_def starts_with_def)+
  let ?q = "trim_right 1 p"
  have q: "1 \<le> length ?q" "take 1 ?q = take 1 p" using trim_right_keeps [OF \<open>1 \<le> length p\<close>] by auto
  have d: "d = trim_right 1 (drop_last_component 1 ?q)"
    using assms st by (auto simp: path_parent_def Let_def split: if_splits)
  have "take 1 d = take 1 p"
    unfolding d using q drop_last_component_keeps [OF q(1)]
      trim_right_keeps [of 1 "drop_last_component 1 ?q"] by simp
  with assms(1) show ?thesis by (simp only: is_absolute_take)
qed

lemma path_join_absolute: "is_absolute a \<Longrightarrow> is_absolute (path_join a b)"
  by (cases a) (auto simp: path_join_def is_absolute_def starts_with_def)

lemma load_InrD:
  "load rd toml path = Inr cfg \<Longrightarrow> \<exists>content raw cfg0. rd path = Inr content \<and> toml content = Inr raw
     \<and> deserialize_config raw = Inr cfg0 \<and> cfg = resolve_local_source_paths cfg0 path"
  by (auto simp: load_def)

text \<open>
  When the configuration file is named by an absolute path with a
  parent directory, every local source of the loaded configuration has an absolute path, remote
  sources are as in the file, and resolving the paths again changes nothing.
\<close>

theorem loaded_paths_absolute:
  assumes "is_absolute path" and "path_parent path = Some dir" and "load rd toml path = Inr cfg"
  shows "list_all (\<lambda>s. case src_path s of None \<Rightarrow> True | Some p \<Rightarrow> is_absolute p) (sources (subscription cfg))
    \<and> resolve_local_source_paths cfg path = cfg"
proof -
  obtain cfg0 where cfg: "cfg = resolve_local_source_paths cfg0 path"
    using load_InrD [OF assms(3)] by blast
  have dir: "is_absolute dir" by (rule path_parent_absolute [OF assms(1,2)])
  have abs: "case src_path (resolve_source_path dir s) of None \<Rightarrow> True | Some p \<Rightarrow> is_absolute p" for s
    using path_join_absolute [OF dir] by (simp add: resolve_source_path_def split: option.splits)
  have idem: "resolve_source_path dir (resolve_source_path dir s) = resolve_source_path dir s" for s
    using abs [of s] by (auto simp: resolve_source_path_def [of dir "resolve_source_path dir s"] split: option.splits)
  have src: "sources (subscription cfg) = map (resolve_source_path dir) (sources (subscription cfg0))"
    by (simp add: cfg resolve_local_source_paths_def assms(2))
  show ?thesis
  proof
    show "list_all (\<lambda>s. case src_path s of None \<Rightarrow> True | Some p \<Rightarrow> is_absolute p) (sources (subscription cfg))"
      unfolding src using abs by (simp add: list_all_iff)
    show "resolve_local_source_paths cfg path = cfg"
      by (simp add: cfg resolve_local_source_paths_def assms(2) idem o_def)
  qed
qed

definition sample_raw :: raw_config where
  "sample_raw = \<lparr>rc_log_level = None, rc_relay = None, rc_http = None,
     rc_subscription = Some (empty_subscription\<lparr>rb_sources := Some [\<lparr>rr_name = Some ''l'', rr_url = None,
       rr_path = Some ''subs.txt'', rr_user_agent = None, rr_process = None\<rparr>]\<rparr>)\<rparr>"

theorem loaded_paths_absolute_witness:
  "\<exists>cfg. load Inr (\<lambda>_. Inr sample_raw) ''/etc/tobira.toml'' = Inr cfg
    \<and> map src_path (sources (subscription cfg)) = [Some ''/etc/subs.txt'']
    \<and> resolve_local_source_paths cfg ''/etc/tobira.toml'' = cfg"
proof -
  have b: "\<not> blank (Some ''subs.txt'')"
    by (simp add: blank_def trim_def chars_def is_whitespace_def from_chars_def utf8_encode_def)
  have p: "path_parent ''/etc/tobira.toml'' = Some ''/etc''" by code_simp
  have "\<exists>cfg. deserialize_config sample_raw = Inr cfg
      \<and> map src_path (sources (subscription cfg)) = [Some ''subs.txt'']"
    by (simp add: deserialize_config_def table_field_def sample_raw_def deserialize_subscription_def
        empty_subscription_def opt_field_def or_default_def deserialize_source_def required_def b)
  then obtain cfg0 where d: "deserialize_config sample_raw = Inr cfg0"
      "map src_path (sources (subscription cfg0)) = [Some ''subs.txt'']" by (elim exE conjE) (rule that)
  define cfg where "cfg = resolve_local_source_paths cfg0 ''/etc/tobira.toml''"
  have l: "load Inr (\<lambda>_. Inr sample_raw) ''/etc/tobira.toml'' = Inr cfg"
    by (simp add: load_def d cfg_def)
  have m: "map src_path (sources (subscription cfg)) = [Some ''/etc/subs.txt'']"
    using d(2) by (auto simp: cfg_def resolve_local_source_paths_def p resolve_source_path_def is_absolute_def
        starts_with_def path_join_def)
  have "is_absolute ''/etc/tobira.toml''" by (simp add: is_absolute_def starts_with_def)
  from loaded_paths_absolute [OF this p l] l m show ?thesis by (intro exI [of _ cfg] conjI) simp_all
qed

end
