(* ===== verification/Sub_Parser.thy ===== *)
theory Sub_Parser
  imports Config
begin

text \<open>
  \<^verbatim>\<open>src/subscription/parser.rs\<close>: VMess links in their three formats and subscription bodies. The
  URL parser, the four base64 engines, the JSON reader and the Unicode case tables are library
  code: they are the fields of the parameter \<open>parse_env\<close>. The deserialisation of the v2rayN object,
  with its string-or-integer fields, is modelled on JSON values.

  The lemmas give the outcome of the node builder on every branch, the well-formedness of every
  node a subscription yields, and the way a body is cut into links.
\<close>

subsection \<open>Definitions: nodes and library parameters\<close>

record vmess_node =
  n_name :: string
  n_source :: string
  n_server :: string
  n_port :: nat
  n_uuid :: string
  n_alter_id :: nat
  n_security :: string
  n_network :: string
  n_tls :: bool
  n_sni :: string
  n_grpc_service_name :: "string option"
  n_ws_path :: "string option"
  n_ws_host :: "string option"
  n_packet_encoding :: packet_encoding

definition empty_source :: string where
  "empty_source = ''''"

record url =
  url_username :: string
  url_host_str :: "string option"
  url_port :: "nat option"
  url_path :: string
  url_query :: "string option"
  url_query_pairs :: "(string \<times> string) list"
  url_fragment :: "string option"

datatype json =
    JNull
  | JBool bool
  | JInt int
  | JFloat string \<comment> \<open>any number that is no 64-bit integer, by its text\<close>
  | JStr string
  | JArr "json list"
  | JObj "(string \<times> json) list"

record parse_env =
  url_parse :: "string \<Rightarrow> url option"
  b64_standard :: "string \<Rightarrow> string option"
  b64_standard_no_pad :: "string \<Rightarrow> string option"
  b64_url_safe :: "string \<Rightarrow> string option"
  b64_url_safe_no_pad :: "string \<Rightarrow> string option"
  json_from_str :: "string \<Rightarrow> json option"
  unicode_lowercase :: "string \<Rightarrow> string"

text \<open>\<^verbatim>\<open>str::to_lowercase\<close>: the ASCII letters; beyond ASCII the Unicode tables decide.\<close>

definition to_lowercase :: "parse_env \<Rightarrow> string \<Rightarrow> string" where
  "to_lowercase env s = (if is_ascii s then to_ascii_lowercase s else unicode_lowercase env s)"

subsection \<open>Definitions: the v2rayN object\<close>

text \<open>
  \<^verbatim>\<open>StringOrInt\<close> holds an \<^verbatim>\<open>i64\<close>. A JSON integer reaches the visitor as \<^verbatim>\<open>u64\<close> when it is not negative,
  and the cast to \<^verbatim>\<open>i64\<close> wraps around.
\<close>

definition u64_as_i64 :: "int \<Rightarrow> int" where
  "u64_as_i64 v = (if v < 2 ^ 63 then v else v - 2 ^ 64)"

fun string_or_int :: "json \<Rightarrow> int result" where
  "string_or_int (JInt v) =
     (if 0 \<le> v \<and> v < 2 ^ 64 then Inr (u64_as_i64 v)
      else if - (2 ^ 63) \<le> v \<and> v < 0 then Inr v
      else Inl JsonError)"
| "string_or_int (JStr s) = (if s = [] then Inr 0 else ok_or (parse_i64 s) JsonError)"
| "string_or_int _ = Inl JsonError"

fun json_string :: "json \<Rightarrow> string result" where
  "json_string (JStr s) = Inr s"
| "json_string _ = Inl JsonError"

definition json_packet_encoding :: "json \<Rightarrow> packet_encoding result" where
  "json_packet_encoding j = bind_result (json_string j) (\<lambda>s. ok_or (packet_encoding_parse s) JsonError)"

record v2rayn_json =
  v_v :: int
  v_ps :: string
  v_add :: string
  v_port :: int
  v_id :: string
  v_aid :: int
  v_net :: string
  v_type :: string
  v_host :: string
  v_path :: string
  v_tls :: string
  v_sni :: string
  v_scy :: string
  v_packet_encoding :: packet_encoding

definition v2rayn_default :: v2rayn_json where
  "v2rayn_default = \<lparr>v_v = 0, v_ps = '''', v_add = '''', v_port = 0, v_id = '''', v_aid = 0, v_net = '''',
     v_type = '''', v_host = '''', v_path = '''', v_tls = '''', v_sni = '''', v_scy = '''',
     v_packet_encoding = PacketDefault\<rparr>"

definition v2rayn_fields :: "string list" where
  "v2rayn_fields = [''v'', ''ps'', ''add'', ''port'', ''id'', ''aid'', ''net'', ''type'', ''host'', ''path'',
     ''tls'', ''sni'', ''scy'', ''packetEncoding'']"

text \<open>The derived instance: the name of a field with its alias resolved, a repeated field an error.\<close>

definition field_name :: "string \<Rightarrow> string" where
  "field_name k = (if k = ''packetencoding'' then ''packetEncoding'' else k)"

definition json_field :: "(string \<times> json) list \<Rightarrow> string \<Rightarrow> (json \<Rightarrow> 'a result) \<Rightarrow> 'a \<Rightarrow> 'a result" where
  "json_field fs name f d =
     (case filter (\<lambda>kv. field_name (fst kv) = name) fs of
        [] \<Rightarrow> Inr d
      | [kv] \<Rightarrow> f (snd kv)
      | _ \<Rightarrow> Inl JsonError)"

definition v2rayn_from_fields :: "(string \<times> json) list \<Rightarrow> v2rayn_json result" where
  "v2rayn_from_fields fs =
     bind_result (json_field fs ''v'' string_or_int 0) (\<lambda>v.
     bind_result (json_field fs ''ps'' json_string '''') (\<lambda>ps.
     bind_result (json_field fs ''add'' json_string '''') (\<lambda>add.
     bind_result (json_field fs ''port'' string_or_int 0) (\<lambda>port.
     bind_result (json_field fs ''id'' json_string '''') (\<lambda>idv.
     bind_result (json_field fs ''aid'' string_or_int 0) (\<lambda>aid.
     bind_result (json_field fs ''net'' json_string '''') (\<lambda>net.
     bind_result (json_field fs ''type'' json_string '''') (\<lambda>ty.
     bind_result (json_field fs ''host'' json_string '''') (\<lambda>host.
     bind_result (json_field fs ''path'' json_string '''') (\<lambda>path.
     bind_result (json_field fs ''tls'' json_string '''') (\<lambda>tls.
     bind_result (json_field fs ''sni'' json_string '''') (\<lambda>sni.
     bind_result (json_field fs ''scy'' json_string '''') (\<lambda>scy.
     bind_result (json_field fs ''packetEncoding'' json_packet_encoding PacketDefault) (\<lambda>enc.
     Inr \<lparr>v_v = v, v_ps = ps, v_add = add, v_port = port, v_id = idv, v_aid = aid, v_net = net, v_type = ty,
          v_host = host, v_path = path, v_tls = tls, v_sni = sni, v_scy = scy,
          v_packet_encoding = enc\<rparr>))))))))))))))"

text \<open>A derived struct is read from an object, or from an array in the order of the fields.\<close>

fun v2rayn_deserialize :: "json \<Rightarrow> v2rayn_json result" where
  "v2rayn_deserialize (JObj fs) = v2rayn_from_fields fs"
| "v2rayn_deserialize (JArr xs) =
     (if length xs \<le> length v2rayn_fields then v2rayn_from_fields (zip v2rayn_fields xs) else Inl JsonError)"
| "v2rayn_deserialize _ = Inl JsonError"

subsection \<open>Definitions: building a node\<close>

definition alter_id_of :: "int \<Rightarrow> nat" where
  "alter_id_of aid = nat (max aid 0) mod 2 ^ 32"

definition node_network :: "parse_env \<Rightarrow> v2rayn_json \<Rightarrow> string" where
  "node_network env opts = (if v_net opts = [] then ''tcp'' else to_lowercase env (v_net opts))"

definition node_sni :: "v2rayn_json \<Rightarrow> string" where
  "node_sni opts =
     (if v_sni opts \<noteq> [] then v_sni opts else if v_host opts \<noteq> [] then v_host opts else v_add opts)"

definition node_of_opts :: "parse_env \<Rightarrow> v2rayn_json \<Rightarrow> vmess_node" where
  "node_of_opts env opts =
     (let network = node_network env opts in
      \<lparr>n_name = v_ps opts, n_source = empty_source, n_server = v_add opts, n_port = nat (v_port opts),
       n_uuid = v_id opts, n_alter_id = alter_id_of (v_aid opts),
       n_security = (if v_scy opts = [] then ''auto'' else v_scy opts),
       n_network = network,
       n_tls = (v_tls opts = ''tls'' \<or> v_tls opts = ''true'' \<or> v_tls opts = ''1''),
       n_sni = node_sni opts,
       n_grpc_service_name = (if network = ''grpc'' then Some (v_path opts) else None),
       n_ws_path = (if network = ''ws'' then Some (v_path opts) else None),
       n_ws_host = (if network = ''ws'' \<and> v_host opts \<noteq> [] then Some (v_host opts) else None),
       n_packet_encoding = v_packet_encoding opts\<rparr>)"

definition build_node :: "parse_env \<Rightarrow> v2rayn_json \<Rightarrow> vmess_node result" where
  "build_node env opts =
     (if v_port opts \<le> 0 \<or> v_port opts > 65535 then Inl (InvalidPort (v_port opts))
      else if v_add opts = [] then Inl MissingServer
      else if v_id opts = [] then Inl MissingUuid
      else Inr (node_of_opts env opts))"

subsection \<open>Definitions: the three link formats\<close>

definition from_utf8_opt :: "string option \<Rightarrow> string option" where
  "from_utf8_opt x = (case x of None \<Rightarrow> None | Some bs \<Rightarrow> from_utf8 bs)"

definition or_else :: "'a option \<Rightarrow> 'a option \<Rightarrow> 'a option" where
  "or_else x y = (case x of None \<Rightarrow> y | Some v \<Rightarrow> Some v)"

definition try_base64_decode :: "parse_env \<Rightarrow> string \<Rightarrow> string option" where
  "try_base64_decode env s =
     (let s_stripped = trim_end_matches s CHR ''='' in
      or_else (from_utf8_opt (b64_standard env s))
     (or_else (from_utf8_opt (b64_standard_no_pad env s_stripped))
     (or_else (from_utf8_opt (b64_url_safe env s))
              (from_utf8_opt (b64_url_safe_no_pad env s_stripped)))))"

definition vmess_scheme :: string where
  "vmess_scheme = ''vmess://''"

definition parse_base64_json :: "parse_env \<Rightarrow> string \<Rightarrow> vmess_node result" where
  "parse_base64_json env link =
     bind_result (ok_or (try_base64_decode env (drop (length vmess_scheme) link)) Base64PayloadError) (\<lambda>text.
     bind_result (ok_or (json_from_str env text) JsonError) (\<lambda>j.
     bind_result (v2rayn_deserialize j) (build_node env)))"

text \<open>The pairs collected into a \<^verbatim>\<open>HashMap\<close>: the last pair of a key counts.\<close>

definition query_get :: "url \<Rightarrow> string \<Rightarrow> string option" where
  "query_get u k = map_of (rev (url_query_pairs u)) k"

definition query_or :: "url \<Rightarrow> string \<Rightarrow> string \<Rightarrow> string option" where
  "query_or u k k' = or_else (query_get u k) (query_get u k')"

definition url_remarks :: "url \<Rightarrow> string" where
  "url_remarks u = or_default (query_or u ''remarks'' ''ps'') (or_default (url_fragment u) '''')"

definition and_then :: "'a option \<Rightarrow> ('a \<Rightarrow> 'b option) \<Rightarrow> 'b option" where
  "and_then x f = (case x of None \<Rightarrow> None | Some v \<Rightarrow> f v)"

definition parse_url_format :: "parse_env \<Rightarrow> url \<Rightarrow> vmess_node result" where
  "parse_url_format env u =
     build_node env (v2rayn_default\<lparr>
       v_id := url_username u,
       v_add := or_default (url_host_str u) '''',
       v_port := (case url_port u of None \<Rightarrow> 0 | Some p \<Rightarrow> int p),
       v_ps := url_remarks u,
       v_aid := or_default (and_then (query_get u ''aid'') parse_i64) 0,
       v_net := or_default (query_or u ''type'' ''net'') ''tcp'',
       v_type := '''',
       v_host := or_default (query_get u ''host'') '''',
       v_path := or_default (query_or u ''path'' ''serviceName'') '''',
       v_tls := or_default (query_or u ''security'' ''tls'') '''',
       v_sni := or_default (query_get u ''sni'') '''',
       v_scy := or_default (query_or u ''encryption'' ''scy'') '''',
       v_packet_encoding :=
         or_default (and_then (query_or u ''packetEncoding'' ''packetencoding'') packet_encoding_parse) PacketDefault\<rparr>)"

definition parse_shadowrocket_udp :: "string option \<Rightarrow> packet_encoding" where
  "parse_shadowrocket_udp value =
     (if value = Some ''2'' then PacketAddr else if value = Some ''3'' then Xudp else PacketDefault)"

definition shadowrocket_payload :: "string \<Rightarrow> url \<Rightarrow> string" where
  "shadowrocket_payload link u =
     (case split_once (drop (length vmess_scheme) link) CHR ''?'' of
        Some (payload, _) \<Rightarrow> payload
      | None \<Rightarrow> url_path u)"

definition parse_shadowrocket_format :: "parse_env \<Rightarrow> string \<Rightarrow> url \<Rightarrow> vmess_node result" where
  "parse_shadowrocket_format env link u =
     bind_result (ok_or (try_base64_decode env (shadowrocket_payload link u)) Base64PayloadError) (\<lambda>decoded.
     bind_result (ok_or (split_once decoded CHR '':'') ShadowrocketPayloadError) (\<lambda>sa.
     bind_result (ok_or (url_parse env (vmess_scheme @ snd sa)) UrlParseError) (\<lambda>parsed.
     bind_result (build_node env (v2rayn_default\<lparr>
         v_id := url_username parsed,
         v_add := or_default (url_host_str parsed) '''',
         v_port := (case url_port parsed of None \<Rightarrow> 0 | Some p \<Rightarrow> int p),
         v_ps := url_remarks u,
         v_aid := or_default (and_then (query_or u ''alterId'' ''aid'') parse_i64) 0,
         v_net := or_default (query_or u ''obfs'' ''type'') ''tcp'',
         v_path := or_default (query_or u ''path'' ''serviceName'') '''',
         v_tls := or_default (query_or u ''tls'' ''security'') '''',
         v_sni := or_default (or_else (query_or u ''peer'' ''obfsParam'') (query_get u ''sni'')) '''',
         v_scy := fst sa\<rparr>)) (\<lambda>node.
     Inr (node\<lparr>n_packet_encoding := parse_shadowrocket_udp (query_get u ''udp'')\<rparr>)))))"

definition parse_vmess_link :: "parse_env \<Rightarrow> string \<Rightarrow> vmess_node result" where
  "parse_vmess_link env link0 =
     (let link = trim link0 in
      if \<not> starts_with link vmess_scheme then Inl NotVmessLink
      else
        bind_result (ok_or (url_parse env link) UrlParseError) (\<lambda>parsed.
          if url_username parsed = [] then
            (if url_query parsed \<noteq> None then parse_shadowrocket_format env link parsed
             else parse_base64_json env link)
          else parse_url_format env parsed))"

definition parse_line :: "parse_env \<Rightarrow> string \<Rightarrow> vmess_node option" where
  "parse_line env line0 =
     (let line = trim line0 in
      if starts_with line vmess_scheme then
        (case parse_vmess_link env line of Inr node \<Rightarrow> Some node | Inl _ \<Rightarrow> None)
      else None)"

definition parse_subscription :: "parse_env \<Rightarrow> string \<Rightarrow> vmess_node list" where
  "parse_subscription env body =
     (let text = or_default (try_base64_decode env (trim body)) body in
      List.map_filter (parse_line env) (lines text))"

subsection \<open>Nodes are well formed\<close>

definition node_wf :: "vmess_node \<Rightarrow> bool" where
  "node_wf n \<longleftrightarrow> 1 \<le> n_port n \<and> n_port n \<le> 65535 \<and> n_server n \<noteq> [] \<and> n_uuid n \<noteq> [] \<and> n_security n \<noteq> []
     \<and> n_sni n \<noteq> [] \<and> n_alter_id n < 2 ^ 32
     \<and> (n_grpc_service_name n \<noteq> None \<longleftrightarrow> n_network n = ''grpc'')
     \<and> (n_ws_path n \<noteq> None \<longleftrightarrow> n_network n = ''ws'')
     \<and> (n_ws_host n \<noteq> None \<longrightarrow> n_network n = ''ws'' \<and> n_ws_host n \<noteq> Some [])"

lemma build_node_Inr:
  "build_node env opts = Inr n \<longleftrightarrow>
     0 < v_port opts \<and> v_port opts \<le> 65535 \<and> v_add opts \<noteq> [] \<and> v_id opts \<noteq> [] \<and> n = node_of_opts env opts"
  by (auto simp: build_node_def)

lemma node_sni_nonempty: "v_add opts \<noteq> [] \<Longrightarrow> node_sni opts \<noteq> []"
  by (simp add: node_sni_def)

lemma node_of_opts_wf:
  assumes "0 < v_port opts" "v_port opts \<le> 65535" "v_add opts \<noteq> []" "v_id opts \<noteq> []"
  shows "node_wf (node_of_opts env opts)"
proof -
  have "n_network (node_of_opts env opts) = node_network env opts" by (simp add: node_of_opts_def Let_def)
  moreover have "1 \<le> nat (v_port opts)" "nat (v_port opts) \<le> 65535" using assms by auto
  ultimately show ?thesis unfolding node_wf_def using assms node_sni_nonempty [OF assms(3)]
    by (cases "node_network env opts = ''grpc''"; cases "node_network env opts = ''ws''")
      (simp_all add: node_of_opts_def Let_def alter_id_of_def)
qed

lemma build_node_wf: "build_node env opts = Inr n \<Longrightarrow> node_wf n"
  by (auto simp: build_node_Inr intro: node_of_opts_wf)

lemma node_wf_packet_encoding: "node_wf n \<Longrightarrow> node_wf (n\<lparr>n_packet_encoding := e\<rparr>)"
  by (simp add: node_wf_def)

lemma parse_shadowrocket_wf: "parse_shadowrocket_format env link u = Inr n \<Longrightarrow> node_wf n"
  by (auto simp: parse_shadowrocket_format_def build_node_Inr intro!: node_wf_packet_encoding node_of_opts_wf
      simp del: v2rayn_json.simps)

lemma build_node_source: "build_node env opts = Inr n \<Longrightarrow> n_source n = empty_source"
  by (auto simp: build_node_Inr node_of_opts_def Let_def)

lemma parse_vmess_link_source: "parse_vmess_link env link = Inr n \<Longrightarrow> n_source n = empty_source"
  by (auto simp: parse_vmess_link_def Let_def parse_base64_json_def parse_url_format_def parse_shadowrocket_format_def
      split: if_splits dest: build_node_source)

text \<open>A freshly parsed node does not know its source yet.\<close>

lemma parse_subscription_source: "n \<in> set (parse_subscription env body) \<Longrightarrow> n_source n = empty_source"
  by (auto simp: parse_subscription_def Let_def List.map_filter_def parse_line_def split: if_splits sum.splits
      dest: parse_vmess_link_source)

lemma parse_vmess_link_wf: "parse_vmess_link env link = Inr n \<Longrightarrow> node_wf n"
  by (auto simp: parse_vmess_link_def Let_def parse_base64_json_def parse_url_format_def
      dest: build_node_wf parse_shadowrocket_wf split: if_splits)

text \<open>
  C35 (parsed_nodes_well_formed). Whatever the body and whatever the library parsers answer, every
  node of a parsed subscription has a port between 1 and 65535, a server, a UUID, an encryption
  method and a server name, has a gRPC service name exactly when its network is gRPC and a
  WebSocket path exactly when its network is WebSocket.
\<close>

theorem parsed_nodes_well_formed:
  "list_all node_wf (parse_subscription env body)"
proof -
  have "node_wf n" if "parse_line env l = Some n" for l n
    using that by (auto simp: parse_line_def Let_def dest: parse_vmess_link_wf split: if_splits sum.splits)
  then show ?thesis by (auto simp: parse_subscription_def Let_def list_all_iff set_map_filter_iff)
qed

text \<open>
  The builder refuses a port outside 1 to 65535 first, then a missing
  server, then a missing UUID, and accepts everything else; the node has the fields of the options
  with the documented defaults, a negative alter id counting as zero.
\<close>

theorem build_node_outcome:
  "case build_node env opts of
     Inl e \<Rightarrow> (v_port opts \<le> 0 \<or> v_port opts > 65535) \<and> e = InvalidPort (v_port opts)
       \<or> 0 < v_port opts \<and> v_port opts \<le> 65535 \<and> v_add opts = [] \<and> e = MissingServer
       \<or> 0 < v_port opts \<and> v_port opts \<le> 65535 \<and> v_add opts \<noteq> [] \<and> v_id opts = [] \<and> e = MissingUuid
   | Inr n \<Rightarrow> int (n_port n) = v_port opts \<and> n_server n = v_add opts \<and> n_uuid n = v_id opts
       \<and> n_name n = v_ps opts \<and> (n_tls n \<longleftrightarrow> v_tls opts \<in> {''tls'', ''true'', ''1''})
       \<and> n_sni n = hd (filter (\<lambda>s. s \<noteq> []) [v_sni opts, v_host opts, v_add opts])
       \<and> n_security n = hd (filter (\<lambda>s. s \<noteq> []) [v_scy opts, ''auto''])
       \<and> n_alter_id n = (if v_aid opts < 0 then 0 else nat (v_aid opts) mod 2 ^ 32)
       \<and> node_wf n"
proof (cases "build_node env opts")
  case (Inl e)
  then show ?thesis by (auto simp: build_node_def Let_def split: if_splits)
next
  case (Inr n)
  from Inr have n: "0 < v_port opts" "v_add opts \<noteq> []" "n = node_of_opts env opts"
    by (simp_all add: build_node_Inr)
  have "n_sni n = hd (filter (\<lambda>s. s \<noteq> []) [v_sni opts, v_host opts, v_add opts])"
    using n by (simp add: node_of_opts_def Let_def node_sni_def)
  with Inr n build_node_wf [OF Inr] show ?thesis
    by (simp add: node_of_opts_def Let_def alter_id_of_def max_def node_sni_def)
qed

subsection \<open>Bodies and lines\<close>

lemma parse_subscription_plain:
  "try_base64_decode env (trim body) = None \<Longrightarrow>
     parse_subscription env body = List.map_filter (parse_line env) (lines body)"
  by (simp add: parse_subscription_def or_default_def)

text \<open>
  A body that is the base64 text of a list of links yields the same
  nodes as the list of links itself, namely those of the links that parse, in order; lines that do
  not parse leave no trace.
\<close>

theorem subscription_body_forms:
  assumes "list_all plain_line ls" and "try_base64_decode env (trim body) = Some (join [newline] ls)"
    and "try_base64_decode env (trim (join [newline] ls)) = None"
  shows "parse_subscription env body = parse_subscription env (join [newline] ls)
    \<and> parse_subscription env body = List.map_filter (parse_line env) ls"
  using assms by (simp add: parse_subscription_def or_default_def lines_join)

text \<open>
  A library environment for witnesses: the base64 engines decode the one text \<open>QQ==\<close>, no text is a
  URL, and no text is a JSON document.
\<close>

definition null_env :: parse_env where
  "null_env = \<lparr>url_parse = (\<lambda>_. None),
     b64_standard = (\<lambda>s. if s = ''QQ=='' then Some ''A'' else None), b64_standard_no_pad = (\<lambda>_. None),
     b64_url_safe = (\<lambda>_. None), b64_url_safe_no_pad = (\<lambda>_. None),
     json_from_str = (\<lambda>_. None), unicode_lowercase = (\<lambda>s. s)\<rparr>"

theorem subscription_body_forms_witness:
  "parse_subscription null_env ''QQ=='' = parse_subscription null_env ''A''"
proof -
  have t: "trim ''QQ=='' = ''QQ==''" "trim ''A'' = ''A''" 
    by (rule trim_ascii_id; simp add: is_ascii_def is_whitespace_def)+
  have "list_all plain_line [''A'']" by (simp add: plain_line_def newline_def)
  moreover have "try_base64_decode null_env (trim ''QQ=='') = Some (join [newline] [''A''])"
    unfolding t by (simp add: try_base64_decode_def null_env_def from_utf8_opt_def from_utf8_def
        utf8_valid_def or_else_def)
  moreover have "try_base64_decode null_env (trim (join [newline] [''A''])) = None"
    by (simp add: t try_base64_decode_def null_env_def from_utf8_opt_def or_else_def)
  ultimately show ?thesis using subscription_body_forms [of "[''A'']" null_env "''QQ==''"] by simp
qed

end
