(* ===== verification/Sub_Process.thy ===== *)
theory Sub_Process
  imports Sub_Parser Net_Addr "HOL-Library.Sublist"
begin

text \<open>
  \<^verbatim>\<open>src/subscription/process.rs\<close>: the processing pipeline and the deduplication of node names. The
  regular-expression engine is a crate and is the parameter \<open>regex_engine\<close>; a compiled expression is
  its pattern. A \<^verbatim>\<open>HashMap\<close> whose iteration order does not matter is an association list.

  The lemmas describe each step on selected and on other nodes, show that deduplication keeps one
  node of every name, in order, and which one for each strategy, and describe the renaming
  strategy, with the inputs on which renamed names still collide.
\<close>

subsection \<open>Definitions: the pipeline\<close>

record regex_engine =
  regex_valid :: "string \<Rightarrow> bool"
  regex_is_match :: "string \<Rightarrow> string \<Rightarrow> bool" \<comment> \<open>pattern, text\<close>
  regex_replace_all :: "string \<Rightarrow> string \<Rightarrow> string \<Rightarrow> string" \<comment> \<open>pattern, text, replacement\<close>

record compiled_step =
  filter_compiled :: "string list"
  filter_source_compiled :: "string list"
  rename_compiled :: "(string \<times> string) list"
  cs_remove_emoji :: bool
  cs_override_security :: "string option"
  cs_packet_encoding :: "packet_encoding option"
  cs_remove :: bool
  cs_invert :: bool

definition compile_patterns :: "regex_engine \<Rightarrow> string list \<Rightarrow> string list" where
  "compile_patterns re patterns = filter (regex_valid re) patterns"

definition from_step :: "regex_engine \<Rightarrow> process_step \<Rightarrow> compiled_step" where
  "from_step re step =
     \<lparr>filter_compiled = compile_patterns re (ps_filter step),
      filter_source_compiled = compile_patterns re (ps_filter_source step),
      rename_compiled = filter (\<lambda>pr. regex_valid re (fst pr)) (ps_rename step),
      cs_remove_emoji = ps_remove_emoji step,
      cs_override_security = ps_override_security step,
      cs_packet_encoding = ps_packet_encoding step,
      cs_remove = ps_remove step,
      cs_invert = ps_invert step\<rparr>"

definition is_emoji :: "nat \<Rightarrow> bool" where
  "is_emoji r \<longleftrightarrow>
     0x1F600 \<le> r \<and> r \<le> 0x1F64F \<or> 0x1F300 \<le> r \<and> r \<le> 0x1F5FF \<or> 0x1F680 \<le> r \<and> r \<le> 0x1F6FF
     \<or> 0x1F1E0 \<le> r \<and> r \<le> 0x1F1FF \<or> 0x2600 \<le> r \<and> r \<le> 0x26FF \<or> 0x2700 \<le> r \<and> r \<le> 0x27BF
     \<or> 0xFE00 \<le> r \<and> r \<le> 0xFE0F \<or> 0x1F900 \<le> r \<and> r \<le> 0x1F9FF \<or> 0x1FA70 \<le> r \<and> r \<le> 0x1FAFF"

definition strip_emoji :: "string \<Rightarrow> string" where
  "strip_emoji s = from_chars (filter (\<lambda>c. \<not> is_emoji c) (chars s))"

definition is_selected :: "regex_engine \<Rightarrow> compiled_step \<Rightarrow> vmess_node \<Rightarrow> bool" where
  "is_selected re cs node =
     (let name_ok = (filter_compiled cs = [] \<or> list_ex (\<lambda>p. regex_is_match re p (n_name node)) (filter_compiled cs));
          source_ok = (filter_source_compiled cs = []
            \<or> list_ex (\<lambda>p. regex_is_match re p (n_source node)) (filter_source_compiled cs));
          matched = (name_ok \<and> source_ok)
      in if cs_invert cs then \<not> matched else matched)"

definition transform_node :: "regex_engine \<Rightarrow> compiled_step \<Rightarrow> vmess_node \<Rightarrow> vmess_node" where
  "transform_node re cs node =
     (let name1 = foldl (\<lambda>nm pr. regex_replace_all re (fst pr) nm (snd pr)) (n_name node) (rename_compiled cs);
          name2 = (if cs_remove_emoji cs then strip_emoji name1 else name1);
          node1 = node\<lparr>n_name := name2\<rparr>;
          node2 = (case cs_override_security cs of None \<Rightarrow> node1 | Some sec \<Rightarrow> node1\<lparr>n_security := sec\<rparr>)
      in case cs_packet_encoding cs of None \<Rightarrow> node2 | Some e \<Rightarrow> node2\<lparr>n_packet_encoding := e\<rparr>)"

definition apply_step :: "regex_engine \<Rightarrow> vmess_node list \<Rightarrow> compiled_step \<Rightarrow> vmess_node list" where
  "apply_step re nodes cs =
     (if cs_remove cs then filter (\<lambda>n. \<not> is_selected re cs n) nodes
      else map (\<lambda>n. if is_selected re cs n then transform_node re cs n else n) nodes)"

definition apply_pipeline :: "regex_engine \<Rightarrow> vmess_node list \<Rightarrow> process_step list \<Rightarrow> vmess_node list" where
  "apply_pipeline re nodes steps = foldl (\<lambda>ns st. apply_step re ns (from_step re st)) nodes steps"

subsection \<open>Definitions: deduplication\<close>

datatype address_type = AddrDomain | AddrIpv4 | AddrIpv6 | AddrUnknown

datatype dedup_strategy =
    Rename | First | Last | PreferIpv4 | PreferIpv6 | PreferDomainThenIpv4 | PreferDomainThenIpv6 | UnknownStrategy

definition dedup_parse :: "string \<Rightarrow> dedup_strategy" where
  "dedup_parse s =
     (if s = '''' \<or> s = ''rename'' then Rename
      else if s = ''first'' then First
      else if s = ''last'' then Last
      else if s = ''prefer_ipv4'' then PreferIpv4
      else if s = ''prefer_ipv6'' then PreferIpv6
      else if s = ''prefer_domain_then_ipv4'' then PreferDomainThenIpv4
      else if s = ''prefer_domain_then_ipv6'' then PreferDomainThenIpv6
      else UnknownStrategy)"

fun address_priority :: "dedup_strategy \<Rightarrow> address_type \<Rightarrow> int" where
  "address_priority PreferIpv4 t = (case t of AddrIpv4 \<Rightarrow> 3 | AddrDomain \<Rightarrow> 2 | AddrIpv6 \<Rightarrow> 1 | AddrUnknown \<Rightarrow> 0)"
| "address_priority PreferIpv6 t = (case t of AddrIpv6 \<Rightarrow> 3 | AddrDomain \<Rightarrow> 2 | AddrIpv4 \<Rightarrow> 1 | AddrUnknown \<Rightarrow> 0)"
| "address_priority PreferDomainThenIpv4 t = (case t of AddrDomain \<Rightarrow> 3 | AddrIpv4 \<Rightarrow> 2 | AddrIpv6 \<Rightarrow> 1 | AddrUnknown \<Rightarrow> 0)"
| "address_priority PreferDomainThenIpv6 t = (case t of AddrDomain \<Rightarrow> 3 | AddrIpv6 \<Rightarrow> 2 | AddrIpv4 \<Rightarrow> 1 | AddrUnknown \<Rightarrow> 0)"
| "address_priority _ t = 0"

definition get_address_type :: "string \<Rightarrow> address_type" where
  "get_address_type address =
     (if address = [] then AddrUnknown
      else if parse_ipv4 address \<noteq> None then AddrIpv4
      else if parse_ipv6 address \<noteq> None then AddrIpv6
      else AddrDomain)"

fun rename_nodes :: "(string \<rightharpoonup> nat) \<Rightarrow> vmess_node list \<Rightarrow> vmess_node list" where
  "rename_nodes seen [] = []"
| "rename_nodes seen (node # nodes) =
     (let tag = n_name node in
      case seen tag of
        Some count \<Rightarrow>
          node\<lparr>n_name := tag @ '' ('' @ show_nat (count + 1) @ '')''\<rparr> # rename_nodes (seen(tag \<mapsto> count + 1)) nodes
      | None \<Rightarrow> node # rename_nodes (seen(tag \<mapsto> 0)) nodes)"

fun push_index :: "(string \<times> nat list) list \<Rightarrow> string \<Rightarrow> nat \<Rightarrow> (string \<times> nat list) list" where
  "push_index [] name i = [(name, [i])]"
| "push_index (kv # m) name i = (if fst kv = name then (name, snd kv @ [i]) # m else kv # push_index m name i)"

fun name_indices :: "(string \<times> nat list) list \<Rightarrow> nat \<Rightarrow> vmess_node list \<Rightarrow> (string \<times> nat list) list" where
  "name_indices m i [] = m"
| "name_indices m i (node # nodes) = name_indices (push_index m (n_name node) i) (i + 1) nodes"

fun best_index :: "(nat \<Rightarrow> int) \<Rightarrow> nat list \<Rightarrow> nat \<Rightarrow> int \<Rightarrow> nat" where
  "best_index prio [] best_idx best_priority = best_idx"
| "best_index prio (idx # indices) best_idx best_priority =
     (if prio idx > best_priority then best_index prio indices idx (prio idx)
      else best_index prio indices best_idx best_priority)"

definition node_priority :: "dedup_strategy \<Rightarrow> vmess_node list \<Rightarrow> nat \<Rightarrow> int" where
  "node_priority strategy nodes idx = address_priority strategy (get_address_type (n_server (nodes ! idx)))"

definition select_index :: "dedup_strategy \<Rightarrow> vmess_node list \<Rightarrow> nat list \<Rightarrow> nat" where
  "select_index strategy nodes indices =
     (if length indices = 1 then hd indices
      else case strategy of
             First \<Rightarrow> hd indices
           | Last \<Rightarrow> last indices
           | _ \<Rightarrow> best_index (node_priority strategy nodes) indices (hd indices) (-1))"

definition deduplicate_nodes :: "vmess_node list \<Rightarrow> string \<Rightarrow> vmess_node list" where
  "deduplicate_nodes nodes strategy0 =
     (let strategy = dedup_parse strategy0 in
      if strategy = Rename then rename_nodes Map.empty nodes
      else
        let groups = name_indices [] 0 nodes;
            keep = set (map (\<lambda>g. select_index strategy nodes (snd g)) groups)
        in map snd (filter (\<lambda>p. fst p \<in> keep) (enumerate 0 nodes)))"

subsection \<open>Pipeline\<close>

lemma apply_step_remove_subseq: "cs_remove cs \<Longrightarrow> subseq (apply_step re nodes cs) nodes"
  by (simp add: apply_step_def)

lemma transform_node_frame [frame_rules]:
  "n_server (transform_node re cs n) = n_server n"
  "n_port (transform_node re cs n) = n_port n"
  "n_uuid (transform_node re cs n) = n_uuid n"
  "n_network (transform_node re cs n) = n_network n"
  "n_source (transform_node re cs n) = n_source n"
  "n_sni (transform_node re cs n) = n_sni n"
  "n_tls (transform_node re cs n) = n_tls n"
  "n_alter_id (transform_node re cs n) = n_alter_id n"
  "n_grpc_service_name (transform_node re cs n) = n_grpc_service_name n"
  "n_ws_path (transform_node re cs n) = n_ws_path n"
  "n_ws_host (transform_node re cs n) = n_ws_host n"
  by (auto simp: transform_node_def Let_def split: option.splits)

text \<open>The part of a node that no step may change: where it connects to and as whom.\<close>

definition endpoint_of :: "vmess_node \<Rightarrow> string \<times> nat \<times> string \<times> string \<times> string \<times> bool \<times> string" where
  "endpoint_of n = (n_server n, n_port n, n_uuid n, n_network n, n_sni n, n_tls n, n_source n)"

lemma endpoint_of_transform [simp]: "endpoint_of (transform_node re cs n) = endpoint_of n"
  by (simp add: endpoint_of_def frame_rules)

lemma apply_step_endpoints: "subseq (map endpoint_of (apply_step re nodes cs)) (map endpoint_of nodes)"
proof (cases "cs_remove cs")
  case True
  then show ?thesis by (intro subseq_map apply_step_remove_subseq)
next
  case False
  then have "map endpoint_of (apply_step re nodes cs) = map endpoint_of nodes"
    by (simp add: apply_step_def)
  then show ?thesis by simp
qed

lemma apply_pipeline_append: "apply_pipeline re nodes (xs @ ys) = apply_pipeline re (apply_pipeline re nodes xs) ys"
  by (simp add: apply_pipeline_def)

lemma apply_pipeline_endpoints:
  "n \<in> set (apply_pipeline re nodes steps) \<Longrightarrow> \<exists>m \<in> set nodes. endpoint_of n = endpoint_of m"
proof (induction steps arbitrary: n rule: rev_induct)
  case (snoc st steps)
  then obtain m where "m \<in> set (apply_pipeline re nodes steps)" "endpoint_of n = endpoint_of m"
    by (auto simp: apply_pipeline_def apply_step_def split: if_splits)
  with snoc.IH show ?case by metis
qed (auto simp: apply_pipeline_def)

lemma apply_pipeline_sources:
  "n \<in> set (apply_pipeline re nodes steps) \<Longrightarrow> \<exists>m \<in> set nodes. n_source n = n_source m"
  using apply_pipeline_endpoints by (fastforce simp: endpoint_of_def)

lemma apply_step_unselected: "\<forall>n \<in> set nodes. \<not> is_selected re cs n \<Longrightarrow> apply_step re nodes cs = nodes"
  by (auto simp: apply_step_def map_idI intro!: filter_True)

text \<open>
  C36 (pipeline_keeps_endpoints). A pipeline may drop nodes and change their names, encryption
  methods and packet encodings, and does nothing else: the endpoints of the result are a
  subsequence of the endpoints of the input, so no node is invented, duplicated, reordered or
  redirected; without a removing step no node is lost either.
\<close>

theorem pipeline_keeps_endpoints:
  "subseq (map endpoint_of (apply_pipeline re nodes steps)) (map endpoint_of nodes)
   \<and> (list_all (\<lambda>s. \<not> ps_remove s) steps
      \<longrightarrow> map endpoint_of (apply_pipeline re nodes steps) = map endpoint_of nodes)"
proof (induction steps arbitrary: nodes)
  case Nil
  then show ?case by (simp add: apply_pipeline_def)
next
  case (Cons st steps)
  let ?ns = "apply_step re nodes (from_step re st)"
  have step: "apply_pipeline re nodes (st # steps) = apply_pipeline re ?ns steps"
    by (simp add: apply_pipeline_def)
  have "map endpoint_of ?ns = map endpoint_of nodes" if "\<not> ps_remove st"
    using that by (simp add: apply_step_def from_step_def)
  then show ?case
    using Cons.IH [of ?ns] apply_step_endpoints [of re nodes "from_step re st"] unfolding step
    by (auto intro: subseq_order.trans)
qed

definition sample_node :: vmess_node where
  "sample_node = \<lparr>n_name = ''a'', n_source = ''s'', n_server = ''10.0.0.1'', n_port = 443, n_uuid = ''u'',
     n_alter_id = 0, n_security = ''auto'', n_network = ''tcp'', n_tls = False, n_sni = ''x'',
     n_grpc_service_name = None, n_ws_path = None, n_ws_host = None, n_packet_encoding = PacketDefault\<rparr>"

definition literal_regex :: regex_engine where
  "literal_regex = \<lparr>regex_valid = (\<lambda>p. p \<noteq> ''(''), regex_is_match = (\<lambda>p t. contains_str t p),
     regex_replace_all = (\<lambda>p t r. if t = p then r else t)\<rparr>"

definition plain_step :: process_step where
  "plain_step = \<lparr>ps_filter = [], ps_filter_source = [], ps_invert = False, ps_remove = False, ps_rename = [],
     ps_remove_emoji = False, ps_override_security = None, ps_packet_encoding = None\<rparr>"

theorem pipeline_keeps_endpoints_witness:
  "map endpoint_of (apply_pipeline literal_regex [sample_node]
     [plain_step\<lparr>ps_rename := [(''a'', ''b'')], ps_override_security := Some ''none''\<rparr>])
   = map endpoint_of [sample_node]"
  using pipeline_keeps_endpoints [of literal_regex "[sample_node]"
      "[plain_step\<lparr>ps_rename := [(''a'', ''b'')], ps_override_security := Some ''none''\<rparr>]"]
  by (simp add: plain_step_def)

lemma is_emoji_not_ascii: "c < 128 \<Longrightarrow> \<not> is_emoji c"
  by (auto simp: is_emoji_def)

lemma strip_emoji_chars:
  assumes "\<forall>c \<in> set (chars s). c < 0x110000"
  shows "chars (strip_emoji s) = filter (\<lambda>c. \<not> is_emoji c) (chars s)"
  using assms by (simp add: strip_emoji_def chars_from_chars)

subsection \<open>Groups of equal names\<close>

definition indices_of :: "vmess_node list \<Rightarrow> string \<Rightarrow> nat list" where
  "indices_of nodes name = filter (\<lambda>i. n_name (nodes ! i) = name) [0..<length nodes]"

lemma indices_of_snoc:
  "indices_of (nodes @ [x]) name = indices_of nodes name @ (if n_name x = name then [length nodes] else [])"
proof -
  have "filter (\<lambda>i. n_name ((nodes @ [x]) ! i) = name) [0..<length nodes] = indices_of nodes name"
    unfolding indices_of_def by (intro filter_cong) (auto simp: nth_append)
  then show ?thesis by (simp add: indices_of_def)
qed

lemma set_indices_of: "set (indices_of nodes name) = {i. i < length nodes \<and> n_name (nodes ! i) = name}"
  by (auto simp: indices_of_def)

lemma indices_of_own: "i < length nodes \<Longrightarrow> indices_of nodes (n_name (nodes ! i)) \<noteq> []"
proof -
  assume "i < length nodes"
  then have "i \<in> set (indices_of nodes (n_name (nodes ! i)))" by (simp add: set_indices_of)
  then show ?thesis by auto
qed

lemma sorted_indices_of: "sorted (indices_of nodes name)"
  unfolding indices_of_def by (rule sorted_wrt_filter) (rule sorted_upt)

lemma name_indices_append:
  "name_indices m i (xs @ ys) = name_indices (name_indices m i xs) (i + length xs) ys"
  by (induction xs arbitrary: m i) auto

lemma push_index_keys: "set (map fst (push_index m name i)) = insert name (set (map fst m))"
  by (induction m) auto

lemma push_index_map_of:
  "distinct (map fst m) \<Longrightarrow> distinct (map fst (push_index m name i))
     \<and> map_of (push_index m name i) = (map_of m)(name \<mapsto> (case map_of m name of None \<Rightarrow> [i] | Some l \<Rightarrow> l @ [i]))"
proof (induction m)
  case (Cons kv m)
  then show ?case using push_index_keys [of m name i] by (cases kv) (auto simp: fun_eq_iff)
qed auto

lemma name_indices_map_of:
  "distinct (map fst (name_indices [] 0 nodes))
   \<and> map_of (name_indices [] 0 nodes) name
       = (if indices_of nodes name = [] then None else Some (indices_of nodes name))"
proof (induction nodes arbitrary: name rule: rev_induct)
  case Nil
  then show ?case by (simp add: indices_of_def)
next
  case (snoc x nodes)
  then have d: "distinct (map fst (name_indices [] 0 nodes))" by blast
  show ?case using push_index_map_of [OF d, of "n_name x" "length nodes"] snoc.IH
    by (auto simp: name_indices_append indices_of_snoc)
qed

lemma set_name_indices:
  "set (name_indices [] 0 nodes) = {(name, l). l = indices_of nodes name \<and> l \<noteq> []}"
proof -
  have d: "distinct (map fst (name_indices [] 0 nodes))" using name_indices_map_of by blast
  have m: "map_of (name_indices [] 0 nodes) name
      = (if indices_of nodes name = [] then None else Some (indices_of nodes name))" for name
    using name_indices_map_of by blast
  have "(name, l) \<in> set (name_indices [] 0 nodes) \<longleftrightarrow> l = indices_of nodes name \<and> l \<noteq> []" for name l
    unfolding map_of_eq_Some_iff [OF d, symmetric] m by auto
  then show ?thesis by auto
qed

subsection \<open>Which node of a group is kept\<close>

text \<open>A node is kept when it is ahead of the other nodes of its name, in the order of the strategy.\<close>

definition ahead :: "dedup_strategy \<Rightarrow> vmess_node list \<Rightarrow> nat \<Rightarrow> bool" where
  "ahead strategy nodes i \<longleftrightarrow>
     (\<forall>j < length nodes. n_name (nodes ! j) = n_name (nodes ! i) \<longrightarrow>
        (case strategy of
           First \<Rightarrow> i \<le> j
         | Last \<Rightarrow> j \<le> i
         | _ \<Rightarrow> node_priority strategy nodes j < node_priority strategy nodes i
             \<or> node_priority strategy nodes j = node_priority strategy nodes i \<and> i \<le> j))"

lemma best_index_cases:
  "sorted l \<Longrightarrow> best_index prio l b p = b \<and> (\<forall>j \<in> set l. prio j \<le> p)
     \<or> (\<exists>r. best_index prio l b p = r \<and> r \<in> set l \<and> p < prio r
          \<and> (\<forall>j \<in> set l. prio j < prio r \<or> prio j = prio r \<and> r \<le> j))"
proof (induction l arbitrary: b p)
  case (Cons i l)
  show ?case
  proof (cases "prio i > p")
    case True
    then have step: "best_index prio (i # l) b p = best_index prio l i (prio i)" by simp
    have le: "i \<le> j" if "j \<in> set l" for j using Cons.prems that by simp
    consider "best_index prio l i (prio i) = i" "\<forall>j \<in> set l. prio j \<le> prio i"
      | r where "best_index prio l i (prio i) = r" "r \<in> set l" "prio i < prio r"
          "\<forall>j \<in> set l. prio j < prio r \<or> prio j = prio r \<and> r \<le> j"
      using Cons.IH [of i "prio i"] Cons.prems by auto
    then show ?thesis
    proof cases
      case 1
      then show ?thesis unfolding step using le True by (intro disjI2 exI [of _ i]) (auto simp: le_less)
    next
      case 2
      then show ?thesis unfolding step using True by (intro disjI2 exI [of _ r]) auto
    qed
  next
    case False
    then have step: "best_index prio (i # l) b p = best_index prio l b p" by simp
    have "sorted l" using Cons.prems by simp
    from Cons.IH [OF this, of b p] False show ?thesis unfolding step by auto
  qed
qed simp

lemma node_priority_nonneg: "0 \<le> node_priority st nodes i"
  by (cases st) (simp_all add: node_priority_def split: address_type.splits)

lemma best_index_first_max:
  assumes "sorted l" and "l \<noteq> []"
  shows "best_index (node_priority st nodes) l (hd l) (-1) \<in> set l
    \<and> (\<forall>j \<in> set l. let r = best_index (node_priority st nodes) l (hd l) (-1) in
         node_priority st nodes j < node_priority st nodes r
         \<or> node_priority st nodes j = node_priority st nodes r \<and> r \<le> j)"
proof -
  have "\<not> (\<forall>j \<in> set l. node_priority st nodes j \<le> -1)"
    using assms(2) node_priority_nonneg [of st nodes "hd l"] by (cases l) auto
  with best_index_cases [OF assms(1), of "node_priority st nodes" "hd l" "-1"] show ?thesis
    by (auto simp: Let_def)
qed

lemma select_index_mem:
  assumes "sorted l" and "l \<noteq> []"
  shows "select_index st nodes l \<in> set l"
proof -
  have "best_index (node_priority st nodes) l (hd l) (-1) \<in> set l"
    using best_index_first_max [OF assms] by blast
  with assms(2) show ?thesis by (cases st) (simp_all add: select_index_def)
qed

lemma sorted_hd_last:
  assumes "sorted l" and "j \<in> set l"
  shows "hd l \<le> j \<and> j \<le> last l"
  using assms by (induction l) (auto dest: bspec)

lemma select_index_ahead:
  assumes "i < length nodes" and "st \<noteq> Rename"
  defines "l \<equiv> indices_of nodes (n_name (nodes ! i))"
  shows "select_index st nodes l = i \<longleftrightarrow> ahead st nodes i"
proof -
  let ?r = "select_index st nodes l"
  have i: "i \<in> set l" using assms(1) by (simp add: l_def set_indices_of)
  have l: "l \<noteq> []" "sorted l" using i sorted_indices_of by (auto simp: l_def)
  have mem: "j < length nodes \<and> n_name (nodes ! j) = n_name (nodes ! i) \<longleftrightarrow> j \<in> set l" for j
    by (simp add: l_def set_indices_of)
  have pref: "ahead st nodes k \<longleftrightarrow> (\<forall>j \<in> set l. case st of First \<Rightarrow> k \<le> j | Last \<Rightarrow> j \<le> k
      | _ \<Rightarrow> node_priority st nodes j < node_priority st nodes k
          \<or> node_priority st nodes j = node_priority st nodes k \<and> k \<le> j)" if "k \<in> set l" for k
  proof -
    have "n_name (nodes ! k) = n_name (nodes ! i)" using mem [of k] that by simp
    then have "j \<in> set l \<longleftrightarrow> j < length nodes \<and> n_name (nodes ! j) = n_name (nodes ! k)" for j
      using mem [of j] by simp
    then show ?thesis unfolding ahead_def Ball_def by (simp add: imp_conjL)
  qed
  have r: "?r \<in> set l \<and> ahead st nodes ?r"
  proof (cases "length l = 1")
    case True
    then obtain x where "l = [x]" by (auto simp: length_Suc_conv)
    then show ?thesis using pref [of x] by (simp add: select_index_def split: dedup_strategy.splits)
  next
    case False
    then show ?thesis
      using l pref [of ?r] best_index_first_max [OF l(2,1), of st nodes] sorted_hd_last [OF l(2)]
      by (cases st) (auto simp: select_index_def Let_def)
  qed
  have "k = ?r" if "ahead st nodes k" "k \<in> set l" for k
    using bspec [OF iffD1 [OF pref [OF that(2)] that(1)], of ?r]
      bspec [OF iffD1 [OF pref [of ?r]], of k] r that(2)
    by (cases st) auto
  with r i show ?thesis by blast
qed

lemma keep_iff_ahead:
  assumes "i < length nodes" and "st \<noteq> Rename"
  shows "i \<in> set (map (\<lambda>g. select_index st nodes (snd g)) (name_indices [] 0 nodes)) \<longleftrightarrow> ahead st nodes i"
    (is "i \<in> ?keep \<longleftrightarrow> _")
proof -
  have keep: "?keep = {select_index st nodes (indices_of nodes name) | name. indices_of nodes name \<noteq> []}"
    by (force simp: set_name_indices)
  have own: "indices_of nodes (n_name (nodes ! i)) \<noteq> []" by (rule indices_of_own [OF assms(1)])
  have "select_index st nodes (indices_of nodes name) \<in> set (indices_of nodes name)"
    if "indices_of nodes name \<noteq> []" for name by (rule select_index_mem [OF sorted_indices_of that])
  then have own_group: "name = n_name (nodes ! i)"
    if "select_index st nodes (indices_of nodes name) = i" "indices_of nodes name \<noteq> []" for name
    using that by (metis (mono_tags, lifting) mem_Collect_eq set_indices_of)
  have "i \<in> ?keep \<longleftrightarrow> select_index st nodes (indices_of nodes (n_name (nodes ! i))) = i"
  proof
    assume "i \<in> ?keep"
    then obtain name where name: "select_index st nodes (indices_of nodes name) = i" "indices_of nodes name \<noteq> []"
      unfolding keep by auto
    with own_group [OF this] show "select_index st nodes (indices_of nodes (n_name (nodes ! i))) = i" by simp
  next
    assume "select_index st nodes (indices_of nodes (n_name (nodes ! i))) = i"
    with own show "i \<in> ?keep" unfolding keep by (metis (mono_tags, lifting) mem_Collect_eq)
  qed
  then show ?thesis using select_index_ahead [OF assms] by simp
qed

lemma enumerate_filter:
  "map snd (filter (\<lambda>p. fst p \<in> K) (enumerate 0 xs)) = map ((!) xs) (filter (\<lambda>i. i \<in> K) [0..<length xs])"
proof -
  have "enumerate 0 xs = map (\<lambda>i. (i, xs ! i)) [0..<length xs]"
    by (rule nth_equalityI) (simp_all add: nth_enumerate_eq)
  then show ?thesis by (simp add: filter_map o_def)
qed

lemma deduplicate_ahead:
  assumes "dedup_parse s \<noteq> Rename"
  shows "deduplicate_nodes nodes s
    = map ((!) nodes) (filter (ahead (dedup_parse s) nodes) [0..<length nodes])"
proof -
  have "filter (\<lambda>i. i \<in> set (map (\<lambda>g. select_index (dedup_parse s) nodes (snd g)) (name_indices [] 0 nodes)))
      [0..<length nodes] = filter (ahead (dedup_parse s) nodes) [0..<length nodes]"
    by (rule filter_cong [OF refl], rule keep_iff_ahead [OF _ assms]) simp
  with assms show ?thesis unfolding deduplicate_nodes_def Let_def enumerate_filter by (simp only: if_False)
qed

lemma ahead_unique:
  assumes "ahead st nodes i" "ahead st nodes j" "i < length nodes" "j < length nodes"
    and "n_name (nodes ! i) = n_name (nodes ! j)"
  shows "i = j"
proof -
  have "case st of First \<Rightarrow> i \<le> j | Last \<Rightarrow> j \<le> i
      | _ \<Rightarrow> node_priority st nodes j < node_priority st nodes i
          \<or> node_priority st nodes j = node_priority st nodes i \<and> i \<le> j"
    using assms unfolding ahead_def by simp
  moreover have "case st of First \<Rightarrow> j \<le> i | Last \<Rightarrow> i \<le> j
      | _ \<Rightarrow> node_priority st nodes i < node_priority st nodes j
          \<or> node_priority st nodes i = node_priority st nodes j \<and> j \<le> i"
    using assms unfolding ahead_def by simp
  ultimately show ?thesis by (cases st) auto
qed

lemma ahead_exists:
  assumes "i < length nodes" and "st \<noteq> Rename"
  shows "\<exists>j < length nodes. n_name (nodes ! j) = n_name (nodes ! i) \<and> ahead st nodes j"
proof -
  let ?l = "indices_of nodes (n_name (nodes ! i))"
  let ?r = "select_index st nodes ?l"
  have l: "?l \<noteq> []" by (rule indices_of_own [OF assms(1)])
  have "?r \<in> set ?l" by (rule select_index_mem [OF sorted_indices_of l])
  then have r: "?r < length nodes" "n_name (nodes ! ?r) = n_name (nodes ! i)"
    by (simp_all add: set_indices_of)
  with select_index_ahead [OF r(1) assms(2)] show ?thesis by auto
qed

lemma dedup_keeps_ahead:
  assumes "dedup_parse s \<noteq> Rename"
  shows "deduplicate_nodes nodes s = map ((!) nodes) (filter (ahead (dedup_parse s) nodes) [0..<length nodes])
    \<and> distinct (map n_name (deduplicate_nodes nodes s))
    \<and> set (map n_name (deduplicate_nodes nodes s)) = set (map n_name nodes)"
proof -
  let ?st = "dedup_parse s"
  let ?is = "filter (ahead ?st nodes) [0..<length nodes]"
  have eq: "deduplicate_nodes nodes s = map ((!) nodes) ?is" by (rule deduplicate_ahead [OF assms])
  have "inj_on (n_name \<circ> (!) nodes) (set ?is)"
    using ahead_unique by (fastforce intro: inj_onI)
  then have "distinct (map n_name (map ((!) nodes) ?is))" by (simp add: distinct_map)
  moreover have "set (map n_name (map ((!) nodes) ?is)) = set (map n_name nodes)"
  proof
    show "set (map n_name (map ((!) nodes) ?is)) \<subseteq> set (map n_name nodes)" by auto
    show "set (map n_name nodes) \<subseteq> set (map n_name (map ((!) nodes) ?is))"
    proof
      fix nm
      assume "nm \<in> set (map n_name nodes)"
      then obtain i where i: "i < length nodes" "nm = n_name (nodes ! i)" by (auto simp: in_set_conv_nth)
      from ahead_exists [OF i(1) assms] obtain j where
        j: "j < length nodes" "n_name (nodes ! j) = nm" "ahead ?st nodes j" using i(2) by auto
      then have "j \<in> set ?is" by simp
      then show "nm \<in> set (map n_name (map ((!) nodes) ?is))" using j(2) by force
    qed
  qed
  ultimately show ?thesis unfolding eq by blast
qed

subsection \<open>Renaming\<close>

definition numbered :: "string \<Rightarrow> nat \<Rightarrow> string" where
  "numbered tag k = (if k = 0 then tag else tag @ '' ('' @ show_nat k @ '')'')"

definition earlier :: "vmess_node list \<Rightarrow> string \<Rightarrow> nat" where
  "earlier prev tag = length (filter (\<lambda>n. n_name n = tag) prev)"

definition seen_of :: "vmess_node list \<Rightarrow> string \<Rightarrow> nat option" where
  "seen_of prev tag = (case earlier prev tag of 0 \<Rightarrow> None | Suc c \<Rightarrow> Some c)"

lemma earlier_snoc: "earlier (prev @ [n]) tag = earlier prev tag + (if n_name n = tag then 1 else 0)"
  by (simp add: earlier_def)

lemma seen_of_snoc: "seen_of (prev @ [n]) = (seen_of prev)(n_name n \<mapsto> earlier prev (n_name n))"
  by (rule ext) (auto simp: seen_of_def earlier_snoc)

lemma seen_of_Nil: "seen_of [] = Map.empty"
  by (rule ext) (simp add: seen_of_def earlier_def)

lemma rename_nodes_nth:
  "length (rename_nodes (seen_of prev) nodes) = length nodes
   \<and> (\<forall>i < length nodes. rename_nodes (seen_of prev) nodes ! i
        = (nodes ! i)\<lparr>n_name := numbered (n_name (nodes ! i)) (earlier (prev @ take i nodes) (n_name (nodes ! i)))\<rparr>)"
proof (induction nodes arbitrary: prev)
  case (Cons n nodes)
  have step: "rename_nodes (seen_of prev) (n # nodes)
      = n\<lparr>n_name := numbered (n_name n) (earlier prev (n_name n))\<rparr> # rename_nodes (seen_of (prev @ [n])) nodes"
    by (auto simp: seen_of_snoc numbered_def Let_def seen_of_def split: nat.splits)
  show ?case unfolding step using Cons.IH [of "prev @ [n]"] by (auto simp: less_Suc_eq_0_disj)
qed simp

lemma numbered_inject:
  assumes "numbered t k = numbered u m" and "0 < k" and "0 < m"
  shows "t = u \<and> k = m"
proof -
  have nd: "CHR ''('' \<notin> set (rev (show_nat i))" for i
    using show_nat_digits [of "CHR ''(''" i] by auto
  define c where "c = CHR ''(''"
  have nd': "c \<notin> set (rev (show_nat i))" for i using nd by (simp add: c_def)
  have nm: "numbered x i = x @ [CHR '' '', c] @ show_nat i @ [CHR '')'']" if "0 < i" for x i
    using that by (simp add: numbered_def c_def)
  have "rev (show_nat k) @ c # CHR '' '' # rev t = rev (show_nat m) @ c # CHR '' '' # rev u"
    using arg_cong [OF assms(1), of rev] by (simp add: nm assms(2,3))
  then have "Some (rev (show_nat k), CHR '' '' # rev t) = Some (rev (show_nat m), CHR '' '' # rev u)"
    by (metis nd' split_once_append)
  then show ?thesis by simp
qed

lemma earlier_mono:
  assumes "i < j" and "j < length nodes" and "n_name (nodes ! i) = tag"
  shows "earlier (take i nodes) tag < earlier (take j nodes) tag"
proof -
  have "take j nodes = take (i + (j - i)) nodes" using assms(1) by simp
  also have "\<dots> = take i nodes @ take (j - i) (drop i nodes)" by (rule take_add)
  also have "drop i nodes = nodes ! i # drop (Suc i) nodes"
    using assms(1,2) by (simp add: Cons_nth_drop_Suc)
  finally have "take j nodes = take i nodes @ nodes ! i # take (j - Suc i) (drop (Suc i) nodes)"
    using assms(1) by (simp add: take_Cons' Suc_diff_Suc)
  then show ?thesis using assms(3) by (simp add: earlier_def)
qed

definition out_name :: "vmess_node list \<Rightarrow> nat \<Rightarrow> string" where
  "out_name nodes i = numbered (n_name (nodes ! i)) (earlier (take i nodes) (n_name (nodes ! i)))"

text \<open>No input name looks like a numbered form of an input name.\<close>

definition no_numbered_names :: "vmess_node list \<Rightarrow> bool" where
  "no_numbered_names nodes \<longleftrightarrow> (\<forall>n \<in> set nodes. \<forall>m \<in> set nodes. \<forall>k > 0. n_name n \<noteq> numbered (n_name m) k)"

lemma out_name_distinct:
  assumes "no_numbered_names nodes" and ij: "i < j" "j < length nodes"
  shows "out_name nodes i \<noteq> out_name nodes j"
proof
  let ?name = "\<lambda>i. n_name (nodes ! i)" and ?k = "\<lambda>i. earlier (take i nodes) (n_name (nodes ! i))"
  assume "out_name nodes i = out_name nodes j"
  then have eq: "numbered (?name i) (?k i) = numbered (?name j) (?k j)" by (simp add: out_name_def)
  have mem: "nodes ! i \<in> set nodes" "nodes ! j \<in> set nodes" using ij by auto
  consider "?k i = 0" "?k j = 0" | "?k i = 0" "0 < ?k j" | "0 < ?k i" "?k j = 0" | "0 < ?k i" "0 < ?k j"
    by blast
  then show False
  proof cases
    case 1
    then show False using eq earlier_mono [OF ij, of "?name j"] by (simp add: numbered_def)
  next
    case 2
    then have "?name i = numbered (?name j) (?k j)" using eq by (simp add: numbered_def)
    with assms(1) mem 2 show False unfolding no_numbered_names_def by blast
  next
    case 3
    then have "?name j = numbered (?name i) (?k i)" using eq by (simp add: numbered_def)
    with assms(1) mem 3 show False unfolding no_numbered_names_def by blast
  next
    case 4
    then have "?name i = ?name j" "?k i = ?k j" using numbered_inject [OF eq] by auto
    then show False using earlier_mono [OF ij, of "?name j"] by simp
  qed
qed

lemma deduplicate_rename_nth:
  assumes "dedup_parse s = Rename"
  shows "length (deduplicate_nodes nodes s) = length nodes
    \<and> (\<forall>i < length nodes. deduplicate_nodes nodes s ! i = (nodes ! i)\<lparr>n_name := out_name nodes i\<rparr>)"
proof -
  have out: "deduplicate_nodes nodes s = rename_nodes (seen_of []) nodes"
    using assms by (simp add: deduplicate_nodes_def seen_of_Nil)
  show ?thesis unfolding out out_name_def using rename_nodes_nth [of "[]" nodes] by simp
qed

text \<open>
  The renaming strategy keeps every node, in order, and changes
  nothing but names: the first node of a name keeps it, the next ones are numbered from 1. If no
  input name looks like a numbered form of another input name, the resulting names are distinct.
\<close>

theorem rename_numbers_duplicates:
  assumes "dedup_parse s = Rename"
  shows "length (deduplicate_nodes nodes s) = length nodes
    \<and> (\<forall>i < length nodes. deduplicate_nodes nodes s ! i
         = (nodes ! i)\<lparr>n_name := numbered (n_name (nodes ! i)) (earlier (take i nodes) (n_name (nodes ! i)))\<rparr>)
    \<and> (no_numbered_names nodes \<longrightarrow> distinct (map n_name (deduplicate_nodes nodes s)))"
proof -
  note nth = deduplicate_rename_nth [OF assms, of nodes]
  have "distinct (map n_name (deduplicate_nodes nodes s))" if "no_numbered_names nodes"
  proof -
    have "out_name nodes i \<noteq> out_name nodes j" if "i < length nodes" "j < length nodes" "i \<noteq> j" for i j
      using out_name_distinct [OF \<open>no_numbered_names nodes\<close>, of i j]
        out_name_distinct [OF \<open>no_numbered_names nodes\<close>, of j i] that by (cases "i < j") auto
    with nth show ?thesis by (simp add: distinct_conv_nth)
  qed
  with nth show ?thesis by (simp add: out_name_def)
qed

subsection \<open>The documented preferences\<close>

text \<open>
  The specification, as the documentation of the strategies has it: the kinds of addresses from the best to
  the worst. A kind that is not listed comes last; an unknown strategy has no preference.
\<close>

definition preference :: "string \<Rightarrow> address_type list" where
  "preference s =
     (if s = ''prefer_ipv4'' then [AddrIpv4, AddrDomain, AddrIpv6]
      else if s = ''prefer_ipv6'' then [AddrIpv6, AddrDomain, AddrIpv4]
      else if s = ''prefer_domain_then_ipv4'' then [AddrDomain, AddrIpv4, AddrIpv6]
      else if s = ''prefer_domain_then_ipv6'' then [AddrDomain, AddrIpv6, AddrIpv4]
      else [])"

definition address_rank :: "string \<Rightarrow> vmess_node \<Rightarrow> nat" where
  "address_rank s n = length (takeWhile (\<lambda>t. t \<noteq> get_address_type (n_server n)) (preference s))"

definition preferred :: "string \<Rightarrow> vmess_node list \<Rightarrow> nat \<Rightarrow> bool" where
  "preferred s nodes i \<longleftrightarrow>
     (\<forall>j < length nodes. n_name (nodes ! j) = n_name (nodes ! i) \<longrightarrow>
        (if s = ''first'' then i \<le> j
         else if s = ''last'' then j \<le> i
         else address_rank s (nodes ! i) < address_rank s (nodes ! j)
           \<or> address_rank s (nodes ! i) = address_rank s (nodes ! j) \<and> i \<le> j))"

lemma rank_priority:
  fixes a b :: address_type
  defines "r \<equiv> \<lambda>s t. length (takeWhile (\<lambda>u. u \<noteq> t) (preference s))"
  assumes "s \<noteq> ''first''" and "s \<noteq> ''last''"
  shows "(address_priority (dedup_parse s) b < address_priority (dedup_parse s) a \<longleftrightarrow> r s a < r s b)
    \<and> (address_priority (dedup_parse s) b = address_priority (dedup_parse s) a \<longleftrightarrow> r s a = r s b)"
proof -
  let ?named = "s = ''prefer_ipv4'' \<or> s = ''prefer_ipv6'' \<or> s = ''prefer_domain_then_ipv4'' \<or> s = ''prefer_domain_then_ipv6''"
  have "preference s = [] \<and> (dedup_parse s = Rename \<or> dedup_parse s = UnknownStrategy)" if "\<not> ?named"
    using that assms(2,3) by (simp add: preference_def dedup_parse_def)
  then consider "s = ''prefer_ipv4''" | "s = ''prefer_ipv6''" | "s = ''prefer_domain_then_ipv4''" | "s = ''prefer_domain_then_ipv6''"
    | "preference s = []" "dedup_parse s = Rename" | "preference s = []" "dedup_parse s = UnknownStrategy" by blast
  then show ?thesis
  proof cases
    case 1
    then have "dedup_parse s = PreferIpv4" "preference s = [AddrIpv4, AddrDomain, AddrIpv6]"
      by (simp_all add: dedup_parse_def preference_def)
    then show ?thesis unfolding r_def by (cases a; cases b; simp)
  next
    case 2
    then have "dedup_parse s = PreferIpv6" "preference s = [AddrIpv6, AddrDomain, AddrIpv4]"
      by (simp_all add: dedup_parse_def preference_def)
    then show ?thesis unfolding r_def by (cases a; cases b; simp)
  next
    case 3
    then have "dedup_parse s = PreferDomainThenIpv4" "preference s = [AddrDomain, AddrIpv4, AddrIpv6]"
      by (simp_all add: dedup_parse_def preference_def)
    then show ?thesis unfolding r_def by (cases a; cases b; simp)
  next
    case 4
    then have "dedup_parse s = PreferDomainThenIpv6" "preference s = [AddrDomain, AddrIpv6, AddrIpv4]"
      by (simp_all add: dedup_parse_def preference_def)
    then show ?thesis unfolding r_def by (cases a; cases b; simp)
  qed (simp_all add: r_def)
qed

lemma ahead_preferred:
  assumes "dedup_parse s \<noteq> Rename"
  shows "ahead (dedup_parse s) nodes i \<longleftrightarrow> preferred s nodes i"
proof -
  have "dedup_parse s \<noteq> First" "dedup_parse s \<noteq> Last" if "s \<noteq> ''first''" "s \<noteq> ''last''"
    using that by (simp_all add: dedup_parse_def)
  then consider "s = ''first''" | "s = ''last''"
    | "s \<noteq> ''first''" "s \<noteq> ''last''" "dedup_parse s \<noteq> First" "dedup_parse s \<noteq> Last" by blast
  then show ?thesis
  proof cases
    case 3
    then show ?thesis unfolding ahead_def preferred_def node_priority_def address_rank_def
      using rank_priority [OF 3(1,2)] assms by (cases "dedup_parse s") simp_all
  qed (simp_all add: ahead_def preferred_def dedup_parse_def)
qed

text \<open>
  C26 (dedup_keeps_preferred). Under the renaming strategy, the default, deduplication keeps every node, in order, and
  changes nothing but names: the first node of a name keeps it, the next ones are numbered from 1. Under
  every other strategy it keeps exactly one node of each name, in the original order: the first, the
  last, or the first of those whose address comes first in the documented order of the strategy (IPv4, domain,
  IPv6 for instance); an unknown strategy keeps the first.
\<close>

theorem dedup_keeps_preferred:
  "if s = '''' \<or> s = ''rename'' then
     length (deduplicate_nodes nodes s) = length nodes
     \<and> (\<forall>i < length nodes. deduplicate_nodes nodes s ! i
          = (nodes ! i)\<lparr>n_name := numbered (n_name (nodes ! i)) (earlier (take i nodes) (n_name (nodes ! i)))\<rparr>)
   else
     deduplicate_nodes nodes s = map ((!) nodes) (filter (preferred s nodes) [0..<length nodes])
     \<and> distinct (map n_name (deduplicate_nodes nodes s))
     \<and> set (map n_name (deduplicate_nodes nodes s)) = set (map n_name nodes)"
proof (cases "s = '''' \<or> s = ''rename''")
  case True
  then have "dedup_parse s = Rename" by (auto simp: dedup_parse_def)
  from deduplicate_rename_nth [OF this, of nodes] show ?thesis unfolding if_P [OF True] by (simp add: out_name_def)
next
  case False
  then have r: "dedup_parse s \<noteq> Rename" by (simp add: dedup_parse_def)
  have eq: "ahead (dedup_parse s) nodes = preferred s nodes" using ahead_preferred [OF r] by (intro ext)
  show ?thesis unfolding if_not_P [OF False] using dedup_keeps_ahead [OF r, of nodes] unfolding eq .
qed

theorem dedup_keeps_preferred_witness:
  "map n_server (deduplicate_nodes [sample_node, sample_node\<lparr>n_server := ''::1''\<rparr>] ''last'') = [''::1'']
   \<and> length (deduplicate_nodes [sample_node, sample_node] ''rename'') = 2"
proof -
  let ?ns = "[sample_node, sample_node\<lparr>n_server := ''::1''\<rparr>]"
  have "preferred ''last'' ?ns 1" "\<not> preferred ''last'' ?ns 0"
    by (auto simp: preferred_def less_Suc_eq sample_node_def)
  moreover have "[0..<length ?ns] = [0, 1]" by (simp add: upt_rec)
  ultimately have "filter (preferred ''last'' ?ns) [0..<length ?ns] = [1]" by simp
  with dedup_keeps_preferred [of "''last''" ?ns] dedup_keeps_preferred [of "''rename''" "[sample_node, sample_node]"]
  show ?thesis by simp
qed

lemma show_nat_1: "show_nat (Suc 0) = ''1''"
  by code_simp

theorem rename_numbers_duplicates_witness:
  "map n_name (deduplicate_nodes [sample_node, sample_node] ''rename'') = [''a'', ''a (1)'']"
proof -
  let ?ns = "[sample_node, sample_node]"
  let ?out = "deduplicate_nodes ?ns ''rename''"
  have r: "dedup_parse ''rename'' = Rename" by (simp add: dedup_parse_def)
  have len: "length ?out = length ?ns" using rename_numbers_duplicates [OF r, of ?ns] by blast
  have n: "n_name (?out ! i) = numbered (n_name (?ns ! i)) (earlier (take i ?ns) (n_name (?ns ! i)))"
    if "i < length ?ns" for i
    using conjunct1 [OF conjunct2 [OF rename_numbers_duplicates [OF r, of ?ns]]] that by simp
  have a: "n_name sample_node = ''a''" by (simp add: sample_node_def)
  have "n_name (?out ! 0) = ''a''" using n [of 0] by (simp add: numbered_def earlier_def a)
  moreover have "n_name (?out ! 1) = ''a (1)''"
    using n [of 1] by (simp add: numbered_def earlier_def a show_nat_1)
  moreover obtain x y where "?out = [x, y]" using len by (auto simp: length_Suc_conv)
  ultimately show ?thesis by simp
qed

text \<open>
  Renaming does not look at names it has not reached yet: two nodes
  \<open>a\<close> followed by a node that is already called \<open>a (1)\<close> leave two nodes called \<open>a (1)\<close>.
\<close>

theorem rename_can_collide:
  "map n_name (deduplicate_nodes [sample_node, sample_node, sample_node\<lparr>n_name := ''a (1)''\<rparr>] ''rename'')
   = [''a'', ''a (1)'', ''a (1)'']"
  by (simp add: deduplicate_nodes_def dedup_parse_def sample_node_def show_nat_1)

end
