(* ===== verification/Sub_Manager.thy ===== *)
theory Sub_Manager
  imports Sub_Process Validator
begin

text \<open>
  \<^verbatim>\<open>src/subscription/manager.rs\<close>: fetching the sources, the cache file, the shared node list, and
  the routing table built from it. The outside world is the record \<open>world\<close>: the files, which of
  them can be written, and the answers of the HTTP servers. The library parameters of the parser
  and the pipeline, the JSON codec of the cache and the URI parser are the record \<open>sub_env\<close>.
  A \<^verbatim>\<open>HashMap\<close> is a map.

  The lemmas show what a reload loads for every source, that an offline reload gives back what the
  last reload loaded, and which node lists can be turned into a routing table.
\<close>

subsection \<open>Definitions\<close>

type_synonym cache_map = "string \<rightharpoonup> vmess_node list"

record world =
  wd_files :: "string \<rightharpoonup> string"
  wd_writable :: "string \<Rightarrow> bool" \<comment> \<open>whether a write of the whole file succeeds\<close>
  wd_failed :: "string \<Rightarrow> string option" \<comment> \<open>what a failed write leaves: the file as it was, truncated, or in part\<close>
  wd_http :: "string \<Rightarrow> string \<Rightarrow> (nat \<times> string result) result" \<comment> \<open>user agent, URL: status and body\<close>

record sub_env =
  se_parse :: parse_env
  se_regex :: regex_engine
  se_cache_from_str :: "string \<Rightarrow> cache_map option"
  se_cache_to_string :: "cache_map \<Rightarrow> string option"
  se_uri_parse :: "string \<Rightarrow> uri option"

definition read_to_string :: "world \<Rightarrow> string \<Rightarrow> string result" where
  "read_to_string w path =
     (case wd_files w path of
        None \<Rightarrow> Inl IoNotFound
      | Some bs \<Rightarrow> ok_or (from_utf8 bs) (Foreign ''stream did not contain valid UTF-8''))"

definition fs_write :: "world \<Rightarrow> string \<Rightarrow> string \<Rightarrow> world" where
  "fs_write w path s =
     w\<lparr>wd_files := (wd_files w)(path := (if wd_writable w path then Some s else wd_failed w path))\<rparr>"

definition load_cache :: "sub_env \<Rightarrow> world \<Rightarrow> string \<Rightarrow> cache_map" where
  "load_cache env w path =
     (case read_to_string w path of
        Inr s \<Rightarrow> or_default (se_cache_from_str env s) Map.empty
      | Inl _ \<Rightarrow> Map.empty)"

definition save_cache :: "sub_env \<Rightarrow> world \<Rightarrow> string \<Rightarrow> cache_map \<Rightarrow> world" where
  "save_cache env w path cache =
     (case se_cache_to_string env cache of Some s \<Rightarrow> fs_write w path s | None \<Rightarrow> w)"

definition is_success :: "nat \<Rightarrow> bool" where
  "is_success status \<longleftrightarrow> 200 \<le> status \<and> status < 300"

definition fetch_http_source :: "world \<Rightarrow> subscription_source \<Rightarrow> string \<Rightarrow> string result" where
  "fetch_http_source w source url =
     bind_result (wd_http w (src_user_agent source) url) (\<lambda>resp.
       if \<not> is_success (fst resp) then Inl (HttpStatusError (fst resp)) else snd resp)"

definition fetch_source :: "sub_env \<Rightarrow> world \<Rightarrow> subscription_source \<Rightarrow> vmess_node list result" where
  "fetch_source env w source =
     bind_result
       (case (src_url source, src_path source) of
          (Some url, None) \<Rightarrow> fetch_http_source w source url
        | (None, Some path) \<Rightarrow> read_to_string w path
        | (Some _, Some _) \<Rightarrow> Inl SourceBothLocations
        | (None, None) \<Rightarrow> Inl SourceNoLocation)
       (\<lambda>body. Inr (apply_pipeline (se_regex env) (parse_subscription (se_parse env) body) (src_process source)))"

record subscription_manager =
  mgr_config :: subscription_config
  nodes_by_source :: cache_map
  all_nodes :: "vmess_node list"

definition manager_new :: "subscription_config \<Rightarrow> subscription_manager" where
  "manager_new cfg = \<lparr>mgr_config = cfg, nodes_by_source = Map.empty, all_nodes = []\<rparr>"

definition tag_source :: "string \<Rightarrow> vmess_node list \<Rightarrow> vmess_node list" where
  "tag_source name nodes = map (\<lambda>n. n\<lparr>n_source := name\<rparr>) nodes"

fun reload_sources :: "sub_env \<Rightarrow> world \<Rightarrow> subscription_source list \<Rightarrow> cache_map \<Rightarrow> cache_map
    \<Rightarrow> cache_map \<times> cache_map" where
  "reload_sources env w [] cache new_map = (cache, new_map)"
| "reload_sources env w (source # srcs) cache new_map =
     (case fetch_source env w source of
        Inr fetched \<Rightarrow>
          (let nodes = tag_source (src_name source) fetched in
           reload_sources env w srcs (cache(src_name source \<mapsto> nodes)) (new_map(src_name source \<mapsto> nodes)))
      | Inl _ \<Rightarrow>
          (case cache (src_name source) of
             Some cached \<Rightarrow>
               reload_sources env w srcs cache
                 (new_map(src_name source \<mapsto> tag_source (src_name source) cached))
           | None \<Rightarrow> reload_sources env w srcs cache new_map))"

definition nodes_in_order :: "cache_map \<Rightarrow> subscription_source list \<Rightarrow> vmess_node list" where
  "nodes_in_order m srcs = concat (map (\<lambda>s. or_default (m (src_name s)) []) srcs)"

definition manager_reload :: "sub_env \<Rightarrow> world \<Rightarrow> subscription_manager
    \<Rightarrow> unit result \<times> subscription_manager \<times> world" where
  "manager_reload env w mgr =
     (let cfg = mgr_config mgr;
          cache0 = (case cache_file cfg of None \<Rightarrow> Map.empty | Some path \<Rightarrow> load_cache env w path);
          r = reload_sources env w (sources cfg) cache0 Map.empty;
          w' = (case cache_file cfg of None \<Rightarrow> w | Some path \<Rightarrow> save_cache env w path (fst r));
          all = deduplicate_nodes (nodes_in_order (snd r) (sources cfg)) (deduplication cfg)
      in (Inr (), mgr\<lparr>nodes_by_source := snd r, all_nodes := all\<rparr>, w'))"

definition node_transport :: "sub_env \<Rightarrow> vmess_node \<Rightarrow> u16 \<Rightarrow> transport result" where
  "node_transport env node port =
     (if n_network node = ''grpc'' then
        (let service = or_default (n_grpc_service_name node) '''';
             sni = n_sni node;
             text = ''https://'' @ sni @ '':'' @ show_nat (unat port) @ ''/'' @ service @ ''/Tun''
         in bind_result (ok_or (se_uri_parse env text) RequestUriError) (\<lambda>uri. Inr (Grpc service sni uri)))
      else Inr Tcp)"

fun socket_port :: "socket_addr \<Rightarrow> u16" where
  "socket_port (SocketV4 _ p) = p"
| "socket_port (SocketV6 _ p _) = p"

definition node_pair :: "sub_env \<Rightarrow> vmess_node \<Rightarrow> (string \<times> upstream) result" where
  "node_pair env node =
     (let a = n_server node @ '':'' @ show_nat (n_port node) in
      bind_result (ok_or (parse_socket_addr a) AddrParseError) (\<lambda>parsed.
      bind_result (node_transport env node (socket_port parsed)) (\<lambda>t.
      Inr (n_uuid node, \<lparr>addr = a, parsed_addr = parsed, transport = t, tcp_fast_open = False\<rparr>))))"

definition build_validator :: "crypto \<Rightarrow> sub_env \<Rightarrow> subscription_manager \<Rightarrow> validator result" where
  "build_validator c env mgr = bind_result (map_result (node_pair env) (all_nodes mgr)) (validator_new c)"

subsection \<open>What a reload loads\<close>

lemma find_distinct:
  "s \<in> set xs \<Longrightarrow> distinct (map f xs) \<Longrightarrow> List.find (\<lambda>t. f t = f s) xs = Some s"
  by (induction xs) auto

lemma tag_source_idem [simp]: "tag_source nm (tag_source nm ns) = tag_source nm ns"
  by (simp add: tag_source_def)

text \<open>What one source contributes, given the cache at the start of the reload.\<close>

definition source_nodes :: "sub_env \<Rightarrow> world \<Rightarrow> cache_map \<Rightarrow> subscription_source \<Rightarrow> vmess_node list option" where
  "source_nodes env w cache s =
     (case fetch_source env w s of
        Inr fetched \<Rightarrow> Some (tag_source (src_name s) fetched)
      | Inl _ \<Rightarrow> map_option (tag_source (src_name s)) (cache (src_name s)))"

lemma reload_sources_outcome:
  assumes "distinct (map src_name srcs)"
  shows "snd (reload_sources env w srcs cache m) nm =
      (case List.find (\<lambda>s. src_name s = nm) srcs of
         None \<Rightarrow> m nm
       | Some s \<Rightarrow> (case source_nodes env w cache s of None \<Rightarrow> m nm | Some ns \<Rightarrow> Some ns))
    \<and> fst (reload_sources env w srcs cache m) nm =
      (case List.find (\<lambda>s. src_name s = nm) srcs of
         None \<Rightarrow> cache nm
       | Some s \<Rightarrow> (case fetch_source env w s of Inr fetched \<Rightarrow> Some (tag_source (src_name s) fetched) | Inl _ \<Rightarrow> cache nm))"
  using assms
proof (induction srcs arbitrary: cache m)
  case (Cons s srcs)
  have notin: "List.find (\<lambda>x. src_name x = src_name s) srcs = None"
    using Cons.prems by (simp add: find_None_iff) (metis image_eqI)
  have cong: "source_nodes env w (cache(src_name s := v)) t = source_nodes env w cache t" if "t \<in> set srcs" for t v
  proof -
    have "src_name t \<in> src_name ` set srcs" using that by (rule imageI)
    with Cons.prems have "src_name t \<noteq> src_name s" by auto
    then show ?thesis by (simp add: source_nodes_def split: sum.split)
  qed
  have found: "t \<in> set srcs" if "List.find P srcs = Some t" for P t
    using that by (auto simp: find_Some_iff)
  show ?case
  proof (cases "fetch_source env w s")
    case (Inl e)
    then show ?thesis using Cons notin
      by (cases "cache (src_name s)") (auto simp: source_nodes_def split: option.splits)
  next
    case (Inr ns)
    let ?ns = "tag_source (src_name s) ns"
    define c' where "c' = cache(src_name s \<mapsto> ?ns)"
    define m' where "m' = m(src_name s \<mapsto> ?ns)"
    have step: "reload_sources env w (s # srcs) cache m = reload_sources env w srcs c' m'"
      by (simp add: Inr Let_def c'_def m'_def)
    have d: "distinct (map src_name srcs)" using Cons.prems by simp
    have upd: "c' nm = (if nm = src_name s then Some ?ns else cache nm)"
      "m' nm = (if nm = src_name s then Some ?ns else m nm)" by (simp_all add: c'_def m'_def)
    have same: "source_nodes env w c' t = source_nodes env w cache t" if "List.find P srcs = Some t" for P t
      unfolding c'_def by (rule cong [OF found [OF that]])
    note IH = Cons.IH [OF d, of c' m']
    show ?thesis
    proof (cases "nm = src_name s")
      case True
      show ?thesis using IH upd unfolding step True notin by (simp add: source_nodes_def Inr)
    next
      case False
      then show ?thesis using IH upd unfolding step
        by (cases "List.find (\<lambda>s. src_name s = nm) srcs") (simp_all add: same cong: sum.case_cong option.case_cong)
    qed
  qed
qed simp

lemma nodes_in_order_reload:
  assumes "distinct (map src_name srcs)"
  shows "nodes_in_order (snd (reload_sources env w srcs cache Map.empty)) srcs
    = concat (map (\<lambda>s. or_default (source_nodes env w cache s) []) srcs)"
proof -
  have "snd (reload_sources env w srcs cache Map.empty) (src_name s) = source_nodes env w cache s"
    if "s \<in> set srcs" for s
    using find_distinct [OF that assms] reload_sources_outcome [OF assms] by (auto split: option.splits)
  then show ?thesis unfolding nodes_in_order_def by (auto intro!: arg_cong [of _ _ concat])
qed

text \<open>The cache a reload starts from.\<close>

definition start_cache :: "sub_env \<Rightarrow> world \<Rightarrow> subscription_config \<Rightarrow> cache_map" where
  "start_cache env w cfg = (case cache_file cfg of None \<Rightarrow> Map.empty | Some path \<Rightarrow> load_cache env w path)"

text \<open>
  A reload never fails. When the sources have different names, the node
  list it leaves is the deduplication of the sources' contributions in the order of the
  configuration: of a source that could be fetched, what was fetched and processed; of one that
  could not, what the cache file held for its name; and nothing if it held nothing. Every node is
  labelled with the name of its source.
\<close>

theorem reload_per_source:
  assumes "distinct (map src_name (sources (mgr_config mgr)))"
  shows "\<exists>mgr' w'. manager_reload env w mgr = (Inr (), mgr', w') \<and> mgr_config mgr' = mgr_config mgr
    \<and> all_nodes mgr' = deduplicate_nodes
        (concat (map (\<lambda>s. or_default (source_nodes env w (start_cache env w (mgr_config mgr)) s) [])
           (sources (mgr_config mgr)))) (deduplication (mgr_config mgr))"
  using nodes_in_order_reload [OF assms] by (simp add: manager_reload_def Let_def start_cache_def)

text \<open>An environment for witnesses: no source can be fetched, and the cache file is not read.\<close>

definition sample_env :: sub_env where
  "sample_env = \<lparr>se_parse = null_env, se_regex = literal_regex,
     se_cache_from_str = (\<lambda>s. if s = ''c'' then Some [''s'' \<mapsto> [sample_node]] else None),
     se_cache_to_string = (\<lambda>m. Some ''c''), se_uri_parse = Some\<rparr>"

definition offline_world :: world where
  "offline_world = \<lparr>wd_files = [''cache'' \<mapsto> ''c''], wd_writable = (\<lambda>_. True), wd_failed = Map.empty, wd_http = (\<lambda>_ _. Inl Timeout)\<rparr>"

definition sample_source :: subscription_source where
  "sample_source = \<lparr>src_name = ''s'', src_url = Some ''http://x'', src_path = None, src_user_agent = ''ua'',
     src_process = []\<rparr>"

definition sample_subscription :: subscription_config where
  "sample_subscription = \<lparr>cache_file = Some ''cache'', update_interval = 0, sources = [sample_source],
     deduplication = ''first''\<rparr>"

lemma sample_cache: "load_cache sample_env offline_world ''cache'' = [''s'' \<mapsto> [sample_node]]"
  by (simp add: load_cache_def read_to_string_def offline_world_def from_utf8_def utf8_valid_def sample_env_def
      or_default_def)

lemma sample_fetch: "fetch_source env offline_world sample_source = Inl Timeout"
  by (simp add: fetch_source_def sample_source_def fetch_http_source_def offline_world_def)

theorem reload_per_source_witness:
  "\<exists>mgr' w'. manager_reload sample_env offline_world (manager_new sample_subscription) = (Inr (), mgr', w')
    \<and> all_nodes mgr' = deduplicate_nodes [sample_node] ''first''"
proof -
  have "distinct (map src_name (sources (mgr_config (manager_new sample_subscription))))"
    by (simp add: manager_new_def sample_subscription_def)
  moreover have "tag_source ''s'' [sample_node] = [sample_node]" by (simp add: tag_source_def sample_node_def)
  moreover have "src_name sample_source = ''s''" by (simp add: sample_source_def)
  ultimately show ?thesis
    using reload_per_source [of "manager_new sample_subscription" sample_env offline_world]
    by (auto simp: manager_new_def sample_subscription_def start_cache_def sample_cache source_nodes_def
        sample_fetch or_default_def)
qed

subsection \<open>Filtering by source in the pipeline of a source\<close>

lemma source_step_unselected:
  assumes "n_source n = []" and "\<not> ps_invert step" and "compile_patterns re (ps_filter_source step) \<noteq> []"
    and "list_all (\<lambda>p. \<not> regex_is_match re p []) (compile_patterns re (ps_filter_source step))"
  shows "\<not> is_selected re (from_step re step) n"
  using assms by (auto simp: is_selected_def from_step_def Let_def list_ex_iff list_all_iff)

text \<open>
  C32 (source_filter_ineffective). In the pipeline of a source, a step that selects nodes by the name of
  their source has no effect, wherever it stands, unless one of its patterns matches the empty text:
  the pipeline runs before the nodes are given their source.
\<close>

theorem source_filter_ineffective:
  assumes "\<not> ps_invert step" and "compile_patterns (se_regex env) (ps_filter_source step) \<noteq> []"
    and "list_all (\<lambda>p. \<not> regex_is_match (se_regex env) p []) (compile_patterns (se_regex env) (ps_filter_source step))"
  shows "fetch_source env w (s\<lparr>src_process := before @ step # after\<rparr>) = fetch_source env w (s\<lparr>src_process := before @ after\<rparr>)"
proof -
  let ?re = "se_regex env"
  have "apply_pipeline ?re ns (before @ step # after) = apply_pipeline ?re ns (before @ after)"
    if "\<forall>n \<in> set ns. n_source n = []" for ns
  proof -
    have "\<forall>n \<in> set (apply_pipeline ?re ns before). \<not> is_selected ?re (from_step ?re step) n"
      using that apply_pipeline_sources source_step_unselected [OF _ assms] by metis
    from apply_step_unselected [OF this] show ?thesis
      unfolding apply_pipeline_append by (simp add: apply_pipeline_def)
  qed
  moreover have "\<forall>n \<in> set (parse_subscription (se_parse env) body). n_source n = []" for body
    using parse_subscription_source by (auto simp: empty_source_def)
  moreover have "fetch_http_source w (s\<lparr>src_process := ps\<rparr>) url = fetch_http_source w s url" for ps url
    by (simp add: fetch_http_source_def)
  ultimately show ?thesis by (simp add: fetch_source_def split: option.split)
qed

text \<open>A file with one link, in a source whose pipeline removes all nodes of that source.\<close>

definition one_node_env :: sub_env where
  "one_node_env = sample_env\<lparr>se_parse := null_env\<lparr>url_parse := (\<lambda>_. Some \<lparr>url_username = ''u'',
     url_host_str = Some ''h'', url_port = Some 1, url_path = '''', url_query = None, url_query_pairs = [],
     url_fragment = None\<rparr>)\<rparr>\<rparr>"

definition one_node_world :: world where
  "one_node_world = offline_world\<lparr>wd_files := [''f'' \<mapsto> ''vmess://u'']\<rparr>"

definition removing_step :: process_step where
  "removing_step = plain_step\<lparr>ps_filter_source := [''free_sub''], ps_remove := True\<rparr>"

lemma one_node_parsed: "\<exists>n. parse_subscription (se_parse one_node_env) ''vmess://u'' = [n] \<and> n_server n = ''h''"
proof -
  let ?pe = "se_parse one_node_env"
  have t: "trim ''vmess://u'' = ''vmess://u''" "lines ''vmess://u'' = [''vmess://u'']" by code_simp+
  have "try_base64_decode ?pe ''vmess://u'' = None"
    by (simp add: try_base64_decode_def one_node_env_def sample_env_def null_env_def from_utf8_opt_def or_else_def)
  moreover obtain n where "parse_url_format ?pe \<lparr>url_username = ''u'', url_host_str = Some ''h'', url_port = Some 1,
      url_path = '''', url_query = None, url_query_pairs = [], url_fragment = None\<rparr> = Inr n" "n_server n = ''h''"
    by (simp add: parse_url_format_def build_node_Inr or_default_def node_of_opts_def Let_def)
  ultimately show ?thesis
    by (simp add: parse_subscription_def t or_default_def List.map_filter_simps parse_line_def parse_vmess_link_def
        vmess_scheme_def starts_with_def one_node_env_def)
qed

theorem source_filter_ineffective_witness:
  "\<exists>n. fetch_source one_node_env one_node_world
     \<lparr>src_name = ''free_sub'', src_url = None, src_path = Some ''f'', src_user_agent = '''', src_process = [removing_step]\<rparr>
     = Inr [n] \<and> n_server n = ''h''"
proof -
  let ?s = "\<lparr>src_name = ''free_sub'', src_url = None, src_path = Some ''f'', src_user_agent = '''', src_process = []\<rparr>"
  have "fetch_source one_node_env one_node_world (?s\<lparr>src_process := [] @ removing_step # []\<rparr>)
      = fetch_source one_node_env one_node_world (?s\<lparr>src_process := [] @ []\<rparr>)"
    by (rule source_filter_ineffective)
      (simp_all add: removing_step_def plain_step_def one_node_env_def sample_env_def literal_regex_def compile_patterns_def)
  moreover have "\<exists>n. parse_subscription (se_parse one_node_env) ''vmess://u'' = [n] \<and> n_server n = ''h''"
    by (rule one_node_parsed)
  moreover have "read_to_string one_node_world ''f'' = Inr ''vmess://u''"
    by (simp add: read_to_string_def one_node_world_def from_utf8_def utf8_valid_def)
  ultimately show ?thesis by (auto simp: fetch_source_def apply_pipeline_def)
qed

subsection \<open>Offline reloads\<close>

text \<open>
  What the reload relies on of the JSON codec for a cache it saves: the text is valid UTF-8 and is
  read back as the same cache.
\<close>

definition reads_back :: "sub_env \<Rightarrow> cache_map \<Rightarrow> bool" where
  "reads_back env m \<longleftrightarrow>
     (case se_cache_to_string env m of None \<Rightarrow> False
      | Some s \<Rightarrow> utf8_valid s \<and> se_cache_from_str env s = Some m)"

definition saved_cache :: "sub_env \<Rightarrow> world \<Rightarrow> subscription_config \<Rightarrow> cache_map" where
  "saved_cache env w cfg = fst (reload_sources env w (sources cfg) (start_cache env w cfg) Map.empty)"

lemma load_after_save:
  assumes "reads_back env m" and "wd_writable w path"
  shows "load_cache env (save_cache env w path m) path = m"
  using assms
  by (auto simp: reads_back_def save_cache_def fs_write_def load_cache_def read_to_string_def from_utf8_def
      or_default_def split: option.splits)

text \<open>
  C27 (offline_reload_restores). When the cache file can be written and reads back, a reload in which no source can
  be reached, by a new manager that finds the cache file as the previous reload left it, gives
  exactly the node list of the previous reload, whichever of its sources had been reached.
\<close>

theorem offline_reload_restores:
  assumes "distinct (map src_name (sources cfg))" and "cache_file cfg = Some path"
    and "reads_back env (saved_cache env w cfg)" and "wd_writable w path"
    and "manager_reload env w (manager_new cfg) = (r, mgr, w1)"
    and "wd_files w2 path = wd_files w1 path" and "list_all (\<lambda>s. \<not> is_ok (fetch_source env w2 s)) (sources cfg)"
  shows "\<exists>mgr2 w3. manager_reload env w2 (manager_new cfg) = (Inr (), mgr2, w3) \<and> all_nodes mgr2 = all_nodes mgr"
proof -
  let ?c0 = "load_cache env w path"
  define c1 where "c1 = fst (reload_sources env w (sources cfg) ?c0 Map.empty)"
  have w1: "w1 = save_cache env w path c1"
    using assms(2,5) by (simp add: manager_reload_def manager_new_def Let_def c1_def)
  have sc: "saved_cache env w cfg = c1" by (simp add: saved_cache_def start_cache_def assms(2) c1_def)
  have "load_cache env w2 path = load_cache env w1 path"
    using assms(6) by (simp add: load_cache_def read_to_string_def)
  then have c2: "load_cache env w2 path = c1" using load_after_save [OF assms(3,4)] w1 sc by simp
  have "source_nodes env w2 c1 s = source_nodes env w ?c0 s" if sin: "s \<in> set (sources cfg)" for s
  proof -
    have "List.find (\<lambda>t. src_name t = src_name s) (sources cfg) = Some s"
      by (rule find_distinct [OF sin assms(1)])
    then have "c1 (src_name s) = (case fetch_source env w s of
        Inr fetched \<Rightarrow> Some (tag_source (src_name s) fetched) | Inl _ \<Rightarrow> ?c0 (src_name s))"
      using reload_sources_outcome [OF assms(1), of env w ?c0 Map.empty "src_name s"] by (simp add: c1_def)
    moreover obtain e where "fetch_source env w2 s = Inl e"
      using bspec [OF assms(7) [unfolded list_all_iff] sin] by (cases "fetch_source env w2 s") simp_all
    ultimately show ?thesis by (auto simp: source_nodes_def split: sum.splits)
  qed
  then have eq: "concat (map (\<lambda>s. or_default (source_nodes env w2 c1 s) []) (sources cfg))
      = concat (map (\<lambda>s. or_default (source_nodes env w ?c0 s) []) (sources cfg))"
    by (intro arg_cong [of _ _ concat] map_cong) simp_all
  moreover have "all_nodes mgr = deduplicate_nodes (concat (map (\<lambda>s. or_default (source_nodes env w ?c0 s) [])
      (sources cfg))) (deduplication cfg)"
    using assms(2,5) nodes_in_order_reload [OF assms(1)] by (auto simp: manager_reload_def manager_new_def Let_def)
  ultimately show ?thesis
    using assms(2) nodes_in_order_reload [OF assms(1), of env w2 c1]
    by (simp add: manager_reload_def manager_new_def Let_def c2 eq)
qed

lemma sample_saved: "saved_cache sample_env offline_world sample_subscription = [''s'' \<mapsto> [sample_node]]"
  by (simp add: saved_cache_def start_cache_def sample_subscription_def sample_cache sample_fetch
      sample_source_def [THEN arg_cong [of _ _ src_name], simplified])

theorem offline_reload_restores_witness:
  "\<exists>mgr w1 mgr2 w3. manager_reload sample_env offline_world (manager_new sample_subscription) = (Inr (), mgr, w1)
    \<and> manager_reload sample_env w1 (manager_new sample_subscription) = (Inr (), mgr2, w3)
    \<and> all_nodes mgr2 = all_nodes mgr"
proof -
  obtain mgr w1 where r: "manager_reload sample_env offline_world (manager_new sample_subscription) = (Inr (), mgr, w1)"
    by (simp add: manager_reload_def Let_def)
  have w1: "wd_http w1 = wd_http offline_world"
    using r by (auto simp: manager_reload_def Let_def save_cache_def fs_write_def split: option.splits if_splits)
  have "reads_back sample_env [''s'' \<mapsto> [sample_node]]"
    by (simp add: reads_back_def sample_env_def utf8_valid_def)
  moreover have "list_all (\<lambda>s. \<not> is_ok (fetch_source sample_env w1 s)) (sources sample_subscription)"
    by (simp add: sample_subscription_def fetch_source_def sample_source_def fetch_http_source_def w1 offline_world_def)
  ultimately obtain mgr2 w3 where
      "manager_reload sample_env w1 (manager_new sample_subscription) = (Inr (), mgr2, w3)"
      "all_nodes mgr2 = all_nodes mgr"
    using offline_reload_restores [of sample_subscription "''cache''" sample_env offline_world "Inr ()" mgr w1 w1]
      r sample_saved by (auto simp: sample_subscription_def offline_world_def)
  with r show ?thesis by blast
qed

subsection \<open>Routing tables from nodes\<close>

text \<open>The entry of a node: its UUID, its address and its transport.\<close>

definition entry_for :: "crypto \<Rightarrow> sub_env \<Rightarrow> vmess_node \<Rightarrow> entry \<Rightarrow> bool" where
  "entry_for c env n e \<longleftrightarrow> uuid e = n_uuid n \<and> from_uuid c (n_uuid n) = Inr (verifier e)
      \<and> addr (upstream e) = n_server n @ '':'' @ show_nat (n_port n)
      \<and> parse_socket_addr (addr (upstream e)) = Some (parsed_addr (upstream e))
      \<and> (if n_network n = ''grpc'' then
           (\<exists>u. se_uri_parse env (''https://'' @ n_sni n @ '':'' @ show_nat (unat (socket_port (parsed_addr (upstream e))))
                  @ ''/'' @ or_default (n_grpc_service_name n) '''' @ ''/Tun'') = Some u
              \<and> transport (upstream e) = Grpc (or_default (n_grpc_service_name n) '''') (n_sni n) u)
         else transport (upstream e) = Tcp)"

lemma built_entries:
  assumes "build_validator c env mgr = Inr v"
  shows "list_all2 (entry_for c env) (all_nodes mgr) (entries v)"
proof -
  obtain pairs where p: "list_all2 (\<lambda>n p. node_pair env n = Inr p) (all_nodes mgr) pairs"
      and e: "list_all2 (entry_of c) pairs (entries v)"
    using assms by (auto simp: build_validator_def map_result_eq_Inr validator_new_eq_Inr)
  show ?thesis
  proof (rule list_all2_trans [OF _ p e])
    fix n pr en
    assume "node_pair env n = Inr pr" and "entry_of c pr en"
    then show "entry_for c env n en"
      by (cases "n_network n = ''grpc''")
        (auto simp: entry_for_def node_pair_def Let_def node_transport_def entry_of_def dest: sym)
  qed
qed

text \<open>
  When a routing table can be built, it has one entry per node, in the
  order of the node list, with the UUID of the node, the address made of its server and port, and
  gRPC as its transport exactly for gRPC nodes, with their server name and the request URI made of
  server name, port and service name.
\<close>

theorem build_validator_routes:
  assumes "build_validator c env mgr = Inr v"
  shows "list_all2 (\<lambda>n e. uuid e = n_uuid n \<and> from_uuid c (n_uuid n) = Inr (verifier e)
      \<and> addr (upstream e) = n_server n @ '':'' @ show_nat (n_port n)
      \<and> parse_socket_addr (addr (upstream e)) = Some (parsed_addr (upstream e))
      \<and> (if n_network n = ''grpc'' then
           (\<exists>u. se_uri_parse env (''https://'' @ n_sni n @ '':'' @ show_nat (unat (socket_port (parsed_addr (upstream e))))
                  @ ''/'' @ or_default (n_grpc_service_name n) '''' @ ''/Tun'') = Some u
              \<and> transport (upstream e) = Grpc (or_default (n_grpc_service_name n) '''') (n_sni n) u)
         else transport (upstream e) = Tcp)) (all_nodes mgr) (entries v)"
  using built_entries [OF assms] unfolding entry_for_def .

text \<open>
  C31 (domain_server_breaks_validator). A single node whose server is a domain name, that is a text
  that starts with neither a digit nor a bracket, makes building the routing table fail for all
  nodes, although the deduplication strategies treat domain names as servers like any other.
\<close>

theorem domain_server_breaks_validator:
  assumes "n \<in> set (all_nodes mgr)" and "n_server n = ch # rest" and "dec_digit ch = None" and "ch \<noteq> CHR ''[''"
  shows "\<exists>e. build_validator c env mgr = Inl e"
proof -
  have "parse_socket_addr (n_server n @ '':'' @ show_nat (n_port n)) = None"
    using parse_socket_addr_start [of "n_server n @ '':'' @ show_nat (n_port n)"] assms(2-4)
    by (cases "parse_socket_addr (n_server n @ '':'' @ show_nat (n_port n))") auto
  then have "\<not> is_ok (node_pair env n)" by (simp add: node_pair_def)
  then have "\<not> is_ok (map_result (node_pair env) (all_nodes mgr))"
    using assms(1) by (auto simp: map_result_is_ok)
  then show ?thesis by (cases "map_result (node_pair env) (all_nodes mgr)") (simp_all add: build_validator_def)
qed

definition routed_manager :: "vmess_node list \<Rightarrow> subscription_manager" where
  "routed_manager ns = (manager_new sample_subscription)\<lparr>all_nodes := ns\<rparr>"

theorem build_validator_routes_witness:
  "\<exists>v. build_validator toy_crypto sample_env (routed_manager [sample_node\<lparr>n_uuid := sample_uuid\<rparr>]) = Inr v
    \<and> map (addr \<circ> upstream) (entries v) = [''10.0.0.1:443'']"
proof -
  let ?n = "sample_node\<lparr>n_uuid := sample_uuid\<rparr>"
  have a: "n_server ?n @ '':'' @ show_nat (n_port ?n) = ''10.0.0.1:443''" by code_simp
  have s: "show_ipv4 (Ipv4Addr 10 0 0 1) @ '':'' @ show_nat 443 = ''10.0.0.1:443''" by code_simp
  have p: "parse_socket_addr ''10.0.0.1:443'' = Some (SocketV4 (Ipv4Addr 10 0 0 1) (word_of_nat 443))"
    using parse_socket_addr_show_v4 [of 443 "Ipv4Addr 10 0 0 1"] unfolding s by simp
  obtain b where b: "parse_uuid sample_uuid = Inr b" using parse_sample_uuid by blast
  have np: "\<exists>q. node_pair sample_env ?n = Inr (sample_uuid, q)"
    unfolding node_pair_def Let_def a p by (simp add: node_transport_def sample_node_def)
  then obtain v where v: "build_validator toy_crypto sample_env (routed_manager [?n]) = Inr v"
    by (auto simp: build_validator_def routed_manager_def validator_new_def from_uuid_eq b)
  from build_validator_routes [OF v] have "map (addr \<circ> upstream) (entries v) = [n_server ?n @ '':'' @ show_nat (n_port ?n)]"
    by (auto simp: routed_manager_def list_all2_Cons1)
  with v a show ?thesis by auto
qed

theorem domain_server_breaks_validator_witness:
  "\<exists>e. build_validator toy_crypto sample_env (routed_manager [sample_node\<lparr>n_server := ''example.org''\<rparr>]) = Inl e"
  by (rule domain_server_breaks_validator [where ch = "CHR ''e''" and rest = "''xample.org''"
        and n = "sample_node\<lparr>n_server := ''example.org''\<rparr>"])
    (simp_all add: routed_manager_def dec_digit_def)

end
