(* ===== verification/Http_Server.thy ===== *)
theory Http_Server
  imports Sub_Process
begin

text \<open>
  \<^verbatim>\<open>src/http/server.rs\<close>: the subscription server, from the request to the response, and the
  rendering of the published links. The base64 encoders, the JSON printer and the URL builder are
  library code: they are the fields of \<open>http_env\<close>, beside the parser's \<open>parse_env\<close> for the base64
  decoder. A header map is a map from lower-case header names to values. The accept loop of
  \<^verbatim>\<open>run\<close> and the HTTP codec are not modelled; a request is given by its path and headers.

  The lemmas show who is let in, that a response depends on nothing but the outputs the user may
  see, and that query strings decode back to the pairs they were built from.
\<close>

unbundle bit_operations_syntax

subsection \<open>Definitions: rendering links\<close>

record http_env =
  he_parse :: parse_env
  he_regex :: regex_engine
  he_b64_encode :: "string \<Rightarrow> string" \<comment> \<open>the engine STANDARD\<close>
  he_b64_url_encode :: "string \<Rightarrow> string" \<comment> \<open>the engine URL_SAFE_NO_PAD\<close>
  he_json_to_string :: "json \<Rightarrow> string"
  he_url_build :: "string \<Rightarrow> (string \<times> string) list \<Rightarrow> string option \<Rightarrow> string option"
    \<comment> \<open>base, appended pairs, fragment; nothing if the base is no URL\<close>

definition unreserved :: "char \<Rightarrow> bool" where
  "unreserved c \<longleftrightarrow>
     (let n = of_char c :: nat in
      48 \<le> n \<and> n \<le> 57 \<or> 65 \<le> n \<and> n \<le> 90 \<or> 97 \<le> n \<and> n \<le> 122)
     \<or> c = CHR ''-'' \<or> c = CHR ''.'' \<or> c = CHR ''_'' \<or> c = CHR ''~''"

definition HEX :: string where
  "HEX = ''0123456789ABCDEF''"

definition percent_byte :: "char \<Rightarrow> string" where
  "percent_byte c =
     (if unreserved c then [c]
      else let b = word_of_nat (of_char c) :: u8 in
        [CHR ''%'', HEX ! unat (drop_bit 4 b), HEX ! unat (b AND 0x0F)])"

definition percent_encode_query_component :: "string \<Rightarrow> string" where
  "percent_encode_query_component v = concat (map percent_byte v)"

definition push_query_pair :: "string \<Rightarrow> string \<Rightarrow> string \<Rightarrow> string" where
  "push_query_pair query key v =
     (if query = [] then [] else query @ ''&'')
     @ percent_encode_query_component key @ ''='' @ percent_encode_query_component v"

fun shadowrocket_udp :: "packet_encoding \<Rightarrow> string" where
  "shadowrocket_udp PacketDefault = ''1''"
| "shadowrocket_udp PacketAddr = ''2''"
| "shadowrocket_udp Xudp = ''3''"

definition format_url_host :: "string \<Rightarrow> string" where
  "format_url_host host =
     (let trimmed = or_default (and_then (strip_prefix host ''['') (\<lambda>h. strip_suffix h '']'')) host in
      if parse_ipv6 trimmed \<noteq> None then ''['' @ trimmed @ '']'' else host)"

definition vmess_json :: "vmess_node \<Rightarrow> output_config \<Rightarrow> relay_network \<Rightarrow> string \<Rightarrow> json" where
  "vmess_json node output network service =
     (let is_grpc = (network = RelayGrpc);
          sni = (if is_grpc then or_default (oc_sni output) '''' else '''') in
      JObj ([(''v'', JStr ''2''), (''ps'', JStr (n_name node)), (''add'', JStr (oc_host output)),
             (''port'', JStr (show_nat (oc_port output))), (''id'', JStr (n_uuid node)),
             (''aid'', JStr (show_nat (n_alter_id node))),
             (''net'', JStr (if is_grpc then ''grpc'' else ''tcp'')), (''type'', JStr ''none''),
             (''host'', JStr ''''), (''path'', JStr (if is_grpc then service else '''')),
             (''tls'', JStr (if is_grpc then ''tls'' else '''')), (''sni'', JStr sni),
             (''scy'', JStr (n_security node))]
            @ (if is_grpc \<and> oc_skip_cert_verify output then [(''insecure'', JStr ''1'')] else [])))"

definition build_vmess_json_link :: "http_env \<Rightarrow> vmess_node \<Rightarrow> output_config \<Rightarrow> relay_network \<Rightarrow> string \<Rightarrow> string" where
  "build_vmess_json_link env node output network service =
     ''vmess://'' @ he_b64_encode env (he_json_to_string env (vmess_json node output network service))"

definition url_link_pairs :: "vmess_node \<Rightarrow> output_config \<Rightarrow> relay_network \<Rightarrow> string \<Rightarrow> (string \<times> string) list" where
  "url_link_pairs node output network service =
     (if network = RelayGrpc then [(''type'', ''grpc''), (''serviceName'', service)] else [(''type'', ''tcp'')])
     @ [(''security'', if network = RelayGrpc then ''tls'' else ''none'')]
     @ (if network = RelayGrpc then (case oc_sni output of Some sni \<Rightarrow> [(''sni'', sni)] | None \<Rightarrow> []) else [])
     @ [(''encryption'', n_security node)]"

definition build_vmess_url_link :: "http_env \<Rightarrow> vmess_node \<Rightarrow> output_config \<Rightarrow> relay_network \<Rightarrow> string \<Rightarrow> string result" where
  "build_vmess_url_link env node output network service =
     (let base = ''vmess://'' @ n_uuid node @ ''@'' @ format_url_host (oc_host output) @ '':'' @ show_nat (oc_port output) in
      ok_or (he_url_build env base (url_link_pairs node output network service)
               (if n_name node = [] then None else Some (n_name node)))
        (Panic ''vmess URL is always valid''))"

definition shadowrocket_pairs :: "vmess_node \<Rightarrow> output_config \<Rightarrow> relay_network \<Rightarrow> string \<Rightarrow> (string \<times> string) list" where
  "shadowrocket_pairs node output network service =
     (let is_grpc = (network = RelayGrpc) in
      (if is_grpc then [(''path'', service)] else [])
      @ (if n_name node = [] then [] else [(''remarks'', n_name node)])
      @ (if is_grpc then [(''obfs'', ''grpc''), (''tls'', ''1'')]
           @ (case oc_sni output of Some sni \<Rightarrow> [(''obfsParam'', sni), (''peer'', sni)] | None \<Rightarrow> [])
         else [(''obfs'', ''tcp''), (''tls'', ''0'')])
      @ [(''udp'', shadowrocket_udp (n_packet_encoding node)), (''alterId'', show_nat (n_alter_id node))])"

definition push_query_pairs :: "(string \<times> string) list \<Rightarrow> string" where
  "push_query_pairs ps = foldl (\<lambda>q kv. push_query_pair q (fst kv) (snd kv)) [] ps"

definition shadowrocket_authority :: "vmess_node \<Rightarrow> output_config \<Rightarrow> string" where
  "shadowrocket_authority node output =
     n_uuid node @ ''@'' @ format_url_host (oc_host output) @ '':'' @ show_nat (oc_port output)"

definition build_shadowrocket_link :: "http_env \<Rightarrow> vmess_node \<Rightarrow> output_config \<Rightarrow> relay_network \<Rightarrow> string \<Rightarrow> string" where
  "build_shadowrocket_link env node output network service =
     ''vmess://'' @ he_b64_url_encode env (n_security node @ '':'' @ shadowrocket_authority node output)
     @ ''?'' @ push_query_pairs (shadowrocket_pairs node output network service)"

subsection \<open>Definitions: state\<close>

record rendered_output =
  ro_output_name :: string
  v2rayn_links :: "string list"
  standard_links :: "string list"
  shadowrocket_links :: "string list"

record http_state =
  hs_users :: "http_user list"
  hs_outputs :: "rendered_output list"

definition render_output :: "http_env \<Rightarrow> output_config \<Rightarrow> vmess_node list \<Rightarrow> relay_network \<Rightarrow> string
    \<Rightarrow> rendered_output result" where
  "render_output env output nodes network service =
     (let processed = apply_pipeline (he_regex env) nodes (oc_process output) in
      bind_result (map_result (\<lambda>n. build_vmess_url_link env n output network service) processed) (\<lambda>std.
      Inr \<lparr>ro_output_name = oc_name output,
           v2rayn_links = map (\<lambda>n. build_vmess_json_link env n output network service) processed,
           standard_links = std,
           shadowrocket_links = map (\<lambda>n. build_shadowrocket_link env n output network service) processed\<rparr>))"

definition http_state_new :: "http_env \<Rightarrow> http_user list \<Rightarrow> output_config list \<Rightarrow> vmess_node list
    \<Rightarrow> relay_network \<Rightarrow> string \<Rightarrow> http_state result" where
  "http_state_new env us outs nodes network service =
     bind_result (map_result (\<lambda>o'. render_output env o' nodes network service) outs) (\<lambda>rendered.
     Inr \<lparr>hs_users = us, hs_outputs = rendered\<rparr>)"

subsection \<open>Definitions: requests\<close>

type_synonym headers = "string \<rightharpoonup> string"

record request =
  rq_path :: string
  rq_headers :: headers

record response =
  rs_status :: nat
  rs_headers :: "(string \<times> string) list"
  rs_body :: string

datatype link_format = V2rayN | Standard | Shadowrocket
datatype requested_format = Auto | Explicit link_format
datatype route_target = AllOutputs requested_format | NamedOutput string requested_format | NotFound

text \<open>\<^verbatim>\<open>HeaderValue::to_str\<close>: visible ASCII and tabs only.\<close>

definition header_to_str :: "string \<Rightarrow> string option" where
  "header_to_str v =
     (if list_all (\<lambda>c. (32 \<le> (of_char c :: nat) \<and> of_char c < (127 :: nat)) \<or> of_char c = (9 :: nat)) v
      then Some v else None)"

definition link_format_for_user_agent :: "headers \<Rightarrow> link_format" where
  "link_format_for_user_agent h =
     (case h ''user-agent'' of
        None \<Rightarrow> V2rayN
      | Some v \<Rightarrow>
          (case header_to_str v of
             None \<Rightarrow> V2rayN
           | Some ua \<Rightarrow> if contains_str (to_ascii_lowercase ua) ''shadowrocket'' then Shadowrocket else V2rayN))"

fun resolve :: "requested_format \<Rightarrow> headers \<Rightarrow> link_format" where
  "resolve Auto h = link_format_for_user_agent h"
| "resolve (Explicit f) h = f"

definition format_of_segment :: "string \<Rightarrow> link_format option" where
  "format_of_segment s =
     (if s = ''base64'' \<or> s = ''v2rayn'' then Some V2rayN
      else if s = ''standard'' \<or> s = ''url'' then Some Standard
      else if s = ''shadowrocket'' then Some Shadowrocket
      else None)"

definition route_parts :: "string list \<Rightarrow> route_target" where
  "route_parts parts =
     (case parts of
        [a] \<Rightarrow> if a = ''sub'' then AllOutputs Auto else NotFound
      | [a, b] \<Rightarrow>
          if a = ''sub'' then
            (case format_of_segment b of Some f \<Rightarrow> AllOutputs (Explicit f) | None \<Rightarrow> NamedOutput b Auto)
          else NotFound
      | [a, name, b] \<Rightarrow>
          if a = ''sub'' then
            (case format_of_segment b of Some f \<Rightarrow> NamedOutput name (Explicit f) | None \<Rightarrow> NotFound)
          else NotFound
      | _ \<Rightarrow> NotFound)"

definition route :: "string \<Rightarrow> route_target" where
  "route path = route_parts (filter (\<lambda>s. s \<noteq> []) (split_char CHR ''/'' path))"

definition extract_basic_auth :: "parse_env \<Rightarrow> headers \<Rightarrow> (string \<times> string) option" where
  "extract_basic_auth env h =
     and_then (h ''authorization'') (\<lambda>header.
     and_then (header_to_str header) (\<lambda>v.
     and_then (strip_prefix v ''Basic '') (\<lambda>encoded.
     and_then (b64_standard env encoded) (\<lambda>decoded.
     and_then (from_utf8 decoded) (\<lambda>s.
     split_once s CHR '':'')))))"

definition anon :: http_user where
  "anon = \<lparr>username = '''', password = '''', user_outputs = None\<rparr>"

fun match_user :: "string \<Rightarrow> string \<Rightarrow> http_user list \<Rightarrow> http_user option \<Rightarrow> http_user option" where
  "match_user u p [] matched = matched"
| "match_user u p (x # xs) matched =
     match_user u p xs
       (if as_bytes u = as_bytes (username x) \<and> as_bytes p = as_bytes (password x) \<and> matched = None
        then Some x else matched)"

definition authenticate :: "parse_env \<Rightarrow> headers \<Rightarrow> http_user list \<Rightarrow> http_user option" where
  "authenticate env h us =
     (if us = [] then Some anon
      else and_then (extract_basic_auth env h) (\<lambda>up. match_user (fst up) (snd up) us None))"

definition output_allowed :: "http_user \<Rightarrow> string option \<Rightarrow> rendered_output \<Rightarrow> bool" where
  "output_allowed user output_name out =
     (if (case output_name of Some name \<Rightarrow> ro_output_name out \<noteq> name | None \<Rightarrow> False) then False
      else case user_outputs user of
             Some allowed \<Rightarrow> list_ex (\<lambda>n. n = ro_output_name out) allowed
           | None \<Rightarrow> True)"

fun links_of :: "link_format \<Rightarrow> rendered_output \<Rightarrow> string list" where
  "links_of V2rayN out = v2rayn_links out"
| "links_of Standard out = standard_links out"
| "links_of Shadowrocket out = shadowrocket_links out"

definition build_subscription_response :: "http_env \<Rightarrow> http_state \<Rightarrow> http_user \<Rightarrow> string option \<Rightarrow> link_format
    \<Rightarrow> response" where
  "build_subscription_response env st user output_name fmt =
     (let allowed = filter (output_allowed user output_name) (hs_outputs st) in
      if allowed = [] then \<lparr>rs_status = 404, rs_headers = [], rs_body = ''no matching outputs''\<rparr>
      else
        let links = concat (map (links_of fmt) allowed);
            content = join [newline] links;
            body = (case fmt of Standard \<Rightarrow> content | _ \<Rightarrow> he_b64_encode env content)
        in \<lparr>rs_status = 200,
             rs_headers = [(''Content-Type'', ''text/plain; charset=utf-8''),
               (''Subscription-Userinfo'', ''upload=0; download=0; total=0; expire=0'')],
             rs_body = body\<rparr>)"

definition dispatch :: "http_env \<Rightarrow> http_state \<Rightarrow> request \<Rightarrow> response" where
  "dispatch env st req =
     (case authenticate (he_parse env) (rq_headers req) (hs_users st) of
        None \<Rightarrow>
          \<lparr>rs_status = 401,
           rs_headers = [(''WWW-Authenticate'', ''Basic realm=\"Subscription\"''), (''Content-Type'', ''text/plain'')],
           rs_body = ''Unauthorized''\<rparr>
      | Some user \<Rightarrow>
          (case route (rq_path req) of
             AllOutputs fmt \<Rightarrow> build_subscription_response env st user None (resolve fmt (rq_headers req))
           | NamedOutput name fmt \<Rightarrow>
               build_subscription_response env st user (Some name) (resolve fmt (rq_headers req))
           | NotFound \<Rightarrow> \<lparr>rs_status = 404, rs_headers = [], rs_body = ''Not Found''\<rparr>))"

subsection \<open>Percent encoding\<close>

text \<open>The reader's side of the encoding: what a query parser does with a key or a value.\<close>

fun percent_decode :: "string \<Rightarrow> string" where
  "percent_decode (c # a # b # r) =
     (if c = CHR ''%'' then
        (case (digit_value a, digit_value b) of
           (Some x, Some y) \<Rightarrow> char_of (16 * x + y) # percent_decode r
         | _ \<Rightarrow> c # percent_decode (a # b # r))
      else c # percent_decode (a # b # r))"
| "percent_decode (c # r) = c # percent_decode r"
| "percent_decode [] = []"

definition query_decode :: "string \<Rightarrow> (string \<times> string) list" where
  "query_decode q =
     (if q = [] then []
      else map (\<lambda>p. case split_once p CHR ''='' of
             Some (k, v) \<Rightarrow> (percent_decode k, percent_decode v)
           | None \<Rightarrow> (percent_decode p, [])) (split_char CHR ''&'' q))"

lemma HEX_digit: "n < 16 \<Longrightarrow> digit_value (HEX ! n) = Some n"
proof -
  have "list_all (\<lambda>n. digit_value (HEX ! n) = Some n) [0..<16]" by code_simp
  then show "n < 16 \<Longrightarrow> ?thesis" by (simp add: list_all_iff)
qed

lemma HEX_unreserved: "n < 16 \<Longrightarrow> unreserved (HEX ! n)"
proof -
  have "list_all (\<lambda>n. unreserved (HEX ! n)) [0..<16]" by code_simp
  then show "n < 16 \<Longrightarrow> ?thesis" by (simp add: list_all_iff)
qed

lemma nibbles:
  fixes b :: u8
  shows "unat (drop_bit 4 b) = unat b div 16" and "unat (b AND 0x0F) = unat b mod 16"
proof -
  show "unat (drop_bit 4 b) = unat b div 16" by (simp add: drop_bit_eq_div unat_div_distrib)
  have "b AND 0x0F = take_bit 4 b" by (simp add: take_bit_eq_mask mask_eq_exp_minus_1)
  then show "unat (b AND 0x0F) = unat b mod 16" by (simp add: take_bit_eq_mod unat_mod_distrib)
qed

lemma percent_byte_cases:
  obtains (plain) "unreserved c" "percent_byte c = [c]"
  | (escaped) x y where "\<not> unreserved c" "x < 16" "y < 16" "16 * x + y = (of_char c :: nat)"
      "percent_byte c = [CHR ''%'', HEX ! x, HEX ! y]"
proof (cases "unreserved c")
  case True
  then show thesis using plain by (simp add: percent_byte_def)
next
  case False
  let ?n = "of_char c :: nat"
  have n: "?n < 256" by simp
  have u: "unat (word_of_nat ?n :: u8) = ?n" by (simp add: unat_of_nat)
  show thesis
  proof (rule escaped [of "?n div 16" "?n mod 16"])
    show "?n div 16 < 16" using n by (simp add: less_mult_imp_div_less)
    show "percent_byte c = [CHR ''%'', HEX ! (?n div 16), HEX ! (?n mod 16)]"
      using False by (simp only: percent_byte_def if_False Let_def nibbles u)
  qed (use False in simp_all)
qed

lemma percent_not_unreserved [simp]: "\<not> unreserved CHR ''%''" "\<not> unreserved CHR ''&''" "\<not> unreserved CHR ''=''"
  by (simp_all add: unreserved_def Let_def)

lemma percent_decode_plain: "c \<noteq> CHR ''%'' \<Longrightarrow> percent_decode (c # r) = c # percent_decode r"
  by (cases r rule: percent_decode.cases) auto

lemma percent_decode_encode [codec_simps]:
  "percent_decode (percent_encode_query_component v @ r) = v @ percent_decode r"
proof (induction v)
  case Nil
  then show ?case by (simp add: percent_encode_query_component_def)
next
  case (Cons c v)
  have step: "percent_encode_query_component (c # v) = percent_byte c @ percent_encode_query_component v"
    by (simp add: percent_encode_query_component_def)
  show ?case
  proof (cases c rule: percent_byte_cases)
    case plain
    then have "c \<noteq> CHR ''%''" by auto
    with plain Cons show ?thesis by (simp add: step percent_decode_plain)
  next
    case (escaped x y)
    then show ?thesis using Cons by (simp add: step HEX_digit)
  qed
qed

lemma percent_encode_chars:
  "c \<in> set (percent_encode_query_component v) \<Longrightarrow> unreserved c \<or> c = CHR ''%''"
proof -
  have "c \<in> set (percent_byte x) \<Longrightarrow> unreserved c \<or> c = CHR ''%''" for x
    by (cases x rule: percent_byte_cases) (auto dest: HEX_unreserved)
  then show "c \<in> set (percent_encode_query_component v) \<Longrightarrow> ?thesis"
    by (auto simp: percent_encode_query_component_def)
qed

lemma percent_encode_no_delim:
  "CHR ''&'' \<notin> set (percent_encode_query_component v)" "CHR ''='' \<notin> set (percent_encode_query_component v)"
  using percent_encode_chars by fastforce+

subsection \<open>Query strings\<close>

lemma split_char_none: "d \<notin> set s \<Longrightarrow> split_char d s = [s]"
  by (induction s) auto

lemma split_char_nonempty: "split_char d s \<noteq> []"
  by (induction s) (auto split: list.splits)

lemma split_char_snoc: "d \<notin> set b \<Longrightarrow> split_char d (a @ d # b) = split_char d a @ [b]"
proof (induction a)
  case Nil
  then show ?case by (simp add: split_char_none)
next
  case (Cons x a)
  then show ?case using split_char_nonempty [of d a] by (auto split: list.splits)
qed

definition query_piece :: "string \<times> string \<Rightarrow> string" where
  "query_piece kv = percent_encode_query_component (fst kv) @ ''='' @ percent_encode_query_component (snd kv)"

lemma query_piece_no_amp: "CHR ''&'' \<notin> set (query_piece kv)"
  using percent_encode_no_delim(1) by (auto simp: query_piece_def)

lemma query_piece_nonempty [simp]: "query_piece kv \<noteq> []"
  by (simp add: query_piece_def)

lemma query_piece_decode:
  "(case split_once (query_piece kv) CHR ''='' of
      Some (k, v) \<Rightarrow> (percent_decode k, percent_decode v) | None \<Rightarrow> (percent_decode (query_piece kv), [])) = kv"
proof -
  have "split_once (query_piece kv) CHR ''=''
      = Some (percent_encode_query_component (fst kv), percent_encode_query_component (snd kv))"
    unfolding query_piece_def using split_once_append [OF percent_encode_no_delim(2)] by simp
  then show ?thesis using percent_decode_encode [where r = "[]"] by simp
qed

lemma push_query_pairs_snoc:
  "push_query_pairs (ps @ [kv])
     = (if push_query_pairs ps = [] then query_piece kv else push_query_pairs ps @ CHR ''&'' # query_piece kv)"
  by (simp add: push_query_pairs_def push_query_pair_def query_piece_def)

lemma push_query_pairs_nonempty: "push_query_pairs ps = [] \<longleftrightarrow> ps = []"
proof (cases ps rule: rev_cases)
  case Nil
  then show ?thesis by (simp add: push_query_pairs_def)
next
  case (snoc qs kv)
  then show ?thesis by (simp add: push_query_pairs_snoc)
qed

lemma query_decode_pairs: "query_decode (push_query_pairs ps) = ps"
proof (induction ps rule: rev_induct)
  case Nil
  then show ?case by (simp add: query_decode_def push_query_pairs_def)
next
  case (snoc kv ps)
  show ?case
  proof (cases "ps = []")
    case True
    then show ?thesis
      using query_piece_decode [of kv] push_query_pairs_nonempty [of "[]"]
      by (simp add: push_query_pairs_snoc [of "[]", simplified] query_decode_def split_char_none [OF query_piece_no_amp])
  next
    case False
    with snoc query_piece_decode [of kv] push_query_pairs_nonempty [of ps] show ?thesis
      by (simp add: push_query_pairs_snoc query_decode_def split_char_snoc [OF query_piece_no_amp])
  qed
qed

text \<open>A query string consists of unreserved characters, escapes and the two delimiters only.\<close>

lemma push_query_pairs_chars:
  "c \<in> set (push_query_pairs ps) \<Longrightarrow> unreserved c \<or> c = CHR ''%'' \<or> c = CHR ''&'' \<or> c = CHR ''=''"
proof (induction ps rule: rev_induct)
  case Nil
  then show ?case by (simp add: push_query_pairs_def)
next
  case (snoc kv ps)
  have "c \<in> set (query_piece kv) \<Longrightarrow> ?case" by (auto simp: query_piece_def dest: percent_encode_chars)
  with snoc show ?case by (auto simp: push_query_pairs_snoc split: if_splits)
qed

subsection \<open>Who is let in\<close>

lemma match_user_find:
  "match_user u p us m = (case m of Some x \<Rightarrow> Some x
     | None \<Rightarrow> List.find (\<lambda>x. username x = u \<and> password x = p) us)"
  by (induction us arbitrary: m) (auto split: option.splits)

lemma find_SomeD: "List.find P xs = Some x \<Longrightarrow> P x \<and> x \<in> set xs"
  by (auto simp: find_Some_iff)

lemma authenticate_eq:
  "authenticate env h us = (if us = [] then Some anon
     else case extract_basic_auth env h of None \<Rightarrow> None
       | Some (u, p) \<Rightarrow> List.find (\<lambda>x. username x = u \<and> password x = p) us)"
  by (simp add: authenticate_def and_then_def match_user_find split: option.splits)

lemma output_allowed_named:
  "output_allowed user nm out \<longleftrightarrow>
     (case nm of None \<Rightarrow> True | Some name \<Rightarrow> ro_output_name out = name)
     \<and> (case user_outputs user of None \<Rightarrow> True | Some ns \<Rightarrow> ro_output_name out \<in> set ns)"
  by (auto simp: output_allowed_def list_ex_iff split: option.splits)

lemma output_allowed_mono: "output_allowed user nm out \<Longrightarrow> output_allowed user None out"
  by (simp add: output_allowed_named)

lemma filter_allowed_named:
  "filter (output_allowed user nm) outs
     = filter (\<lambda>out. case nm of None \<Rightarrow> True | Some name \<Rightarrow> ro_output_name out = name)
         (filter (output_allowed user None) outs)"
  by (induction outs) (auto simp: output_allowed_named split: option.splits)

text \<open>
  C22 (login_required). With users configured, only a request whose basic credentials are those of a
  configured user is let in, as the first user with these credentials; every other request is
  answered 401 with a body that does not depend on the outputs. Without users everybody is let in.
\<close>

theorem login_required:
  "(if hs_users st = [] then rs_status (dispatch env st req) \<noteq> 401
    else case extract_basic_auth (he_parse env) (rq_headers req) of
      None \<Rightarrow> rs_status (dispatch env st req) = 401 \<and> rs_body (dispatch env st req) = ''Unauthorized''
    | Some (u, p) \<Rightarrow>
        (case List.find (\<lambda>x. username x = u \<and> password x = p) (hs_users st) of
           None \<Rightarrow> rs_status (dispatch env st req) = 401 \<and> rs_body (dispatch env st req) = ''Unauthorized''
         | Some user \<Rightarrow> username user = u \<and> password user = p \<and> user \<in> set (hs_users st)
             \<and> authenticate (he_parse env) (rq_headers req) (hs_users st) = Some user
             \<and> rs_status (dispatch env st req) \<noteq> 401))"
proof -
  have ok: "rs_status (build_subscription_response env st user nm fmt) \<noteq> 401" for user nm fmt
    by (simp add: build_subscription_response_def Let_def)
  have let_in: "authenticate (he_parse env) (rq_headers req) (hs_users st) = Some user \<Longrightarrow>
      rs_status (dispatch env st req) \<noteq> 401" for user
    using ok by (simp add: dispatch_def split: route_target.splits)
  show ?thesis
  proof (cases "hs_users st = []")
    case True
    then show ?thesis using let_in [of anon] by (simp add: authenticate_eq)
  next
    case False
    note us = this
    show ?thesis
    proof (cases "extract_basic_auth (he_parse env) (rq_headers req)")
      case None
      with us show ?thesis by (simp add: authenticate_eq dispatch_def)
    next
      case (Some up)
      show ?thesis
      proof (cases "List.find (\<lambda>x. username x = fst up \<and> password x = snd up) (hs_users st)")
        case None
        with us Some show ?thesis by (cases up) (simp add: authenticate_eq dispatch_def)
      next
        fix user
        assume f: "List.find (\<lambda>x. username x = fst up \<and> password x = snd up) (hs_users st) = Some user"
        then have "authenticate (he_parse env) (rq_headers req) (hs_users st) = Some user"
          using us Some by (cases up) (simp add: authenticate_eq)
        then show ?thesis using us Some f let_in [of user] find_SomeD [OF f] by (cases up) simp
      qed
    qed
  qed
qed

text \<open>
  The specification: who sends a request, the first user with the credentials of the request, or anybody
  if no users are configured; and the outputs listed for a user, all of them if there is no list.
\<close>

definition sent_by :: "http_env \<Rightarrow> http_state \<Rightarrow> request \<Rightarrow> http_user \<Rightarrow> bool" where
  "sent_by env st req user \<longleftrightarrow>
     (if hs_users st = [] then user_outputs user = None
      else \<exists>u p. extract_basic_auth (he_parse env) (rq_headers req) = Some (u, p)
             \<and> List.find (\<lambda>x. username x = u \<and> password x = p) (hs_users st) = Some user)"

definition listed_outputs :: "http_user \<Rightarrow> http_state \<Rightarrow> rendered_output list" where
  "listed_outputs user st =
     (case user_outputs user of None \<Rightarrow> hs_outputs st | Some ns \<Rightarrow> filter (\<lambda>out. ro_output_name out \<in> set ns) (hs_outputs st))"

lemma listed_outputs_allowed: "listed_outputs user st = filter (output_allowed user None) (hs_outputs st)"
proof (cases "user_outputs user")
  case None
  then have "filter (output_allowed user None) (hs_outputs st) = hs_outputs st"
    by (intro filter_True) (simp add: output_allowed_named)
  with None show ?thesis by (simp add: listed_outputs_def)
next
  case (Some ns)
  then show ?thesis unfolding listed_outputs_def by (auto simp: output_allowed_named intro: filter_cong)
qed

lemma authenticated_sent_by: "authenticate (he_parse env) (rq_headers req) (hs_users st) = Some user \<Longrightarrow> sent_by env st req user"
  by (auto simp: authenticate_eq sent_by_def anon_def split: if_splits option.splits)

text \<open>
  C19 (response_noninterference). A response depends on the outputs listed for the user who sends the request and
  on no others: two states with the same users, in which the outputs listed for that user are the same,
  give the same response to the request, whatever else they publish.
\<close>

theorem response_noninterference:
  assumes "hs_users st = hs_users st'"
    and "\<And>user. sent_by env st req user \<Longrightarrow> listed_outputs user st = listed_outputs user st'"
  shows "dispatch env st req = dispatch env st' req"
proof (cases "authenticate (he_parse env) (rq_headers req) (hs_users st)")
  case None
  then show ?thesis using assms(1) by (simp add: dispatch_def)
next
  case (Some user)
  have "filter (output_allowed user nm) (hs_outputs st) = filter (output_allowed user nm) (hs_outputs st')" for nm
    using assms(2) [OF authenticated_sent_by [OF Some]]
    by (simp only: filter_allowed_named [of user nm] listed_outputs_allowed)
  then have "build_subscription_response env st user nm fmt = build_subscription_response env st' user nm fmt" for nm fmt
    by (simp add: build_subscription_response_def)
  with Some assms(1) show ?thesis by (simp add: dispatch_def split: route_target.splits)
qed

definition sample_http_env :: http_env where
  "sample_http_env = \<lparr>he_parse = null_env\<lparr>b64_standard := Some\<rparr>, he_regex = literal_regex,
     he_b64_encode = (\<lambda>s. s), he_b64_url_encode = (\<lambda>s. s), he_json_to_string = (\<lambda>_. ''{}''),
     he_url_build = (\<lambda>b ps f. Some b)\<rparr>"

definition sample_output :: "string \<Rightarrow> string \<Rightarrow> rendered_output" where
  "sample_output name link = \<lparr>ro_output_name = name, v2rayn_links = [link], standard_links = [link],
     shadowrocket_links = [link]\<rparr>"

definition sample_user :: http_user where
  "sample_user = \<lparr>username = ''u'', password = ''p'', user_outputs = Some [''a'']\<rparr>"

theorem response_noninterference_witness:
  "dispatch sample_http_env \<lparr>hs_users = [sample_user], hs_outputs = [sample_output ''a'' ''x'', sample_output ''b'' ''y'']\<rparr>
     \<lparr>rq_path = ''/sub'', rq_headers = [''authorization'' \<mapsto> ''Basic u:p'']\<rparr>
   = dispatch sample_http_env \<lparr>hs_users = [sample_user], hs_outputs = [sample_output ''a'' ''x'']\<rparr>
     \<lparr>rq_path = ''/sub'', rq_headers = [''authorization'' \<mapsto> ''Basic u:p'']\<rparr>"
proof (rule response_noninterference)
  fix user
  assume "sent_by sample_http_env
      \<lparr>hs_users = [sample_user], hs_outputs = [sample_output ''a'' ''x'', sample_output ''b'' ''y'']\<rparr>
      \<lparr>rq_path = ''/sub'', rq_headers = [''authorization'' \<mapsto> ''Basic u:p'']\<rparr> user"
  then have "user = sample_user" by (auto simp: sent_by_def split: if_splits)
  then show "listed_outputs user
        \<lparr>hs_users = [sample_user], hs_outputs = [sample_output ''a'' ''x'', sample_output ''b'' ''y'']\<rparr>
      = listed_outputs user \<lparr>hs_users = [sample_user], hs_outputs = [sample_output ''a'' ''x'']\<rparr>"
    by (simp add: listed_outputs_def sample_user_def sample_output_def)
qed simp

text \<open>
  A request that is let in and names the outputs it wants gets the links of
  the allowed outputs of that name, in the order of the configuration, one per line, in the
  requested format: in clear for the standard format and base64-encoded otherwise. When no output
  is both named and allowed the answer is 404, the same as for an output that does not exist.
\<close>

theorem response_content:
  assumes "authenticate (he_parse env) (rq_headers req) (hs_users st) = Some user"
    and "route (rq_path req) = (case nm of None \<Rightarrow> AllOutputs fmt | Some name \<Rightarrow> NamedOutput name fmt)"
  shows "let outs = filter (\<lambda>o'. (case nm of None \<Rightarrow> True | Some name \<Rightarrow> ro_output_name o' = name)
                \<and> (case user_outputs user of None \<Rightarrow> True | Some ns \<Rightarrow> ro_output_name o' \<in> set ns)) (hs_outputs st);
             f = resolve fmt (rq_headers req);
             text = join [newline] (concat (map (links_of f) outs)) in
    (if outs = [] then dispatch env st req = \<lparr>rs_status = 404, rs_headers = [], rs_body = ''no matching outputs''\<rparr>
     else rs_status (dispatch env st req) = 200
       \<and> rs_body (dispatch env st req) = (if f = Standard then text else he_b64_encode env text))"
proof -
  have d: "dispatch env st req = build_subscription_response env st user nm (resolve fmt (rq_headers req))"
    using assms by (cases nm) (simp_all add: dispatch_def)
  have "output_allowed user nm = (\<lambda>o'. (case nm of None \<Rightarrow> True | Some name \<Rightarrow> ro_output_name o' = name)
      \<and> (case user_outputs user of None \<Rightarrow> True | Some ns \<Rightarrow> ro_output_name o' \<in> set ns))"
    by (rule ext) (rule output_allowed_named)
  then show ?thesis unfolding d build_subscription_response_def Let_def
    by (simp split: link_format.split)
qed

theorem response_content_witness:
  "rs_status (dispatch sample_http_env \<lparr>hs_users = [], hs_outputs = [sample_output ''a'' ''x'']\<rparr>
     \<lparr>rq_path = ''/sub/a/url'', rq_headers = Map.empty\<rparr>) = 200
   \<and> rs_body (dispatch sample_http_env \<lparr>hs_users = [], hs_outputs = [sample_output ''a'' ''x'']\<rparr>
     \<lparr>rq_path = ''/sub/a/url'', rq_headers = Map.empty\<rparr>) = ''x''"
proof -
  let ?st = "\<lparr>hs_users = [], hs_outputs = [sample_output ''a'' ''x'']\<rparr> :: http_state"
  let ?req = "\<lparr>rq_path = ''/sub/a/url'', rq_headers = Map.empty\<rparr> :: request"
  have a: "authenticate (he_parse sample_http_env) (rq_headers ?req) (hs_users ?st) = Some anon"
    by (simp add: authenticate_eq)
  have r: "route (rq_path ?req) = (case Some ''a'' of None \<Rightarrow> AllOutputs (Explicit Standard)
      | Some name \<Rightarrow> NamedOutput name (Explicit Standard))"
    by (simp add: route_def route_parts_def format_of_segment_def)
  from response_content [OF a r] show ?thesis
    by (simp add: Let_def anon_def sample_output_def)
qed

subsection \<open>Routes\<close>

lemma route_named:
  "format_of_segment name = None \<Longrightarrow> name \<noteq> [] \<Longrightarrow> CHR ''/'' \<notin> set name \<Longrightarrow>
     route (''/sub/'' @ name) = NamedOutput name Auto"
  by (simp add: route_def split_char_none route_parts_def)

end
