(* ===== verification/Daemon.thy ===== *)
theory Daemon
  imports Grpc_Inbound Sub_Manager Http_Server
begin

text \<open>
  The daemon of \<^verbatim>\<open>src/main.rs\<close>: start-up, the two kinds of reload, the event loop and the filter of the
  file watcher. The state that the tasks share through \<^verbatim>\<open>RwLock\<close>s is the record \<open>daemon\<close>. What
  stays the same for the life of the process (libraries, environment variables) is the record
  \<open>daemon_env\<close>; what a reload finds outside (files, HTTP answers, the iteration order of the pool) is
  the record \<open>reload_input\<close>. Signals, timers and the watcher thread are the sequence of events the
  loop receives; a reload dropped because of a shutdown is not followed further, since the process
  ends. \<^verbatim>\<open>HttpState::new\<close> may panic while a link is built, which ends the process from within the loop.

  The lemmas show that a reload that fails leaves the daemon serving what it served, what a reload
  that succeeds commits, that the listener's settings never change, that the routing table and
  the published links always come from one node list, and how a refresh can end the process.
\<close>

subsection \<open>Definitions: state\<close>

record daemon =
  dm_config :: config
  dm_log_filter :: string
  dm_runtime :: relay_runtime
  dm_http :: http_state

record daemon_env =
  dn_crypto :: crypto
  dn_sub :: sub_env
  dn_http :: http_env
  dn_toml :: "string \<Rightarrow> raw_config result"
  dn_rust_log :: "string option" \<comment> \<open>the filter of the environment variable, if it is one\<close>

record reload_input =
  ri_world :: world
  ri_reads :: "nat \<Rightarrow> string \<Rightarrow> string result" \<comment> \<open>reading a file, at each attempt\<close>
  ri_filter :: "unit result" \<comment> \<open>the answer of the log filter's reload handle\<close>
  ri_snapshot :: "grpc_pool \<Rightarrow> (string \<times> string) set \<Rightarrow> (string \<times> nat) list"
    \<comment> \<open>the stale entries of the pool in the order of its iteration\<close>

definition duration_from_seconds :: "nat \<Rightarrow> nat option" where
  "duration_from_seconds seconds = (if seconds = 0 then None else Some (1000 * seconds))"

definition log_filter :: "daemon_env \<Rightarrow> config \<Rightarrow> string" where
  "log_filter env cfg = or_default (dn_rust_log env) (log_level cfg)"

subsection \<open>Definitions: loading\<close>

record loaded_subscriptions =
  ls_validator :: validator
  ls_nodes :: "vmess_node list"
  ls_grpc_endpoints :: "(string \<times> string) set"

definition load_subscriptions :: "daemon_env \<Rightarrow> world \<Rightarrow> subscription_config \<Rightarrow> loaded_subscriptions result" where
  "load_subscriptions env w cfg =
     (case manager_reload (dn_sub env) w (manager_new cfg) of
        (Inl e, _) \<Rightarrow> Inl e
      | (Inr _, mgr, _) \<Rightarrow>
          bind_result (build_validator (dn_crypto env) (dn_sub env) mgr) (\<lambda>v.
            Inr \<lparr>ls_validator = v, ls_nodes = all_nodes mgr, ls_grpc_endpoints = grpc_endpoints v\<rparr>))"

definition max_attempts :: nat where
  "max_attempts = 6"

fun load_attempts :: "daemon_env \<Rightarrow> (nat \<Rightarrow> string \<Rightarrow> string result) \<Rightarrow> string \<Rightarrow> nat list \<Rightarrow> config result" where
  "load_attempts env reads path [] = Inl (Panic ''unreachable'')"
| "load_attempts env reads path (attempt # attempts) =
     (case load (reads attempt) (dn_toml env) path of
        Inr cfg \<Rightarrow> Inr cfg
      | Inl e \<Rightarrow>
          if e = IoNotFound \<and> attempt < max_attempts then load_attempts env reads path attempts
          else Inl e)"

definition load_config_with_retry :: "daemon_env \<Rightarrow> (nat \<Rightarrow> string \<Rightarrow> string result) \<Rightarrow> string \<Rightarrow> config result" where
  "load_config_with_retry env reads path = load_attempts env reads path [1..<Suc max_attempts]"

definition preserve_running_relay :: "config \<Rightarrow> relay_config \<Rightarrow> config \<times> bool" where
  "preserve_running_relay cfg running =
     (let listener_changed = relay_listen (relay cfg) \<noteq> relay_listen running
            \<or> relay_port (relay cfg) \<noteq> relay_port running
            \<or> relay_network (relay cfg) \<noteq> relay_network running
            \<or> relay_service_name (relay cfg) \<noteq> relay_service_name running in
      if \<not> listener_changed then (cfg, False)
      else (cfg\<lparr>relay := (relay cfg)\<lparr>relay_listen := relay_listen running, relay_port := relay_port running,
                  relay_network := relay_network running, relay_service_name := relay_service_name running\<rparr>\<rparr>, True))"

subsection \<open>Definitions: reloads\<close>

text \<open>The new routing table takes effect, then the pool drops the endpoints it does not name.\<close>

definition install_validator :: "reload_input \<Rightarrow> loaded_subscriptions \<Rightarrow> relay_runtime \<Rightarrow> relay_runtime" where
  "install_validator i ls rt =
     (let p = rt_grpc_pool rt in
      rt\<lparr>rt_validator := ls_validator ls, rt_grpc_pool := prune_stale p (ri_snapshot i p (ls_grpc_endpoints ls))\<rparr>)"

definition http_of :: "daemon_env \<Rightarrow> http_user list \<Rightarrow> config \<Rightarrow> vmess_node list \<Rightarrow> http_state result" where
  "http_of env us cfg nodes =
     http_state_new (dn_http env) us (http_outputs (http cfg)) nodes (relay_network (relay cfg)) (relay_service_name (relay cfg))"

definition reload_full :: "daemon_env \<Rightarrow> string \<Rightarrow> reload_input \<Rightarrow> daemon \<Rightarrow> nat result \<times> daemon" where
  "reload_full env path i d =
     (case bind_result (load_config_with_retry env (ri_reads i) path) (\<lambda>cfg.
             bind_result (load_subscriptions env (ri_world i) (subscription cfg)) (\<lambda>ls. Inr (cfg, ls))) of
        Inl e \<Rightarrow> (Inl e, d)
      | Inr (cfg, ls) \<Rightarrow>
          (let eff = fst (preserve_running_relay cfg (relay (dm_config d)));
               d1 = d\<lparr>dm_config := eff\<rparr>
           in case ri_filter i of
                Inl e \<Rightarrow> (Inl e, d1)
              | Inr _ \<Rightarrow>
                  (let rt1 = set_relay_idle_timeout (dm_runtime d) (duration_from_seconds (relay_idle_timeout (relay eff)));
                       rt2 = rt1\<lparr>rt_grpc_pool := set_idle_timeout (rt_grpc_pool rt1)
                                   (duration_from_seconds (grpc_pool_idle_timeout (relay eff)))\<rparr>;
                       d2 = d1\<lparr>dm_log_filter := log_filter env eff, dm_runtime := install_validator i ls rt2\<rparr>
                   in case http_of env (http_users (http eff)) eff (ls_nodes ls) of
                        Inl e \<Rightarrow> (Inl e, d2)
                      | Inr hs \<Rightarrow> (Inr (length (ls_nodes ls)), d2\<lparr>dm_http := hs\<rparr>))))"

definition reload_subs :: "daemon_env \<Rightarrow> reload_input \<Rightarrow> daemon \<Rightarrow> nat result \<times> daemon" where
  "reload_subs env i d =
     (case load_subscriptions env (ri_world i) (subscription (dm_config d)) of
        Inl e \<Rightarrow> (Inl e, d)
      | Inr ls \<Rightarrow>
          (let d1 = d\<lparr>dm_runtime := install_validator i ls (dm_runtime d)\<rparr>
           in case http_of env (hs_users (dm_http d)) (dm_config d) (ls_nodes ls) of
                Inl e \<Rightarrow> (Inl e, d1)
              | Inr hs \<Rightarrow> (Inr (length (ls_nodes ls)), d1\<lparr>dm_http := hs\<rparr>)))"

subsection \<open>Definitions: the event loop\<close>

text \<open>A reload is dropped when the shutdown signal comes first.\<close>

datatype daemon_event =
    Shutdown
  | FullReload reload_input bool
  | SubsReload reload_input bool

datatype process = Running daemon | Exited | Crashed string

definition loop_step :: "daemon_env \<Rightarrow> string \<Rightarrow> daemon_event \<Rightarrow> daemon \<Rightarrow> process" where
  "loop_step env path ev d =
     (let finish = (\<lambda>r. case fst r of Inl (Panic m) \<Rightarrow> Crashed m | _ \<Rightarrow> Running (snd r)) in
      case ev of
        Shutdown \<Rightarrow> Exited
      | FullReload i dropped \<Rightarrow> if dropped then Exited else finish (reload_full env path i d)
      | SubsReload i dropped \<Rightarrow> if dropped then Exited else finish (reload_subs env i d))"

fun main_loop :: "daemon_env \<Rightarrow> string \<Rightarrow> daemon_event list \<Rightarrow> daemon \<Rightarrow> process" where
  "main_loop env path [] d = Running d"
| "main_loop env path (ev # evs) d =
     (case loop_step env path ev d of Running d' \<Rightarrow> main_loop env path evs d' | stopped \<Rightarrow> stopped)"

subsection \<open>Definitions: start-up\<close>

datatype inbound_kind = TcpInbound | GrpcInbound string

definition from_config :: "relay_config \<Rightarrow> inbound_kind" where
  "from_config cfg =
     (case relay_network cfg of RelayTcp \<Rightarrow> TcpInbound | RelayGrpc \<Rightarrow> GrpcInbound (relay_service_name cfg))"

definition build_state :: "daemon_env \<Rightarrow> world \<Rightarrow> config \<Rightarrow> (validator \<times> http_state) result" where
  "build_state env w cfg =
     bind_result (load_subscriptions env w (subscription cfg)) (\<lambda>ls.
     bind_result (http_of env (http_users (http cfg)) cfg (ls_nodes ls)) (\<lambda>hs. Inr (ls_validator ls, hs)))"

record started =
  st_daemon :: daemon
  st_inbound :: inbound_kind
  st_relay_addr :: socket_addr
  st_http_addr :: socket_addr
  st_timer :: "nat option" \<comment> \<open>the period of the subscription timer in milliseconds\<close>

definition spawn_subscription_timer :: "config \<Rightarrow> nat option" where
  "spawn_subscription_timer cfg = duration_from_seconds (update_interval (subscription cfg))"

definition main :: "daemon_env \<Rightarrow> (string \<Rightarrow> string result) \<Rightarrow> world \<Rightarrow> unit result \<Rightarrow> string \<Rightarrow> started result" where
  "main env reads w tls_config path =
     bind_result (load reads (dn_toml env) path) (\<lambda>cfg.
     bind_result (build_state env w cfg) (\<lambda>st.
     bind_result tls_config (\<lambda>_.
     bind_result (ok_or (parse_socket_addr (relay_listen (relay cfg) @ '':'' @ show_nat (relay_port (relay cfg)))) AddrParseError) (\<lambda>relay_addr.
     bind_result (ok_or (parse_socket_addr (http_listen (http cfg) @ '':'' @ show_nat (http_port (http cfg)))) AddrParseError) (\<lambda>http_addr.
     Inr \<lparr>st_daemon = \<lparr>dm_config = cfg, dm_log_filter = log_filter env cfg,
            dm_runtime = relay_runtime_new (fst st)
              (grpc_pool_new (duration_from_seconds (grpc_pool_idle_timeout (relay cfg))))
              (duration_from_seconds (relay_idle_timeout (relay cfg))),
            dm_http = snd st\<rparr>,
          st_inbound = from_config (relay cfg), st_relay_addr = relay_addr, st_http_addr = http_addr,
          st_timer = spawn_subscription_timer cfg\<rparr>)))))"

subsection \<open>Definitions: the file watcher\<close>

datatype event_kind = EvModify | EvCreate | EvRemove | EvAny | EvAccess | EvOther

definition watch_target :: "string option \<Rightarrow> string \<Rightarrow> string" where
  "watch_target cwd path =
     (if is_absolute path then path
      else case cwd of Some dir \<Rightarrow> path_join dir path | None \<Rightarrow> path)"

definition watch_dir :: "string \<Rightarrow> string" where
  "watch_dir target = or_default (path_parent target) ''.''"

text \<open>\<^verbatim>\<open>PathBuf\<close>s are equal when their components are: empty and inner dot components do not count.\<close>

definition path_components :: "string \<Rightarrow> string list" where
  "path_components p =
     (let cs = filter (\<lambda>c. c \<noteq> []) (split_char CHR ''/'' p) in
      if is_absolute p then ''/'' # filter (\<lambda>c. c \<noteq> ''.'') cs
      else case cs of [] \<Rightarrow> [] | c # r \<Rightarrow> c # filter (\<lambda>c. c \<noteq> ''.'') r)"

definition triggers_reload :: "string \<Rightarrow> event_kind \<Rightarrow> string list \<Rightarrow> bool" where
  "triggers_reload target kind paths \<longleftrightarrow>
     list_ex (\<lambda>p. path_components (if is_absolute p then p else path_join (watch_dir target) p) = path_components target) paths
     \<and> kind \<in> {EvModify, EvCreate, EvRemove, EvAny}"

datatype watch_input = WatchEvent event_kind "string list" | WatchError | WatchTimeout bool | WatchClosed

text \<open>The number of reloads the watcher requests until it stops.\<close>

fun watch_loop :: "string \<Rightarrow> watch_input list \<Rightarrow> nat" where
  "watch_loop target [] = 0"
| "watch_loop target (ev # evs) =
     (case ev of
        WatchEvent kind paths \<Rightarrow> (if triggers_reload target kind paths then 1 else 0) + watch_loop target evs
      | WatchError \<Rightarrow> watch_loop target evs
      | WatchTimeout quit \<Rightarrow> if quit then 0 else watch_loop target evs
      | WatchClosed \<Rightarrow> 0)"

text \<open>The thread, given whether the watcher can be made and whether it can watch the directory.\<close>

definition watch_file :: "string option \<Rightarrow> unit result \<Rightarrow> (string \<Rightarrow> unit result) \<Rightarrow> string \<Rightarrow> watch_input list \<Rightarrow> nat" where
  "watch_file cwd new watch path evs =
     (let target = watch_target cwd path in
      case new of
        Inl _ \<Rightarrow> 0
      | Inr _ \<Rightarrow> (case watch (watch_dir target) of Inl _ \<Rightarrow> 0 | Inr _ \<Rightarrow> watch_loop target evs))"

subsection \<open>The configuration file\<close>

text \<open>The watcher asks for one reload per event that touches the file, until it is told to stop.\<close>

lemma watch_loop_requests:
  "watch_loop target evs
   = length (filter (\<lambda>ev. case ev of WatchEvent kind paths \<Rightarrow> triggers_reload target kind paths | _ \<Rightarrow> False)
       (takeWhile (\<lambda>ev. ev \<noteq> WatchTimeout True \<and> ev \<noteq> WatchClosed) evs))"
proof (induction evs)
  case (Cons ev evs)
  then show ?case by (cases ev) auto
qed simp

lemma load_attempts_outcome:
  "m < max_attempts \<Longrightarrow> \<exists>k. m < k \<and> k \<le> max_attempts
     \<and> load_attempts env reads path [Suc m..<Suc max_attempts] = load (reads k) (dn_toml env) path
     \<and> (\<forall>j. m < j \<and> j < k \<longrightarrow> load (reads j) (dn_toml env) path = Inl IoNotFound)
     \<and> (k = max_attempts \<or> load (reads k) (dn_toml env) path \<noteq> Inl IoNotFound)"
proof (induction "max_attempts - m" arbitrary: m)
  case (Suc n)
  let ?l = "load (reads (Suc m)) (dn_toml env) path"
  have upt: "[Suc m..<Suc max_attempts] = Suc m # [Suc (Suc m)..<Suc max_attempts]"
    using Suc.prems by (simp add: upt_conv_Cons del: upt_Suc)
  show ?case
  proof (cases "?l = Inl IoNotFound \<and> Suc m < max_attempts")
    case True
    have "n = max_attempts - Suc m" using Suc.hyps(2) by linarith
    from Suc.hyps(1) [OF this] True obtain k where k: "Suc m < k" "k \<le> max_attempts"
        "load_attempts env reads path [Suc (Suc m)..<Suc max_attempts] = load (reads k) (dn_toml env) path"
        "\<forall>j. Suc m < j \<and> j < k \<longrightarrow> load (reads j) (dn_toml env) path = Inl IoNotFound"
        "k = max_attempts \<or> load (reads k) (dn_toml env) path \<noteq> Inl IoNotFound"
      by blast
    then have "\<forall>j. m < j \<and> j < k \<longrightarrow> load (reads j) (dn_toml env) path = Inl IoNotFound"
      using True by (metis Suc_lessI)
    with k True show ?thesis unfolding upt by (intro exI [of _ k]) simp
  next
    case False
    then have "load_attempts env reads path [Suc m..<Suc max_attempts] = ?l"
      unfolding upt by (auto split: sum.split)
    with False Suc.prems show ?thesis by (intro exI [of _ "Suc m"]) auto
  qed
qed simp

text \<open>
  A reload gets the outcome of reading the configuration file at one of at
  most six attempts: the first one that finds a file, or the sixth. Every attempt before it found
  no file, so a file that is replaced by removing it first is not taken for an error.
\<close>

theorem config_load_retried:
  "\<exists>k. 1 \<le> k \<and> k \<le> 6
     \<and> load_config_with_retry env reads path = load (reads k) (dn_toml env) path
     \<and> list_all (\<lambda>j. load (reads j) (dn_toml env) path = Inl IoNotFound) [1..<k]
     \<and> (if k = 6 then True else load (reads k) (dn_toml env) path \<noteq> Inl IoNotFound)"
proof -
  obtain k where "0 < k" "k \<le> max_attempts"
      "load_config_with_retry env reads path = load (reads k) (dn_toml env) path"
      "\<forall>j. 0 < j \<and> j < k \<longrightarrow> load (reads j) (dn_toml env) path = Inl IoNotFound"
      "k = max_attempts \<or> load (reads k) (dn_toml env) path \<noteq> Inl IoNotFound"
    using load_attempts_outcome [of 0 env reads path]
    by (auto simp: load_config_with_retry_def max_attempts_def simp del: upt_Suc)
  then show ?thesis by (intro exI [of _ k]) (auto simp: max_attempts_def list_all_iff)
qed

subsection \<open>Reloads that fail\<close>

lemma http_of_panics: "http_of env us cfg nodes = Inl e \<Longrightarrow> is_panic e"
proof -
  assume "http_of env us cfg nodes = Inl e"
  then obtain o' where "render_output (dn_http env) o' nodes (relay_network (relay cfg)) (relay_service_name (relay cfg)) = Inl e"
    by (auto simp: http_of_def http_state_new_def bind_result_def dest!: map_result_Inl split: sum.splits)
  then obtain n where "build_vmess_url_link (dn_http env) n o' (relay_network (relay cfg)) (relay_service_name (relay cfg)) = Inl e"
    by (auto simp: render_output_def Let_def bind_result_def dest!: map_result_Inl split: sum.splits)
  then show "is_panic e"
    by (auto simp: build_vmess_url_link_def Let_def ok_or_def is_panic_def split: option.splits)
qed

lemma loaded_subscriptions:
  assumes "load_subscriptions env w cfg = Inr ls"
  obtains mgr where "build_validator (dn_crypto env) (dn_sub env) mgr = Inr (ls_validator ls)"
    "all_nodes mgr = ls_nodes ls" "ls_grpc_endpoints ls = grpc_endpoints (ls_validator ls)"
  using assms by (auto simp: load_subscriptions_def split: prod.splits sum.splits)

text \<open>The three ways a full reload ends, as far as it got.\<close>

lemma reload_full_cases:
  obtains (not_loaded) e where "reload_full env path i d = (Inl e, d)"
  | (filter_failed) e cfg where "reload_full env path i d = (Inl e, d\<lparr>dm_config := fst (preserve_running_relay cfg (relay (dm_config d)))\<rparr>)"
      "ri_filter i = Inl e" "load_config_with_retry env (ri_reads i) path = Inr cfg"
  | (committed) cfg ls eff rt where
      "load_config_with_retry env (ri_reads i) path = Inr cfg"
      "load_subscriptions env (ri_world i) (subscription cfg) = Inr ls"
      "eff = fst (preserve_running_relay cfg (relay (dm_config d)))"
      "rt = install_validator i ls \<lparr>rt_validator = rt_validator (dm_runtime d),
              rt_grpc_pool = set_idle_timeout (rt_grpc_pool (dm_runtime d)) (duration_from_seconds (grpc_pool_idle_timeout (relay eff))),
              rt_idle_timeout = duration_from_seconds (relay_idle_timeout (relay eff))\<rparr>"
      "reload_full env path i d =
         (case http_of env (http_users (http eff)) eff (ls_nodes ls) of
            Inl e \<Rightarrow> (Inl e, d\<lparr>dm_config := eff, dm_log_filter := log_filter env eff, dm_runtime := rt\<rparr>)
          | Inr hs \<Rightarrow> (Inr (length (ls_nodes ls)),
              d\<lparr>dm_config := eff, dm_log_filter := log_filter env eff, dm_runtime := rt, dm_http := hs\<rparr>))"
proof (cases "load_config_with_retry env (ri_reads i) path")
  case (Inl e)
  then show thesis by (intro not_loaded [of e]) (simp add: reload_full_def)
next
  case cfg: (Inr cfg)
  show thesis
  proof (cases "load_subscriptions env (ri_world i) (subscription cfg)")
    case (Inl e)
    with cfg show thesis by (intro not_loaded [of e]) (simp add: reload_full_def)
  next
    case ls: (Inr ls)
    show thesis
    proof (cases "ri_filter i")
      case (Inl e)
      with cfg ls show thesis by (intro filter_failed [of e cfg]) (simp_all add: reload_full_def Let_def)
    next
      case (Inr u)
      obtain v p t where rt: "dm_runtime d = \<lparr>rt_validator = v, rt_grpc_pool = p, rt_idle_timeout = t\<rparr>"
        by (cases "dm_runtime d")
      from cfg ls Inr rt show thesis
        by (intro committed [OF cfg ls refl refl])
          (simp add: reload_full_def Let_def set_relay_idle_timeout_def split: sum.split)
    qed
  qed
qed

text \<open>
  C20 (failed_reload_keeps_serving). A reload that fails, without a panic, leaves the daemon serving
  exactly what it served: routing table, connection pool, idle timeout, users, published links and
  log filter are unchanged. The stored configuration is unchanged too, unless it was the log filter
  that could not be replaced; a failed refresh of the subscriptions changes nothing at all.
\<close>

theorem failed_reload_keeps_serving:
  assumes "\<not> is_panic e"
  shows "(reload_full env path i d = (Inl e, d') \<longrightarrow>
            d' = d\<lparr>dm_config := dm_config d'\<rparr> \<and> (ri_filter i = Inr () \<longrightarrow> d' = d))
    \<and> (reload_subs env i d = (Inl e, d') \<longrightarrow> d' = d)"
proof (intro conjI impI)
  assume r: "reload_full env path i d = (Inl e, d')"
  show "d' = d\<lparr>dm_config := dm_config d'\<rparr>"
  proof (cases env path i d rule: reload_full_cases)
    case (committed cfg ls eff rt)
    with r http_of_panics [of env _ eff "ls_nodes ls"] assms show ?thesis by (auto split: sum.splits)
  qed (use r in auto)
  show "d' = d" if "ri_filter i = Inr ()"
  proof (cases env path i d rule: reload_full_cases)
    case (committed cfg ls eff rt)
    with r http_of_panics [of env _ eff "ls_nodes ls"] assms show ?thesis by (auto split: sum.splits)
  qed (use r that in auto)
next
  assume "reload_subs env i d = (Inl e, d')"
  with http_of_panics assms show "d' = d"
    by (auto simp: reload_subs_def Let_def split: sum.splits)
qed


text \<open>A daemon for the witnesses: nothing is configured but what an argument gives.\<close>

definition sample_daemon_env :: daemon_env where
  "sample_daemon_env = \<lparr>dn_crypto = toy_crypto,
     dn_sub = sample_env\<lparr>se_cache_from_str := (\<lambda>_. Some [''s'' \<mapsto> [sample_node\<lparr>n_uuid := sample_uuid\<rparr>]])\<rparr>,
     dn_http = sample_http_env\<lparr>he_url_build := (\<lambda>base ps f. if contains_str base ''@:'' then None else Some base)\<rparr>,
     dn_toml = (\<lambda>s. Inr \<lparr>rc_log_level = None,
       rc_relay = Some \<lparr>ry_listen = Some ''127.0.0.1'', ry_port = Some (if s = ''new'' then 99 else 80), ry_network = None,
         ry_service_name = None, ry_idle_timeout = None, ry_grpc_pool_idle_timeout = None\<rparr>,
       rc_http = Some \<lparr>rh_listen = Some ''127.0.0.1'', rh_port = Some 80, rh_users = None, rh_outputs = None\<rparr>,
       rc_subscription = None\<rparr>), dn_rust_log = None\<rparr>"

definition sample_input :: "string \<Rightarrow> reload_input" where
  "sample_input content = \<lparr>ri_world = offline_world, ri_reads = (\<lambda>_ _. Inr content), ri_filter = Inr (),
     ri_snapshot = (\<lambda>p eps. [])\<rparr>"

definition sample_daemon :: daemon where
  "sample_daemon = \<lparr>dm_config = \<lparr>log_level = ''info'', relay = default_relay_config, http = default_http_config,
       subscription = sample_subscription\<rparr>, dm_log_filter = ''info'',
     dm_runtime = relay_runtime_new \<lparr>entries = []\<rparr> (grpc_pool_new None) None,
     dm_http = \<lparr>hs_users = [], hs_outputs = []\<rparr>\<rparr>"

theorem failed_reload_keeps_serving_witness:
  "reload_full sample_daemon_env ''c'' ((sample_input '''')\<lparr>ri_reads := (\<lambda>_ _. Inl IoNotFound)\<rparr>) sample_daemon
     = (Inl IoNotFound, sample_daemon)"
proof -
  let ?i = "(sample_input '''')\<lparr>ri_reads := (\<lambda>_ _. Inl IoNotFound)\<rparr>"
  have "load_config_with_retry sample_daemon_env (ri_reads ?i) ''c'' = Inl IoNotFound"
    by (simp add: load_config_with_retry_def max_attempts_def load_def upt_rec)
  then obtain d' where r: "reload_full sample_daemon_env ''c'' ?i sample_daemon = (Inl IoNotFound, d')"
    by (simp add: reload_full_def)
  moreover have "ri_filter ?i = Inr ()" by (simp add: sample_input_def)
  ultimately show ?thesis
    using failed_reload_keeps_serving [of IoNotFound sample_daemon_env "''c''" ?i sample_daemon d'] by (simp add: is_panic_def)
qed

subsection \<open>What the daemon serves\<close>

text \<open>
  The contract of an invariant of the daemon: both kinds of reload keep it, whether they succeed or
  fail, as long as they do not panic and what a full reload finds outside is as the invariant needs
  it. The event loop keeps it then.
\<close>

definition full_reloads_suit :: "(reload_input \<Rightarrow> bool) \<Rightarrow> daemon_event list \<Rightarrow> bool" where
  "full_reloads_suit suits evs \<longleftrightarrow> list_all (\<lambda>ev. case ev of FullReload i _ \<Rightarrow> suits i | _ \<Rightarrow> True) evs"

locale daemon_invariant =
  fixes env :: daemon_env and path :: string and suits :: "reload_input \<Rightarrow> bool" and inv :: "daemon \<Rightarrow> bool"
  assumes full: "inv d \<Longrightarrow> suits i \<Longrightarrow> reload_full env path i d = (r, d') \<Longrightarrow> (\<And>m. r \<noteq> Inl (Panic m)) \<Longrightarrow> inv d'"
    and subs: "inv d \<Longrightarrow> reload_subs env i d = (r, d') \<Longrightarrow> (\<And>m. r \<noteq> Inl (Panic m)) \<Longrightarrow> inv d'"
begin

lemma step_keeps:
  assumes "inv d" and "loop_step env path ev d = Running d'" and "full_reloads_suit suits [ev]"
  shows "inv d'"
proof (cases ev)
  case (FullReload i dropped)
  with assms(2) have "reload_full env path i d = (fst (reload_full env path i d), d')"
      "fst (reload_full env path i d) \<noteq> Inl (Panic m)" for m
    by (auto simp: loop_step_def Let_def prod_eq_iff split: if_splits sum.splits error.splits)
  moreover have "suits i" using assms(3) FullReload by (simp add: full_reloads_suit_def)
  ultimately show ?thesis using assms(1) full by blast
next
  case (SubsReload i dropped)
  with assms(2) have "reload_subs env i d = (fst (reload_subs env i d), d')"
      "fst (reload_subs env i d) \<noteq> Inl (Panic m)" for m
    by (auto simp: loop_step_def Let_def prod_eq_iff split: if_splits sum.splits error.splits)
  with assms(1) show ?thesis by (rule subs)
qed (use assms in \<open>simp add: loop_step_def\<close>)

lemma loop_keeps: "inv d \<Longrightarrow> main_loop env path evs d = Running d' \<Longrightarrow> full_reloads_suit suits evs \<Longrightarrow> inv d'"
proof (induction evs arbitrary: d)
  case (Cons ev evs)
  then obtain d1 where d1: "loop_step env path ev d = Running d1" "main_loop env path evs d1 = Running d'"
    by (auto split: process.splits)
  have "full_reloads_suit suits [ev]" "full_reloads_suit suits evs" using Cons.prems(3) by (simp_all add: full_reloads_suit_def)
  with d1 Cons.IH Cons.prems(1) step_keeps show ?case by blast
qed simp

end

definition listener :: "relay_config \<Rightarrow> string \<times> nat \<times> relay_network \<times> string" where
  "listener r = (relay_listen r, relay_port r, relay_network r, relay_service_name r)"

lemma preserve_listener: "listener (relay (fst (preserve_running_relay cfg running))) = listener running"
  by (auto simp: preserve_running_relay_def Let_def listener_def)

lemma from_config_listener: "listener a = listener b \<Longrightarrow> from_config a = from_config b"
  by (auto simp: listener_def from_config_def split: relay_network.split)

text \<open>
  What is served: the routing table and the links come from one node list, and the links were rendered for
  the outputs of one of the configurations in \<open>H\<close>. That is the current one (\<open>current\<close>) unless the log filter
  could not be replaced: such a reload has stored its configuration and nothing else.
\<close>

definition serves :: "daemon_env \<Rightarrow> string \<times> nat \<times> relay_network \<times> string \<Rightarrow> http_config set \<Rightarrow> bool \<Rightarrow> daemon \<Rightarrow> bool" where
  "serves env l H current d \<longleftrightarrow> listener (relay (dm_config d)) = l \<and> http (dm_config d) \<in> H
     \<and> (\<exists>mgr h. build_validator (dn_crypto env) (dn_sub env) mgr = Inr (rt_validator (dm_runtime d))
          \<and> http_state_new (dn_http env) (hs_users (dm_http d)) (http_outputs h) (all_nodes mgr)
              (fst (snd (snd l))) (snd (snd (snd l))) = Inr (dm_http d)
          \<and> h \<in> H \<and> (current \<longrightarrow> h = http (dm_config d)))"

definition reads_http :: "daemon_env \<Rightarrow> string \<Rightarrow> http_config set \<Rightarrow> bool \<Rightarrow> reload_input \<Rightarrow> bool" where
  "reads_http env path H current i \<longleftrightarrow>
     (\<forall>cfg. load_config_with_retry env (ri_reads i) path = Inr cfg \<longrightarrow> http cfg \<in> H)
     \<and> (current \<longrightarrow> ri_filter i = Inr ())"

lemma preserve_http: "http (fst (preserve_running_relay cfg running)) = http cfg"
  by (simp add: preserve_running_relay_def Let_def)

lemma http_of_serves:
  assumes "http_of env us cfg nodes = Inr hs"
  shows "http_state_new (dn_http env) (hs_users hs) (http_outputs (http cfg)) nodes
    (fst (snd (snd (listener (relay cfg))))) (snd (snd (snd (listener (relay cfg))))) = Inr hs"
proof -
  have "hs_users hs = us" using assms by (auto simp: http_of_def http_state_new_def)
  with assms show ?thesis by (simp add: http_of_def listener_def)
qed

lemma installed_validator [simp]: "rt_validator (install_validator i ls rt) = ls_validator ls"
  by (simp add: install_validator_def Let_def)

interpretation serving: daemon_invariant env path "reads_http env path H current" "serves env l H current"
  for env path l H current
proof
  fix d i d' and r :: "nat result"
  assume inv: "serves env l H current d" and no: "\<And>m. r \<noteq> Inl (Panic m)"
  show "serves env l H current d'" if r: "reload_full env path i d = (r, d')" and suits: "reads_http env path H current i"
  proof (cases env path i d rule: reload_full_cases)
    case (committed cfg ls eff rt)
    obtain mgr where mgr: "build_validator (dn_crypto env) (dn_sub env) mgr = Inr (ls_validator ls)" "all_nodes mgr = ls_nodes ls"
      using loaded_subscriptions [OF committed(2)] .
    have l: "listener (relay eff) = l" using inv by (simp add: committed(3) preserve_listener serves_def)
    have h: "http eff \<in> H" using suits committed(1) by (simp add: committed(3) preserve_http reads_http_def)
    show ?thesis
    proof (cases "http_of env (http_users (http eff)) eff (ls_nodes ls)")
      case (Inl e)
      with committed(5) r no http_of_panics [OF Inl] show ?thesis by (cases e) (auto simp: is_panic_def)
    next
      case (Inr hs)
      with committed(5) r have "d' = d\<lparr>dm_config := eff, dm_log_filter := log_filter env eff, dm_runtime := rt, dm_http := hs\<rparr>"
        by simp
      with mgr l h committed(4) http_of_serves [OF Inr] show ?thesis
        by (auto simp: serves_def intro!: exI [of _ mgr])
    qed
  next
    case (filter_failed e cfg)
    with inv r suits show ?thesis by (auto simp: serves_def preserve_listener preserve_http reads_http_def; blast)
  qed (use inv r in auto)
  show "serves env l H current d'" if r: "reload_subs env i d = (r, d')"
  proof (cases "load_subscriptions env (ri_world i) (subscription (dm_config d))")
    case (Inl e)
    with r inv show ?thesis by (simp add: reload_subs_def)
  next
    case ls: (Inr ls)
    obtain mgr where mgr: "build_validator (dn_crypto env) (dn_sub env) mgr = Inr (ls_validator ls)" "all_nodes mgr = ls_nodes ls"
      using loaded_subscriptions [OF ls] .
    have l: "listener (relay (dm_config d)) = l" "http (dm_config d) \<in> H" using inv by (simp_all add: serves_def)
    show ?thesis
    proof (cases "http_of env (hs_users (dm_http d)) (dm_config d) (ls_nodes ls)")
      case (Inl e)
      with ls r no http_of_panics [OF Inl] show ?thesis by (cases e) (auto simp: is_panic_def reload_subs_def Let_def)
    next
      case (Inr hs)
      with ls r have "d' = d\<lparr>dm_runtime := install_validator i ls (dm_runtime d), dm_http := hs\<rparr>"
        by (simp add: reload_subs_def Let_def)
      with mgr l http_of_serves [OF Inr] show ?thesis by (auto simp: serves_def intro!: exI [of _ mgr])
    qed
  qed
qed

lemma main_serves:
  assumes "main env reads w tls_config path = Inr st"
  shows "(http (dm_config (st_daemon st)) \<in> H
      \<longrightarrow> serves env (listener (relay (dm_config (st_daemon st)))) H current (st_daemon st))
    \<and> st_inbound st = from_config (relay (dm_config (st_daemon st)))"
proof -
  obtain cfg ls hs where cfg: "load_subscriptions env w (subscription cfg) = Inr ls"
      "http_of env (http_users (http cfg)) cfg (ls_nodes ls) = Inr hs"
      "dm_config (st_daemon st) = cfg" "dm_http (st_daemon st) = hs"
      "rt_validator (dm_runtime (st_daemon st)) = ls_validator ls" "st_inbound st = from_config (relay cfg)"
    using assms by (auto simp: main_def build_state_def relay_runtime_new_def)
  obtain mgr where "build_validator (dn_crypto env) (dn_sub env) mgr = Inr (ls_validator ls)" "all_nodes mgr = ls_nodes ls"
    using loaded_subscriptions [OF cfg(1)] .
  with cfg http_of_serves [OF cfg(2)] show ?thesis by (auto simp: serves_def intro!: exI [of _ mgr])
qed

lemma build_validator_uuids:
  assumes "build_validator c env mgr = Inr v"
  shows "map uuid (entries v) = map n_uuid (all_nodes mgr) \<and> distinct (map n_uuid (all_nodes mgr))"
proof -
  obtain pairs where p: "list_all2 (\<lambda>n p. node_pair env n = Inr p) (all_nodes mgr) pairs"
      and e: "list_all2 (entry_of c) pairs (entries v)" and dis: "distinct (map fst pairs)"
    using assms by (auto simp: build_validator_def map_result_eq_Inr validator_new_eq_Inr)
  have "map fst pairs = map n_uuid (all_nodes mgr)"
    using p by (induction rule: list_all2_induct) (auto simp: node_pair_def Let_def)
  moreover have "map uuid (entries v) = map fst pairs"
    using e by (induction rule: list_all2_induct) (auto simp: entry_of_def)
  ultimately show ?thesis using dis by simp
qed

text \<open>
  C7 (served_state_consistent). Whatever reloads a running daemon has gone through, successful or not,
  the settings of its listener are those it was started with, and one list of nodes with different
  UUIDs is behind all it serves: the routing table has exactly their UUIDs, in order, and the
  published links are rendered from the same nodes, for the network and service name the listener
  really uses. So every published node is routed, and no other.
\<close>

theorem served_state_consistent:
  assumes "main env reads w tls_config path = Inr st" and "main_loop env path evs (st_daemon st) = Running d"
  shows "listener (relay (dm_config d)) = listener (relay (dm_config (st_daemon st)))
    \<and> st_inbound st = from_config (relay (dm_config d))
    \<and> (\<exists>nodes outs. map uuid (entries (rt_validator (dm_runtime d))) = map n_uuid nodes \<and> distinct (map n_uuid nodes)
         \<and> http_state_new (dn_http env) (hs_users (dm_http d)) outs nodes (relay_network (relay (dm_config d)))
             (relay_service_name (relay (dm_config d))) = Inr (dm_http d))"
proof -
  let ?l = "listener (relay (dm_config (st_daemon st)))"
  have "full_reloads_suit (reads_http env path UNIV False) evs"
    by (auto simp: full_reloads_suit_def reads_http_def list_all_iff split: daemon_event.split)
  then have s: "serves env ?l UNIV False d"
    using serving.loop_keeps [OF _ assms(2)] main_serves [OF assms(1)] by blast
  then have l: "listener (relay (dm_config d)) = ?l" by (simp add: serves_def)
  then have "st_inbound st = from_config (relay (dm_config d))"
    using main_serves [OF assms(1)] from_config_listener by metis
  moreover obtain mgr outs where "build_validator (dn_crypto env) (dn_sub env) mgr = Inr (rt_validator (dm_runtime d))"
      "http_state_new (dn_http env) (hs_users (dm_http d)) outs (all_nodes mgr) (fst (snd (snd ?l))) (snd (snd (snd ?l))) = Inr (dm_http d)"
    using s by (auto simp: serves_def)
  moreover have "fst (snd (snd ?l)) = relay_network (relay (dm_config d))" "snd (snd (snd ?l)) = relay_service_name (relay (dm_config d))"
    using l by (auto simp: listener_def)
  ultimately show ?thesis using l build_validator_uuids by metis
qed

lemma sample_addr: "parse_socket_addr ''127.0.0.1:80'' \<noteq> None"
proof -
  have "show_ipv4 (Ipv4Addr 127 0 0 1) @ '':'' @ show_nat 80 = ''127.0.0.1:80''" by code_simp
  with parse_socket_addr_show_v4 [of 80 "Ipv4Addr 127 0 0 1"] show ?thesis by simp
qed

lemma no_sources: "load_subscriptions env w default_subscription_config
    = Inr \<lparr>ls_validator = \<lparr>entries = []\<rparr>, ls_nodes = [], ls_grpc_endpoints = {}\<rparr>"
proof -
  have "deduplicate_nodes [] ''rename'' = []" by code_simp
  then show ?thesis
    by (simp add: load_subscriptions_def manager_reload_def manager_new_def default_subscription_config_def
        default_deduplication_def nodes_in_order_def build_validator_def validator_new_def grpc_endpoints_def
        List.map_filter_simps)
qed

lemma sample_load: "\<exists>cfg. load (\<lambda>_. Inr s) (dn_toml sample_daemon_env) ''c'' = Inr cfg
    \<and> relay_listen (relay cfg) = ''127.0.0.1'' \<and> relay_port (relay cfg) = (if s = ''new'' then 99 else 80)
    \<and> http_listen (http cfg) = ''127.0.0.1'' \<and> http_port (http cfg) = 80
    \<and> http_users (http cfg) = [] \<and> http_outputs (http cfg) = [] \<and> subscription cfg = default_subscription_config"
  by (simp add: load_def sample_daemon_env_def deserialize_config_def table_field_def deserialize_relay_def
      deserialize_http_def opt_field_def uint_field_def or_default_def resolve_local_source_paths_def
      default_subscription_config_def)

lemma sample_main:
  obtains st where "main sample_daemon_env (\<lambda>_. Inr '''') offline_world (Inr ()) ''c'' = Inr st"
    "relay_port (relay (dm_config (st_daemon st))) = 80"
proof -
  obtain cfg where cfg: "load (\<lambda>_. Inr '''') (dn_toml sample_daemon_env) ''c'' = Inr cfg"
      "relay_listen (relay cfg) = ''127.0.0.1''" "relay_port (relay cfg) = 80" "http_listen (http cfg) = ''127.0.0.1''"
      "http_port (http cfg) = 80" "http_outputs (http cfg) = []" "subscription cfg = default_subscription_config"
    using sample_load [of "''''"] by auto
  have a: "''127.0.0.1'' @ '':'' @ show_nat 80 = ''127.0.0.1:80''" by code_simp
  obtain sa where "parse_socket_addr ''127.0.0.1:80'' = Some sa" using sample_addr by blast
  with cfg a no_sources show thesis
    by (auto simp: main_def build_state_def http_of_def http_state_new_def intro!: that)
qed

lemma sample_reload:
  obtains n d' where "reload_full sample_daemon_env ''c'' (sample_input ''new'') d = (Inr n, d')"
proof -
  obtain cfg where cfg: "load (\<lambda>_. Inr ''new'') (dn_toml sample_daemon_env) ''c'' = Inr cfg"
      "http_outputs (http cfg) = []" "subscription cfg = default_subscription_config"
    using sample_load [of "''new''"] by auto
  have "load_config_with_retry sample_daemon_env (\<lambda>_ _. Inr ''new'') ''c'' = Inr cfg"
    using cfg(1) by (simp add: load_config_with_retry_def max_attempts_def upt_rec)
  moreover have "http_outputs (http (fst (preserve_running_relay cfg r))) = []" for r
    using cfg(2) by (simp add: preserve_running_relay_def Let_def)
  ultimately show thesis
    using that cfg(3) no_sources by (auto simp: Let_def reload_full_def sample_input_def http_of_def http_state_new_def)
qed

theorem served_state_consistent_witness:
  "\<exists>st d. main sample_daemon_env (\<lambda>_. Inr '''') offline_world (Inr ()) ''c'' = Inr st
    \<and> main_loop sample_daemon_env ''c'' [FullReload (sample_input ''new'') False] (st_daemon st) = Running d
    \<and> relay_port (relay (dm_config d)) = 80"
proof -
  obtain st where st: "main sample_daemon_env (\<lambda>_. Inr '''') offline_world (Inr ()) ''c'' = Inr st"
      "relay_port (relay (dm_config (st_daemon st))) = 80"
    using sample_main .
  obtain n d where "reload_full sample_daemon_env ''c'' (sample_input ''new'') (st_daemon st) = (Inr n, d)"
    using sample_reload .
  then have d: "main_loop sample_daemon_env ''c'' [FullReload (sample_input ''new'') False] (st_daemon st) = Running d"
    by (simp add: loop_step_def)
  have "relay_port (relay (dm_config d)) = 80"
    using served_state_consistent [OF st(1) d] st(2) by (auto simp: listener_def)
  with st(1) d show ?thesis by blast
qed

subsection \<open>The pool after a reload\<close>

lemma install_validator_pool:
  assumes "gp_conns q = gp_conns p" and "gp_slots q = gp_slots p"
    and "distinct (map fst (ri_snapshot i q eps))" and "\<And>e. e \<in> set (ri_snapshot i q eps) \<longleftrightarrow> is_stale q eps e"
    and "rt_grpc_pool rt = q" and "ls_grpc_endpoints ls = eps"
  shows "gp_conns (rt_grpc_pool (install_validator i ls rt)) = gp_conns p |` active_keys eps
    \<and> (\<forall>a. gp_slots (rt_grpc_pool (install_validator i ls rt)) a
         = (if \<exists>key. is_stale p eps (key, a) then (gp_slots p a)\<lparr>sl_conn := None\<rparr> else gp_slots p a))"
proof -
  have "is_stale q eps = is_stale p eps" using assms(1) by (auto simp: is_stale_def)
  with prune_to_endpoints_exact [OF assms(3,4)] assms(1,2,5,6) show ?thesis
    by (simp add: install_validator_def Let_def)
qed

text \<open>
  C24 (reload_drops_stale_endpoints). After a successful reload of either kind the pool holds exactly
  the entries it held before whose endpoint the new routing table still has; the slots of the
  others are cleared, so their connections are closed, and no other slot is touched.
\<close>

theorem reload_drops_stale_endpoints:
  assumes "reload_full env path i d = (Inr n, d') \<or> reload_subs env i d = (Inr n, d')"
    and "p = rt_grpc_pool (dm_runtime d)" and "p' = rt_grpc_pool (dm_runtime d')"
    and "active = grpc_endpoints (rt_validator (dm_runtime d'))"
    and "\<And>q. gp_conns q = gp_conns p \<Longrightarrow> distinct (map fst (ri_snapshot i q active))
           \<and> (\<forall>e. e \<in> set (ri_snapshot i q active) \<longleftrightarrow> is_stale q active e)"
  shows "gp_conns p' = gp_conns p |` active_keys active
    \<and> (\<forall>a. gp_slots p' a = (if \<exists>key. is_stale p active (key, a) then (gp_slots p a)\<lparr>sl_conn := None\<rparr> else gp_slots p a))"
proof -
  obtain ls rt where ls: "dm_runtime d' = install_validator i ls rt" "ls_grpc_endpoints ls = grpc_endpoints (ls_validator ls)"
      "gp_conns (rt_grpc_pool rt) = gp_conns p" "gp_slots (rt_grpc_pool rt) = gp_slots p"
    using assms(1)
  proof
    assume r: "reload_full env path i d = (Inr n, d')"
    show thesis
    proof (cases env path i d rule: reload_full_cases)
      case (committed cfg ls eff rt)
      have "ls_grpc_endpoints ls = grpc_endpoints (ls_validator ls)" using loaded_subscriptions [OF committed(2)] .
      moreover obtain rt0 t where "rt = install_validator i ls rt0" "rt_grpc_pool rt0 = set_idle_timeout p t"
        using committed(4) assms(2) by (metis relay_runtime.select_convs(2))
      ultimately show thesis
        using committed(5) r by (intro that [of ls rt0]) (auto simp: set_idle_timeout_def split: sum.splits)
    qed (use r in auto)
  next
    assume r: "reload_subs env i d = (Inr n, d')"
    then obtain ls where ls: "load_subscriptions env (ri_world i) (subscription (dm_config d)) = Inr ls"
      by (auto simp: reload_subs_def split: sum.splits)
    have "ls_grpc_endpoints ls = grpc_endpoints (ls_validator ls)" using loaded_subscriptions [OF ls] .
    with ls r show thesis by (intro that [of ls "dm_runtime d"]) (auto simp: assms(2) reload_subs_def Let_def split: sum.splits)
  qed
  have eps: "ls_grpc_endpoints ls = active" using ls(1,2) assms(4) by simp
  show ?thesis unfolding assms(3) ls(1)
    using assms(5) [OF ls(3)] by (intro install_validator_pool [OF ls(3,4) _ _ refl eps]) auto
qed

lemma sample_loaded:
  obtains ls where "load_subscriptions sample_daemon_env offline_world sample_subscription = Inr ls"
    "ls_nodes ls = [sample_node\<lparr>n_uuid := sample_uuid\<rparr>]" "grpc_endpoints (ls_validator ls) = {}"
proof -
  let ?n = "sample_node\<lparr>n_uuid := sample_uuid\<rparr>" and ?env = "dn_sub sample_daemon_env"
  have cache: "load_cache ?env offline_world ''cache'' = [''s'' \<mapsto> [?n]]"
    by (simp add: load_cache_def read_to_string_def offline_world_def from_utf8_def utf8_valid_def sample_daemon_env_def
        or_default_def)
  have tag: "tag_source ''s'' [?n] = [?n]" by (simp add: tag_source_def sample_node_def)
  have d: "deduplicate_nodes [?n] ''first'' = [?n]" by code_simp
  obtain mgr w where mgr: "manager_reload ?env offline_world (manager_new sample_subscription) = (Inr (), mgr, w)"
      "all_nodes mgr = [?n]"
    using cache tag d sample_fetch [of ?env]
    by (simp add: manager_reload_def manager_new_def sample_subscription_def Let_def nodes_in_order_def
        List.map_filter_simps sample_source_def or_default_def)
  have a: "n_server ?n @ '':'' @ show_nat (n_port ?n) = ''10.0.0.1:443''" by code_simp
  have s: "show_ipv4 (Ipv4Addr 10 0 0 1) @ '':'' @ show_nat 443 = ''10.0.0.1:443''" by code_simp
  have p: "parse_socket_addr ''10.0.0.1:443'' = Some (SocketV4 (Ipv4Addr 10 0 0 1) (word_of_nat 443))"
    using parse_socket_addr_show_v4 [of 443 "Ipv4Addr 10 0 0 1"] unfolding s by simp
  obtain b where b: "parse_uuid sample_uuid = Inr b" using parse_sample_uuid by blast
  obtain q where q: "node_pair ?env ?n = Inr (sample_uuid, q)" "transport q = Tcp"
    unfolding node_pair_def Let_def a p by (simp add: node_transport_def sample_node_def)
  obtain v where v: "build_validator (dn_crypto sample_daemon_env) ?env mgr = Inr v" "grpc_endpoints v = {}"
    using mgr(2) q b
    by (auto simp: build_validator_def validator_new_def from_uuid_eq sample_daemon_env_def grpc_endpoints_def
        grpc_endpoint_def List.map_filter_simps)
  with mgr show thesis
    by (intro that [of "\<lparr>ls_validator = v, ls_nodes = [?n], ls_grpc_endpoints = {}\<rparr>"]) (simp_all add: load_subscriptions_def)
qed

text \<open>The sample daemon with one pooled endpoint, which the reloaded routing table does not have.\<close>

definition pooled_daemon :: daemon where
  "pooled_daemon = sample_daemon\<lparr>dm_runtime := relay_runtime_new \<lparr>entries = []\<rparr>
     (snd (slot_entry (grpc_pool_new None) ''s:h:1'')) None\<rparr>"

theorem reload_drops_stale_endpoints_witness:
  "\<exists>d'. reload_subs sample_daemon_env ((sample_input '''')\<lparr>ri_snapshot := (\<lambda>p eps. [(''s:h:1'', 0)])\<rparr>) pooled_daemon
      = (Inr 1, d') \<and> gp_conns (rt_grpc_pool (dm_runtime d')) = Map.empty"
proof -
  let ?i = "(sample_input '''')\<lparr>ri_snapshot := (\<lambda>p eps. [(''s:h:1'', 0)])\<rparr>"
  let ?p = "snd (slot_entry (grpc_pool_new None) ''s:h:1'')"
  obtain ls where ls: "load_subscriptions sample_daemon_env offline_world sample_subscription = Inr ls"
      "ls_nodes ls = [sample_node\<lparr>n_uuid := sample_uuid\<rparr>]" "grpc_endpoints (ls_validator ls) = {}"
    using sample_loaded .
  then obtain d' where r: "reload_subs sample_daemon_env ?i pooled_daemon = (Inr 1, d')"
      "rt_validator (dm_runtime d') = ls_validator ls"
    by (simp add: reload_subs_def sample_input_def pooled_daemon_def sample_daemon_def Let_def http_of_def
        http_state_new_def default_http_config_def)
  have p: "rt_grpc_pool (dm_runtime pooled_daemon) = ?p" by (simp add: pooled_daemon_def relay_runtime_new_def)
  have conns: "gp_conns ?p = [''s:h:1'' \<mapsto> 0]" by (simp add: slot_entry_def grpc_pool_new_def Let_def)
  have "e \<in> set [(''s:h:1'', 0)] \<longleftrightarrow> is_stale q {} e" if "gp_conns q = [''s:h:1'' \<mapsto> 0]" for q e
    using that by (cases e) (auto simp: is_stale_def active_keys_def)
  then have law: "distinct (map fst (ri_snapshot ?i q {})) \<and> (\<forall>e. e \<in> set (ri_snapshot ?i q {}) \<longleftrightarrow> is_stale q {} e)"
    if "gp_conns q = gp_conns ?p" for q
    using that unfolding conns by simp
  have eps: "{} = grpc_endpoints (rt_validator (dm_runtime d'))" using r(2) ls(3) by simp
  have "gp_conns (rt_grpc_pool (dm_runtime d')) = gp_conns ?p |` active_keys {}"
    by (rule reload_drops_stale_endpoints [where path = "''c''", OF disjI2 [OF r(1)] p [symmetric] refl eps law, THEN conjunct1])
  then have "gp_conns (rt_grpc_pool (dm_runtime d')) = Map.empty" by (simp add: active_keys_def)
  with r(1) show ?thesis by blast
qed

subsection \<open>A refresh that ends the process\<close>

lemma apply_pipeline_Nil [simp]: "apply_pipeline re [] steps = []"
proof -
  have "foldl (\<lambda>ns st. apply_step re ns (from_step re st)) [] steps = []"
    by (induction steps) (simp_all add: apply_step_def)
  then show ?thesis by (simp add: apply_pipeline_def)
qed

lemma http_of_no_nodes: "is_ok (http_of env us cfg [])"
proof -
  have "is_ok (map_result (\<lambda>o'. render_output (dn_http env) o' [] nw sv) outs)" for outs nw sv
    by (simp add: map_result_is_ok render_output_def)
  then show ?thesis by (auto simp: http_of_def http_state_new_def is_ok_iff)
qed

text \<open>
  C40 (refresh_can_crash). A configuration with an output whose host makes no URL, for instance an
  empty one, is accepted as long as there are no nodes; the first refresh of the subscriptions that
  loads a node for this output ends the process, whatever was to come next.
\<close>

theorem refresh_can_crash:
  assumes "load_subscriptions env (ri_world i) (subscription (dm_config d)) = Inr ls"
    and "out \<in> set (http_outputs (http (dm_config d)))"
    and "n \<in> set (apply_pipeline (he_regex (dn_http env)) (ls_nodes ls) (oc_process out))"
    and "\<And>ps f. he_url_build (dn_http env) (''vmess://'' @ n_uuid n @ ''@'' @ format_url_host (oc_host out)
           @ '':'' @ show_nat (oc_port out)) ps f = None"
  shows "is_ok (http_of env us (dm_config d) [])
    \<and> (\<exists>m. main_loop env path (SubsReload i False # evs) d = Crashed m)"
proof -
  let ?nw = "relay_network (relay (dm_config d))" and ?sv = "relay_service_name (relay (dm_config d))"
  have "\<not> is_ok (build_vmess_url_link (dn_http env) n out ?nw ?sv)"
    using assms(4) by (simp add: build_vmess_url_link_def Let_def)
  then have "\<not> is_ok (render_output (dn_http env) out (ls_nodes ls) ?nw ?sv)"
    using assms(3) by (auto simp: render_output_def Let_def is_ok_iff map_result_eq_Inr list_all2_conv_all_nth in_set_conv_nth)
  then have "\<not> is_ok (map_result (\<lambda>o'. render_output (dn_http env) o' (ls_nodes ls) ?nw ?sv) (http_outputs (http (dm_config d))))"
    using assms(2) by (auto simp: map_result_is_ok)
  then have "\<not> is_ok (http_of env (hs_users (dm_http d)) (dm_config d) (ls_nodes ls))"
    by (auto simp: http_of_def http_state_new_def is_ok_iff)
  then obtain e where e: "http_of env (hs_users (dm_http d)) (dm_config d) (ls_nodes ls) = Inl e"
    by (cases "http_of env (hs_users (dm_http d)) (dm_config d) (ls_nodes ls)") simp_all
  then obtain m where "e = Panic m" using http_of_panics [OF e] by (cases e) (auto simp: is_panic_def)
  with e assms(1) have "loop_step env path (SubsReload i False) d = Crashed m"
    by (simp add: loop_step_def reload_subs_def Let_def)
  with http_of_no_nodes show ?thesis by auto
qed

definition hostless_output :: output_config where
  "hostless_output = \<lparr>oc_name = ''o'', oc_host = '''', oc_port = 443, oc_sni = None, oc_skip_cert_verify = False, oc_process = []\<rparr>"

lemma read_groups_Nil: "read_groups (Suc n) [] [] = ([], False, [])"
  by (simp add: read_separator_def read_ipv4_addr_def read_octet_def read_number_def digits_prefix_def)

lemma hostless_url_host: "format_url_host (oc_host hostless_output) = ''''"
proof -
  have "read_groups 8 [] [] = ([], False, [])" using read_groups_Nil [of 7] by simp
  then have "parse_ipv6 '''' = None" by (simp add: parse_ipv6_def parse_with_def read_ipv6_addr_def read_given_char_def)
  then show ?thesis
    by (simp add: format_url_host_def hostless_output_def strip_prefix_def starts_with_def and_then_def or_default_def)
qed

lemma sample_url_build:
  "he_url_build (dn_http sample_daemon_env) = (\<lambda>base ps f. if contains_str base ''@:'' then None else Some base)"
  by (simp add: sample_daemon_env_def)

theorem refresh_can_crash_witness:
  "\<exists>m. main_loop sample_daemon_env ''c'' [SubsReload (sample_input '''') False]
     (sample_daemon\<lparr>dm_config := (dm_config sample_daemon)\<lparr>http := default_http_config\<lparr>http_outputs := [hostless_output]\<rparr>\<rparr>\<rparr>)
     = Crashed m"
proof -
  let ?d = "sample_daemon\<lparr>dm_config := (dm_config sample_daemon)\<lparr>http := default_http_config\<lparr>http_outputs := [hostless_output]\<rparr>\<rparr>\<rparr>"
  let ?n = "sample_node\<lparr>n_uuid := sample_uuid\<rparr>"
  obtain ls where ls: "load_subscriptions sample_daemon_env offline_world sample_subscription = Inr ls" "ls_nodes ls = [?n]"
    using sample_loaded .
  have bad: "contains_str (''vmess://'' @ n_uuid ?n @ ''@'' @ format_url_host (oc_host hostless_output)
      @ '':'' @ show_nat (oc_port hostless_output)) ''@:''"
    unfolding hostless_url_host by code_simp
  show ?thesis
  proof (rule refresh_can_crash [THEN conjunct2])
    show "load_subscriptions sample_daemon_env (ri_world (sample_input '''')) (subscription (dm_config ?d)) = Inr ls"
      using ls(1) by (simp add: sample_input_def sample_daemon_def)
    show "hostless_output \<in> set (http_outputs (http (dm_config ?d)))" by simp
    show "?n \<in> set (apply_pipeline (he_regex (dn_http sample_daemon_env)) (ls_nodes ls) (oc_process hostless_output))"
      unfolding ls(2) by (simp add: apply_pipeline_def hostless_output_def)
    show "he_url_build (dn_http sample_daemon_env) (''vmess://'' @ n_uuid ?n @ ''@'' @ format_url_host (oc_host hostless_output)
        @ '':'' @ show_nat (oc_port hostless_output)) ps f = None" for ps f
      unfolding sample_url_build by (rule if_P [OF bad])
  qed
qed

end
