(* ===== verification/Daemon_Tasks.thy ===== *)
theory Daemon_Tasks
  imports Daemon
begin

text \<open>
  The tasks around the event loop of \<^verbatim>\<open>src/main.rs\<close> and the two bounded channels through which they ask for
  reloads: the SIGUSR1 task, the watcher thread, the subscription timer, the shutdown task and the
  pruner. The state \<open>control\<close> holds what the tasks share: the daemon, the queued messages, where every
  task is, and, outside the process, the configuration file. A step is what one task does
  between two points where it waits; the relation \<open>control_step\<close> interleaves them. The loop's two
  nested \<^verbatim>\<open>select!\<close>s are biased, so a pending shutdown comes first, then full reloads.

  The lemmas show that this machine behaves as the event loop of \<open>Daemon\<close> does on the events that
  were selected, one reload for each request, that no change of the configuration file is missed once the watcher runs, that a change
  before that is missed, that all requests are worked off, and that a shutdown is not delayed.
\<close>

subsection \<open>Definitions\<close>

definition channel_capacity :: nat where
  "channel_capacity = 4"

datatype phase =
    Selecting \<comment> \<open>waiting in the outer \<^verbatim>\<open>select!\<close>\<close>
  | FullStarted \<comment> \<open>a full reload, before it has read the file\<close>
  | FullRead "string result" \<comment> \<open>a full reload and what it has read\<close>
  | SubsStarted
  | Halted process

record control =
  ct_daemon :: daemon
  ct_phase :: phase
  ct_full :: nat \<comment> \<open>messages in the channel for full reloads\<close>
  ct_subs :: nat \<comment> \<open>messages in the channel for refreshes\<close>
  ct_quit :: bool \<comment> \<open>the shutdown channel has a message, or its sender is gone\<close>
  ct_signalled :: bool \<comment> \<open>a SIGUSR1 the task has not taken yet; several count as one\<close>
  ct_signal_sends :: bool \<comment> \<open>the SIGUSR1 task is sending\<close>
  ct_watching :: bool \<comment> \<open>the watcher is registered\<close>
  ct_changes :: nat \<comment> \<open>events the watcher has not taken yet\<close>
  ct_watcher_sends :: bool
  ct_timer :: "nat option" \<comment> \<open>the period of the subscription timer\<close>
  ct_timer_sends :: bool
  ct_file :: "string result" \<comment> \<open>what reading the configuration file gives\<close>
  ct_read :: "string result" \<comment> \<open>what the start-up or the last full reload has read\<close>
  ct_result :: "nat result" \<comment> \<open>the outcome of the last full reload\<close>

text \<open>After \<^verbatim>\<open>main\<close> has spawned its tasks; the watcher thread is not running yet.\<close>

definition control_init :: "started \<Rightarrow> string result \<Rightarrow> control" where
  "control_init st content =
     \<lparr>ct_daemon = st_daemon st, ct_phase = Selecting, ct_full = 0, ct_subs = 0, ct_quit = False,
      ct_signalled = False, ct_signal_sends = False, ct_watching = False, ct_changes = 0, ct_watcher_sends = False,
      ct_timer = st_timer st, ct_timer_sends = False, ct_file = content, ct_read = content,
      ct_result = Inr 0\<rparr>"

datatype selection = SelectQuit | SelectFull | SelectSubs

definition main_select :: "control \<Rightarrow> selection option" where
  "main_select s =
     (if ct_quit s then Some SelectQuit
      else if ct_full s > 0 then Some SelectFull
      else if ct_subs s > 0 then Some SelectSubs
      else None)"

definition start_selected :: "selection \<Rightarrow> control \<Rightarrow> control" where
  "start_selected sel s =
     (case sel of
        SelectQuit \<Rightarrow> s\<lparr>ct_phase := Halted Exited\<rparr>
      | SelectFull \<Rightarrow> s\<lparr>ct_phase := FullStarted, ct_full := ct_full s - 1\<rparr>
      | SelectSubs \<Rightarrow> s\<lparr>ct_phase := SubsStarted, ct_subs := ct_subs s - 1\<rparr>)"

text \<open>The reload has ended, with this result and this daemon: back to the loop, unless it panicked.\<close>

definition reload_ended :: "nat result \<times> daemon \<Rightarrow> control \<Rightarrow> control" where
  "reload_ended r s =
     (case fst r of
        Inl (Panic m) \<Rightarrow> s\<lparr>ct_phase := Halted (Crashed m)\<rparr>
      | _ \<Rightarrow> s\<lparr>ct_phase := Selecting, ct_daemon := snd r\<rparr>)"

text \<open>The pruner, at one of its ticks.\<close>

definition pruner_tick :: "nat \<Rightarrow> nat list \<Rightarrow> daemon \<Rightarrow> daemon" where
  "pruner_tick now slots d =
     d\<lparr>dm_runtime := (dm_runtime d)\<lparr>rt_grpc_pool := prune_idle now (rt_grpc_pool (dm_runtime d)) slots\<rparr>\<rparr>"

definition sigusr1_taken :: "control \<Rightarrow> control" where
  "sigusr1_taken s = s\<lparr>ct_signalled := False, ct_signal_sends := True\<rparr>"

definition sigusr1_sent :: "control \<Rightarrow> control" where
  "sigusr1_sent s = s\<lparr>ct_full := ct_full s + 1, ct_signal_sends := False\<rparr>"

definition change_taken :: "control \<Rightarrow> control" where
  "change_taken s = s\<lparr>ct_changes := ct_changes s - 1, ct_watcher_sends := True\<rparr>"

definition watcher_sent :: "control \<Rightarrow> control" where
  "watcher_sent s = s\<lparr>ct_full := ct_full s + 1, ct_watcher_sends := False\<rparr>"

definition shutdown_sent :: "control \<Rightarrow> control" where
  "shutdown_sent s = s\<lparr>ct_quit := True\<rparr>"

definition timer_sent :: "control \<Rightarrow> control" where
  "timer_sent s = s\<lparr>ct_subs := ct_subs s + 1, ct_timer_sends := False\<rparr>"

text \<open>The file is changed; a registered watcher gets an event if the filter lets it through.\<close>

definition file_changed :: "string \<Rightarrow> event_kind \<Rightarrow> string result \<Rightarrow> control \<Rightarrow> control" where
  "file_changed target kind content s =
     s\<lparr>ct_file := content,
       ct_changes := (if ct_watching s \<and> triggers_reload target kind [target] then ct_changes s + 1 else ct_changes s)\<rparr>"

definition halted :: "control \<Rightarrow> bool" where
  "halted s \<longleftrightarrow> (case ct_phase s of Halted _ \<Rightarrow> True | _ \<Rightarrow> False)"

definition reloading :: "control \<Rightarrow> bool" where
  "reloading s \<longleftrightarrow> (case ct_phase s of FullStarted \<Rightarrow> True | FullRead _ \<Rightarrow> True | SubsStarted \<Rightarrow> True | _ \<Rightarrow> False)"

text \<open>
  The steps of the tasks of the process. A reload that has read the file and is not abandoned ends in one
  step here; the theory \<open>Reload_Window\<close> takes its writes apart.
\<close>

inductive task_step :: "daemon_env \<Rightarrow> string \<Rightarrow> control \<Rightarrow> control \<Rightarrow> bool" for env path where
  select: "ct_phase s = Selecting \<Longrightarrow> main_select s = Some sel \<Longrightarrow> task_step env path s (start_selected sel s)"
| abandon: "reloading s \<Longrightarrow> ct_quit s \<Longrightarrow> task_step env path s (s\<lparr>ct_phase := Halted Exited\<rparr>)"
| full_read: "ct_phase s = FullStarted \<Longrightarrow> \<not> ct_quit s \<Longrightarrow>
    task_step env path s (s\<lparr>ct_phase := FullRead (ct_file s), ct_read := ct_file s\<rparr>)"
| full_ended: "ct_phase s = FullRead content \<Longrightarrow> \<not> ct_quit s \<Longrightarrow>
    load_config_with_retry env (ri_reads i) path = load (\<lambda>_. content) (dn_toml env) path \<Longrightarrow>
    r = reload_full env path i (ct_daemon s) \<Longrightarrow> task_step env path s ((reload_ended r s)\<lparr>ct_result := fst r\<rparr>)"
| subs_ended: "ct_phase s = SubsStarted \<Longrightarrow> \<not> ct_quit s \<Longrightarrow>
    task_step env path s (reload_ended (reload_subs env i (ct_daemon s)) s)"
| sigusr1_take: "\<not> halted s \<Longrightarrow> ct_signalled s \<Longrightarrow> \<not> ct_signal_sends s \<Longrightarrow> task_step env path s (sigusr1_taken s)"
| sigusr1_send: "\<not> halted s \<Longrightarrow> ct_signal_sends s \<Longrightarrow> ct_full s < channel_capacity \<Longrightarrow>
    task_step env path s (sigusr1_sent s)"
| change_take: "\<not> halted s \<Longrightarrow> ct_changes s > 0 \<Longrightarrow> \<not> ct_watcher_sends s \<Longrightarrow> task_step env path s (change_taken s)"
| watcher_send: "\<not> halted s \<Longrightarrow> ct_watcher_sends s \<Longrightarrow> ct_full s < channel_capacity \<Longrightarrow>
    task_step env path s (watcher_sent s)"
| timer_send: "\<not> halted s \<Longrightarrow> ct_timer_sends s \<Longrightarrow> ct_subs s < channel_capacity \<Longrightarrow>
    task_step env path s (timer_sent s)"

text \<open>What happens to the process: signals, time, changes of the file, the start of the watcher, and the
  connections and the pruner, which touch nothing but the pool.\<close>

inductive world_step :: "string \<Rightarrow> control \<Rightarrow> control \<Rightarrow> bool" for target where
  signal: "\<not> halted s \<Longrightarrow> world_step target s (s\<lparr>ct_signalled := True\<rparr>)"
| shutdown: "\<not> halted s \<Longrightarrow> world_step target s (shutdown_sent s)"
| timer_fires: "\<not> halted s \<Longrightarrow> ct_timer s = Some t \<Longrightarrow> \<not> ct_timer_sends s \<Longrightarrow>
    world_step target s (s\<lparr>ct_timer_sends := True\<rparr>)"
| watch_starts: "\<not> halted s \<Longrightarrow> world_step target s (s\<lparr>ct_watching := True\<rparr>)"
| change: "kind \<in> {EvModify, EvCreate, EvRemove, EvAny} \<Longrightarrow> world_step target s (file_changed target kind content s)"
| prune: "\<not> halted s \<Longrightarrow> world_step target s (s\<lparr>ct_daemon := pruner_tick now slots (ct_daemon s)\<rparr>)"
| traffic: "\<not> halted s \<Longrightarrow> world_step target s
    (s\<lparr>ct_daemon := (ct_daemon s)\<lparr>dm_runtime := (dm_runtime (ct_daemon s))\<lparr>rt_grpc_pool := p\<rparr>\<rparr>\<rparr>)"

definition control_step :: "daemon_env \<Rightarrow> string \<Rightarrow> string \<Rightarrow> control \<Rightarrow> control \<Rightarrow> bool" where
  "control_step env path target s s' \<longleftrightarrow> task_step env path s s' \<or> world_step target s s'"

abbreviation control_run :: "daemon_env \<Rightarrow> string \<Rightarrow> string \<Rightarrow> control \<Rightarrow> control \<Rightarrow> bool" where
  "control_run env path target \<equiv> (control_step env path target)\<^sup>*\<^sup>*"

inductive_cases task_stepE: "task_step env path s s'"
inductive_cases world_stepE: "world_step target s s'"

lemmas sent_defs = start_selected_def reload_ended_def sigusr1_taken_def sigusr1_sent_def change_taken_def
  watcher_sent_def timer_sent_def file_changed_def pruner_tick_def shutdown_sent_def

subsection \<open>Changes of the configuration file\<close>

lemma triggers_own: "is_absolute target \<Longrightarrow> kind \<in> {EvModify, EvCreate, EvRemove, EvAny} \<Longrightarrow> triggers_reload target kind [target]"
  by (auto simp: triggers_reload_def)

text \<open>Either the last full reload has read the file as it is, or a request for another one is under way.\<close>

definition up_to_date :: "control \<Rightarrow> bool" where
  "up_to_date s \<longleftrightarrow> ct_read s = ct_file s \<or> ct_changes s > 0 \<or> ct_watcher_sends s \<or> ct_full s > 0 \<or> ct_phase s = FullStarted
     \<or> halted s"

lemma task_step_up_to_date: "task_step env path s s' \<Longrightarrow> up_to_date s \<Longrightarrow> up_to_date s'"
  by (induction rule: task_step.induct)
    (auto simp: up_to_date_def sent_defs halted_def main_select_def reloading_def
      split: selection.splits sum.splits error.splits if_splits)

lemma world_step_up_to_date:
  "world_step target s s' \<Longrightarrow> is_absolute target \<Longrightarrow> ct_watching s \<Longrightarrow> up_to_date s \<Longrightarrow> up_to_date s' \<and> ct_watching s'"
  by (induction rule: world_step.induct) (auto simp: up_to_date_def sent_defs halted_def triggers_own)

text \<open>What a successful full reload has read is what the daemon runs with, its listener apart.\<close>

definition runs_with :: "daemon_env \<Rightarrow> string \<Rightarrow> string result \<Rightarrow> daemon \<Rightarrow> bool" where
  "runs_with env path content d \<longleftrightarrow>
     (\<exists>cfg. load (\<lambda>_. content) (dn_toml env) path = Inr cfg
        \<and> dm_config d = fst (preserve_running_relay cfg (relay (dm_config d))))"

definition config_applied :: "daemon_env \<Rightarrow> string \<Rightarrow> control \<Rightarrow> bool" where
  "config_applied env path s \<longleftrightarrow>
     (case ct_phase s of
        FullRead content \<Rightarrow> content = ct_read s
      | FullStarted \<Rightarrow> True
      | Halted _ \<Rightarrow> True
      | _ \<Rightarrow> is_ok (ct_result s) \<longrightarrow> runs_with env path (ct_read s) (ct_daemon s))"

lemma preserve_cong: "listener a = listener b \<Longrightarrow> preserve_running_relay cfg a = preserve_running_relay cfg b"
  by (simp add: preserve_running_relay_def listener_def)

lemma preserve_self: "fst (preserve_running_relay cfg (relay cfg)) = cfg"
  by (simp add: preserve_running_relay_def)

lemma reload_full_runs_with:
  assumes "load_config_with_retry env (ri_reads i) path = load (\<lambda>_. content) (dn_toml env) path"
    and "reload_full env path i d = (Inr n, d')"
  shows "runs_with env path content d'"
proof (cases env path i d rule: reload_full_cases)
  case (committed cfg ls eff rt)
  have "dm_config d' = eff" using committed(5) assms(2) by (auto split: sum.splits)
  moreover have "preserve_running_relay cfg (relay eff) = preserve_running_relay cfg (relay (dm_config d))"
    by (rule preserve_cong) (simp add: committed(3) preserve_listener)
  ultimately show ?thesis using committed(1,3) assms(1) by (auto simp: runs_with_def)
qed (use assms(2) in auto)

lemma reload_subs_config: "dm_config (snd (reload_subs env i d)) = dm_config d"
  by (simp add: reload_subs_def Let_def split: sum.split)

lemma runs_with_config: "dm_config d = dm_config d' \<Longrightarrow> runs_with env path content d = runs_with env path content d'"
  by (simp add: runs_with_def)

lemma reload_ended_phase:
  "ct_phase (reload_ended r s) = (case fst r of Inl (Panic m) \<Rightarrow> Halted (Crashed m) | _ \<Rightarrow> Selecting)"
  "ct_daemon (reload_ended r s) = (case fst r of Inl (Panic m) \<Rightarrow> ct_daemon s | _ \<Rightarrow> snd r)"
  by (simp_all add: reload_ended_def split: sum.split error.split)

lemma task_step_applied: "task_step env path s s' \<Longrightarrow> config_applied env path s \<Longrightarrow> config_applied env path s'"
proof (induction rule: task_step.induct)
  case (full_ended s content i r)
  have "runs_with env path content (snd r)" if "fst r = Inr n" for n
    using reload_full_runs_with [OF full_ended.hyps(3)] that full_ended.hyps(4) by (metis surjective_pairing)
  with full_ended show ?case
    by (auto simp: config_applied_def reload_ended_def is_ok_iff split: sum.splits error.splits)
next
  case (subs_ended s i)
  then show ?case
    using runs_with_config [OF reload_subs_config [of env i "ct_daemon s"]]
    by (auto simp: config_applied_def reload_ended_def split: sum.splits error.splits)
qed (auto simp: config_applied_def sent_defs halted_def reloading_def split: selection.splits phase.splits)

lemma world_step_applied: "world_step target s s' \<Longrightarrow> config_applied env path s \<Longrightarrow> config_applied env path s'"
proof (induction rule: world_step.induct)
  case (prune s now slots)
  then show ?case
    using runs_with_config [of "ct_daemon s" "pruner_tick now slots (ct_daemon s)"]
    by (auto simp: config_applied_def pruner_tick_def split: phase.splits)
next
  case (traffic s p)
  then show ?case
    using runs_with_config [of "ct_daemon s" "(ct_daemon s)\<lparr>dm_runtime := (dm_runtime (ct_daemon s))\<lparr>rt_grpc_pool := p\<rparr>\<rparr>"]
    by (auto simp: config_applied_def split: phase.splits)
qed (auto simp: config_applied_def sent_defs split: phase.splits)

lemma control_run_applied:
  "control_run env path target s s' \<Longrightarrow> config_applied env path s \<Longrightarrow> config_applied env path s'"
  by (induction rule: rtranclp_induct) (auto simp: control_step_def dest: task_step_applied world_step_applied)

lemma control_run_up_to_date:
  "control_run env path target s s' \<Longrightarrow> is_absolute target \<Longrightarrow> ct_watching s \<Longrightarrow> up_to_date s \<Longrightarrow> up_to_date s' \<and> ct_watching s'"
proof (induction rule: rtranclp_induct)
  case (step s1 s2)
  have "ct_watching s2 = ct_watching s1" if "task_step env path s1 s2"
    using that by (induction rule: task_step.induct) (auto simp: sent_defs split: selection.splits sum.splits error.splits)
  with step show ?case by (auto simp: control_step_def dest: task_step_up_to_date world_step_up_to_date)
qed simp

text \<open>No request for a full reload is under way.\<close>

definition no_full_request :: "control \<Rightarrow> bool" where
  "no_full_request s \<longleftrightarrow> ct_phase s = Selecting \<and> ct_full s = 0 \<and> ct_changes s = 0 \<and> \<not> ct_watcher_sends s"

text \<open>
  C11 (config_change_applied). Once the watcher is registered, and if the file had not changed before that, no
  change of the configuration file is missed: however signals, timer, changes, reloads and the queues
  of capacity four interleave, whenever no request is left the last reload has read the file as it
  is now; and if that reload succeeded, the daemon runs with the configuration in the file, the
  settings of the listener apart.
\<close>

theorem config_change_applied:
  assumes "main env (\<lambda>_. content) w tls_config path = Inr st"
    and "control_run env path target (control_init st content) s0" and "ct_watching s0" and "ct_read s0 = ct_file s0"
    and "control_run env path target s0 s" and "no_full_request s" and "is_absolute target"
  shows "ct_read s = ct_file s \<and> (is_ok (ct_result s) \<longrightarrow> runs_with env path (ct_file s) (ct_daemon s))"
proof -
  have "config_applied env path (control_init st content)"
    using assms(1) preserve_self
    by (auto simp: config_applied_def control_init_def runs_with_def main_def build_state_def)
  then have applied: "config_applied env path s" using assms(2,5) control_run_applied by blast
  have "up_to_date s" using control_run_up_to_date [OF assms(5,7,3)] assms(4) by (simp add: up_to_date_def)
  then have "ct_read s = ct_file s" using assms(6) by (auto simp: up_to_date_def no_full_request_def halted_def)
  with applied assms(6) show ?thesis by (simp add: config_applied_def no_full_request_def)
qed

definition resting :: "control \<Rightarrow> bool" where
  "resting s \<longleftrightarrow> no_full_request s \<and> \<not> ct_quit s \<and> ct_subs s = 0 \<and> \<not> ct_signalled s \<and> \<not> ct_signal_sends s
     \<and> \<not> ct_timer_sends s"

lemma resting_no_step: "resting s \<Longrightarrow> \<not> task_step env path s s'"
  by (auto simp: resting_def no_full_request_def main_select_def reloading_def elim: task_stepE)

text \<open>
  C33 (startup_change_missed). A change of the file between the start-up's reading of it and the registration of
  the watcher is missed: the daemon can come to rest, with the watcher running, no task having
  anything to do, and a file other than the one it has read.
\<close>

theorem startup_change_missed:
  "\<exists>s. control_run env path target (control_init st content) s \<and> ct_watching s \<and> resting s
     \<and> ct_read s = content \<and> ct_file s = new_content \<and> (\<forall>s'. \<not> task_step env path s s')"
proof -
  let ?s0 = "control_init st content"
  let ?s1 = "file_changed target EvModify new_content ?s0"
  let ?s2 = "?s1\<lparr>ct_watching := True\<rparr>"
  have "control_step env path target ?s0 ?s1" by (simp add: control_step_def world_step.change)
  moreover have "\<not> halted ?s1" by (simp add: halted_def file_changed_def control_init_def)
  then have "control_step env path target ?s1 ?s2" by (simp add: control_step_def world_step.watch_starts)
  ultimately have "control_run env path target ?s0 ?s2" by (meson converse_rtranclp_into_rtranclp r_into_rtranclp)
  moreover have "resting ?s2" "ct_read ?s2 = content" "ct_file ?s2 = new_content"
    by (simp_all add: resting_def no_full_request_def file_changed_def control_init_def)
  ultimately show ?thesis using resting_no_step by (intro exI [of _ ?s2]) auto
qed

subsection \<open>Requests are worked off\<close>

text \<open>A bound on the steps the tasks can still take on their own.\<close>

definition phase_work :: "phase \<Rightarrow> nat" where
  "phase_work p = (case p of Selecting \<Rightarrow> 1 | FullStarted \<Rightarrow> 3 | FullRead _ \<Rightarrow> 2 | SubsStarted \<Rightarrow> 3 | Halted _ \<Rightarrow> 0)"

definition work :: "control \<Rightarrow> nat" where
  "work s = phase_work (ct_phase s) + 3 * ct_full s + 3 * ct_subs s + 5 * ct_changes s
     + (if ct_signalled s then 5 else 0) + (if ct_signal_sends s then 4 else 0) + (if ct_watcher_sends s then 4 else 0)
     + (if ct_timer_sends s then 4 else 0)"

lemma reload_ended_work: "phase_work (ct_phase (reload_ended r s)) < 2"
  by (simp add: reload_ended_phase phase_work_def split: sum.split error.split)

lemma reload_ended_frame:
  "ct_full (reload_ended r s) = ct_full s" "ct_subs (reload_ended r s) = ct_subs s" "ct_changes (reload_ended r s) = ct_changes s"
  "ct_signalled (reload_ended r s) = ct_signalled s" "ct_signal_sends (reload_ended r s) = ct_signal_sends s"
  "ct_watcher_sends (reload_ended r s) = ct_watcher_sends s" "ct_timer_sends (reload_ended r s) = ct_timer_sends s"
  "ct_quit (reload_ended r s) = ct_quit s" "ct_timer (reload_ended r s) = ct_timer s"
  by (simp_all add: reload_ended_def split: sum.split error.split)

lemma task_step_work: "task_step env path s s' \<Longrightarrow> work s' < work s"
proof (induction rule: task_step.induct)
  case (full_ended s content i r)
  with reload_ended_work [of r s] show ?case by (simp add: work_def reload_ended_frame phase_work_def)
next
  case (subs_ended s i)
  with reload_ended_work [of "reload_subs env i (ct_daemon s)" s] show ?case
    by (simp add: work_def reload_ended_frame phase_work_def)
qed (auto simp: work_def phase_work_def main_select_def start_selected_def reloading_def sigusr1_taken_def sigusr1_sent_def
    change_taken_def watcher_sent_def timer_sent_def split: if_splits phase.splits)

text \<open>A reload can always read what it finds, at every attempt.\<close>

lemma constant_reads: "load_config_with_retry env (\<lambda>_ _. content) path = load (\<lambda>_. content) (dn_toml env) path"
proof -
  have "load_attempts env (\<lambda>_ _. content) path [Suc 0..<Suc max_attempts] = load (\<lambda>_. content) (dn_toml env) path"
    using load_attempts_outcome [of 0 env "\<lambda>_ _. content" path] by (auto simp: max_attempts_def simp del: upt_Suc)
  then show ?thesis by (simp add: load_config_with_retry_def del: upt_Suc)
qed

lemma full_can_end: "\<exists>i. load_config_with_retry env (ri_reads i) path = load (\<lambda>_. content) (dn_toml env) path"
  using constant_reads [of env content path]
  by (intro exI [of _ "undefined\<lparr>ri_reads := \<lambda>_ _. content\<rparr>"]) simp

lemma task_can_step:
  assumes "\<not> halted s" and "\<not> resting s"
  shows "\<exists>s'. task_step env path s s'"
proof (cases "ct_phase s")
  case Selecting
  show ?thesis
  proof (cases "main_select s")
    case None
    then have "\<not> ct_quit s" "ct_full s = 0" "ct_subs s = 0" by (auto simp: main_select_def split: if_splits)
    then have cap: "ct_full s < channel_capacity" "ct_subs s < channel_capacity"
      and "ct_changes s > 0 \<or> ct_watcher_sends s \<or> ct_signalled s \<or> ct_signal_sends s \<or> ct_timer_sends s"
      using assms Selecting by (auto simp: channel_capacity_def resting_def no_full_request_def)
    with assms(1) show ?thesis
      by (blast intro: task_step.sigusr1_take task_step.sigusr1_send task_step.change_take task_step.watcher_send
          task_step.timer_send)
  qed (use Selecting in \<open>auto intro: task_step.select\<close>)
next
  case FullStarted
  then have "reloading s" by (simp add: reloading_def)
  with FullStarted show ?thesis by (cases "ct_quit s") (blast intro: task_step.abandon task_step.full_read)+
next
  case (FullRead content)
  then have "reloading s" by (simp add: reloading_def)
  with FullRead full_can_end [of env path content] show ?thesis
    by (cases "ct_quit s") (blast intro: task_step.abandon task_step.full_ended)+
next
  case SubsStarted
  then have "reloading s" by (simp add: reloading_def)
  with SubsStarted show ?thesis by (cases "ct_quit s") (blast intro: task_step.abandon task_step.subs_ended)+
qed (use assms in \<open>simp add: halted_def\<close>)

text \<open>
  C13 (requests_worked_off). Left alone, the tasks always come to an end: their steps are well founded, and they
  stop only when the process has halted or nothing is requested any more. So every request that was
  made is taken up, none waits for a full queue for ever, and no task is stuck.
\<close>

theorem requests_worked_off:
  "wf {(s', s). task_step env path s s'}
   \<and> ((\<forall>s'. \<not> task_step env path s s') \<longleftrightarrow> halted s \<or> resting s)"
proof
  have "{(s', s). task_step env path s s'} \<subseteq> measure work" using task_step_work by auto
  then show "wf {(s', s). task_step env path s s'}" by (rule wf_subset [OF wf_measure])
  have "\<not> task_step env path s s'" if "halted s" for s'
    using that by (auto simp: halted_def reloading_def elim!: task_stepE split: phase.splits)
  then show "(\<forall>s'. \<not> task_step env path s s') \<longleftrightarrow> halted s \<or> resting s"
    using task_can_step resting_no_step by blast
qed

subsection \<open>Shutting down\<close>

text \<open>What the daemon serves, the pool apart, which the connections change.\<close>

definition served :: "daemon \<Rightarrow> config \<times> string \<times> validator \<times> nat option \<times> http_state" where
  "served d = (dm_config d, dm_log_filter d, rt_validator (dm_runtime d), rt_idle_timeout (dm_runtime d), dm_http d)"

lemma world_step_served: "world_step target s s' \<Longrightarrow> served (ct_daemon s') = served (ct_daemon s) \<and> ct_phase s' = ct_phase s"
  by (induction rule: world_step.induct) (simp_all add: sent_defs served_def)

text \<open>
  C14 (shutdown_comes_first). After the shutdown signal no reload starts or takes effect, even if requests are
  queued or a reload is running: the only step the loop still takes is to leave, and until then
  the daemon serves what it served.
\<close>

theorem shutdown_comes_first:
  assumes "control_run env path target s s'" and "ct_quit s"
  shows "served (ct_daemon s') = served (ct_daemon s) \<and> (ct_phase s' = ct_phase s \<or> ct_phase s' = Halted Exited)"
proof -
  have "ct_quit s' \<and> served (ct_daemon s') = served (ct_daemon s) \<and> (ct_phase s' = ct_phase s \<or> ct_phase s' = Halted Exited)"
    using assms
  proof (induction rule: rtranclp_induct)
    case (step s1 s2)
    then have inv: "ct_quit s1" "served (ct_daemon s1) = served (ct_daemon s)"
        "ct_phase s1 = ct_phase s \<or> ct_phase s1 = Halted Exited" by simp_all
    show ?case
    proof (cases "task_step env path s1 s2")
      case True
      then show ?thesis using inv
        by (cases rule: task_step.cases) (auto simp: main_select_def sent_defs)
    next
      case False
      with step.hyps(2) have w: "world_step target s1 s2" by (simp add: control_step_def)
      then have "ct_quit s2" using inv(1) by (induction rule: world_step.induct) (simp_all add: sent_defs)
      with inv world_step_served [OF w] show ?thesis by simp
    qed
  qed simp
  then show ?thesis by blast
qed

subsection \<open>The machine implements the event loop\<close>

text \<open>A reload does not depend on the pool, the outcome and what is served afterwards.\<close>

lemma install_validator_served:
  "rt_validator (install_validator i ls rt) = ls_validator ls" "rt_idle_timeout (install_validator i ls rt) = rt_idle_timeout rt"
  by (simp_all add: install_validator_def Let_def)

lemma reload_full_served:
  assumes "served d1 = served d2"
  shows "fst (reload_full env path i d1) = fst (reload_full env path i d2)
    \<and> served (snd (reload_full env path i d1)) = served (snd (reload_full env path i d2))"
  using assms
  by (simp add: reload_full_def served_def Let_def set_relay_idle_timeout_def install_validator_served
      split: sum.split prod.split)

lemma reload_subs_served:
  assumes "served d1 = served d2"
  shows "fst (reload_subs env i d1) = fst (reload_subs env i d2)
    \<and> served (snd (reload_subs env i d1)) = served (snd (reload_subs env i d2))"
  using assms by (simp add: reload_subs_def served_def Let_def install_validator_served split: sum.split)

text \<open>The process the machine stands for.\<close>

definition control_process :: "control \<Rightarrow> process" where
  "control_process s = (case ct_phase s of Halted p \<Rightarrow> p | _ \<Rightarrow> Running (ct_daemon s))"

fun same_process :: "process \<Rightarrow> process \<Rightarrow> bool" where
  "same_process (Running d) (Running d') \<longleftrightarrow> served d = served d'"
| "same_process p q \<longleftrightarrow> p = q"

lemma same_process_refl [simp]: "same_process p p"
  by (cases p) simp_all

lemma same_process_trans: "same_process p q \<Longrightarrow> same_process q r \<Longrightarrow> same_process p r"
  by (cases p; cases q; cases r) simp_all

text \<open>What the loop does on a sequence of events, from a process that may have stopped.\<close>

definition resume :: "daemon_env \<Rightarrow> string \<Rightarrow> daemon_event list \<Rightarrow> process \<Rightarrow> process" where
  "resume env path evs p = (case p of Running d \<Rightarrow> main_loop env path evs d | stopped \<Rightarrow> stopped)"

lemma main_loop_append: "main_loop env path (evs @ evs') d = resume env path evs' (main_loop env path evs d)"
  by (induction evs arbitrary: d) (auto simp: resume_def split: process.split)

lemma resume_Nil [simp]: "resume env path [] p = p"
  by (simp add: resume_def split: process.split)

lemma resume_event [simp]: "resume env path [ev] (Running d) = loop_step env path ev d"
  by (simp add: resume_def split: process.split)

text \<open>
  What can be seen of a run: the states it goes through, two by two; the event the loop has finished with in a
  step; and the requests that were made in it. Several signals that were not taken yet are one.
\<close>

fun steps :: "control list \<Rightarrow> (control \<times> control) list" where
  "steps (s # s' # ss) = (s, s') # steps (s' # ss)"
| "steps _ = []"

definition finished :: "control \<Rightarrow> control \<Rightarrow> selection list" where
  "finished s s' =
     (if halted s' \<or> ct_phase s' = Selecting then
        (case ct_phase s of
           Selecting \<Rightarrow> if halted s' then [SelectQuit] else []
         | SubsStarted \<Rightarrow> [SelectSubs]
         | Halted _ \<Rightarrow> []
         | _ \<Rightarrow> [SelectFull])
      else [])"

fun selection_of :: "daemon_event \<Rightarrow> selection" where
  "selection_of Shutdown = SelectQuit"
| "selection_of (FullReload _ _) = SelectFull"
| "selection_of (SubsReload _ _) = SelectSubs"

definition full_requested :: "control \<Rightarrow> control \<Rightarrow> nat" where
  "full_requested s s' = (ct_changes s' - ct_changes s) + of_bool (\<not> ct_signalled s \<and> ct_signalled s')"

definition subs_requested :: "control \<Rightarrow> control \<Rightarrow> nat" where
  "subs_requested s s' = of_bool (\<not> ct_timer_sends s \<and> ct_timer_sends s')"

text \<open>Requests on their way: not taken yet, being sent, queued, or being worked on.\<close>

definition full_under_way :: "control \<Rightarrow> nat" where
  "full_under_way s = ct_changes s + of_bool (ct_watcher_sends s) + of_bool (ct_signalled s) + of_bool (ct_signal_sends s)
     + ct_full s + (case ct_phase s of FullStarted \<Rightarrow> 1 | FullRead _ \<Rightarrow> 1 | _ \<Rightarrow> 0)"

definition subs_under_way :: "control \<Rightarrow> nat" where
  "subs_under_way s = of_bool (ct_timer_sends s) + ct_subs s + of_bool (ct_phase s = SubsStarted)"

text \<open>A refresh starts only when no full reload is queued, and no reload starts or ends after the shutdown signal.\<close>

definition in_order :: "control \<Rightarrow> control \<Rightarrow> bool" where
  "in_order s s' \<longleftrightarrow>
     (ct_phase s = Selecting \<and> ct_phase s' = SubsStarted \<longrightarrow> ct_full s = 0)
     \<and> (ct_phase s = Selecting \<and> reloading s' \<or> reloading s \<and> ct_phase s' = Selecting \<longrightarrow> \<not> ct_quit s)"

definition implements :: "daemon_env \<Rightarrow> string \<Rightarrow> control \<Rightarrow> daemon_event list \<Rightarrow> control \<Rightarrow> bool" where
  "implements env path s evs s' \<longleftrightarrow> map selection_of evs = finished s s'
     \<and> (\<forall>p. same_process (control_process s) p \<longrightarrow> same_process (control_process s') (resume env path evs p))"

lemma reload_ended_process:
  "control_process ((reload_ended r s)\<lparr>ct_result := x\<rparr>)
     = (case fst r of Inl (Panic m) \<Rightarrow> Crashed m | _ \<Rightarrow> Running (snd r))"
  "control_process (reload_ended r s) = (case fst r of Inl (Panic m) \<Rightarrow> Crashed m | _ \<Rightarrow> Running (snd r))"
  by (simp_all add: control_process_def reload_ended_def split: sum.split error.split)

lemma reload_ended_finished:
  "finished s ((reload_ended r s)\<lparr>ct_result := x\<rparr>) = finished s (reload_ended r s)"
  "ct_phase s \<noteq> Selecting \<Longrightarrow> finished s (reload_ended r s)
     = (case ct_phase s of SubsStarted \<Rightarrow> [SelectSubs] | Halted _ \<Rightarrow> [] | _ \<Rightarrow> [SelectFull])"
  by (auto simp: finished_def halted_def reload_ended_def split: sum.split error.split phase.split)

lemma running_sameD: "same_process (Running d) p \<Longrightarrow> \<exists>d'. p = Running d' \<and> served d' = served d"
  by (cases p) simp_all

lemma implements_nothing:
  "finished s s' = [] \<Longrightarrow> same_process (control_process s') (control_process s) \<Longrightarrow> implements env path s [] s'"
  using same_process_trans by (auto simp: implements_def)

lemma implements_event:
  assumes "control_process s = Running d" and "finished s s' = [selection_of ev]"
    and "\<And>d'. served d' = served d \<Longrightarrow> same_process (control_process s') (loop_step env path ev d')"
  shows "implements env path s [ev] s'"
  using assms by (auto simp: implements_def dest!: running_sameD)

lemma full_implemented:
  assumes "control_process s = Running d" and "r = reload_full env path i d" and "finished s s' = [SelectFull]"
    and "control_process s' = (case fst r of Inl (Panic m) \<Rightarrow> Crashed m | _ \<Rightarrow> Running (snd r))"
  shows "implements env path s [FullReload i False] s'"
proof (rule implements_event [OF assms(1)])
  show "same_process (control_process s') (loop_step env path (FullReload i False) d')" if "served d' = served d" for d'
    using reload_full_served [OF that, of env path i] assms(2,4)
    by (auto simp: loop_step_def Let_def split: sum.split error.split)
qed (simp add: assms(3))

lemma subs_implemented:
  assumes "control_process s = Running d" and "r = reload_subs env i d" and "finished s s' = [SelectSubs]"
    and "control_process s' = (case fst r of Inl (Panic m) \<Rightarrow> Crashed m | _ \<Rightarrow> Running (snd r))"
  shows "implements env path s [SubsReload i False] s'"
proof (rule implements_event [OF assms(1)])
  show "same_process (control_process s') (loop_step env path (SubsReload i False) d')" if "served d' = served d" for d'
    using reload_subs_served [OF that, of env i] assms(2,4)
    by (auto simp: loop_step_def Let_def split: sum.split error.split)
qed (simp add: assms(3))

lemma task_step_implements: "task_step env path s s' \<Longrightarrow> \<exists>evs. implements env path s evs s'"
proof (induction rule: task_step.induct)
  case (select s sel)
  show ?case
  proof (cases sel)
    case SelectQuit
    with select have "implements env path s [Shutdown] (start_selected sel s)"
      by (intro implements_event [of s "ct_daemon s"])
        (simp_all add: control_process_def start_selected_def finished_def halted_def loop_step_def)
    then show ?thesis ..
  qed (use select in \<open>intro exI [of _ "[]"] implements_nothing;
      simp add: control_process_def start_selected_def finished_def halted_def\<close>)+
next
  case (abandon s)
  define ev where "ev = (if ct_phase s = SubsStarted then SubsReload undefined True else FullReload undefined True)"
  have "implements env path s [ev] (s\<lparr>ct_phase := Halted Exited\<rparr>)"
    using abandon
    by (intro implements_event [of s "ct_daemon s"])
      (auto simp: ev_def control_process_def reloading_def finished_def halted_def loop_step_def split: phase.splits)
  then show ?case ..
next
  case (full_read s)
  then show ?case
    by (intro exI [of _ "[]"] implements_nothing) (simp_all add: control_process_def finished_def halted_def)
next
  case (full_ended s content i r)
  then have "control_process s = Running (ct_daemon s)" by (simp add: control_process_def)
  moreover have "finished s ((reload_ended r s)\<lparr>ct_result := fst r\<rparr>) = [SelectFull]"
    using full_ended.hyps(1) by (simp add: reload_ended_finished)
  ultimately show ?case using full_implemented [OF _ full_ended.hyps(4)] reload_ended_process(1) by blast
next
  case (subs_ended s i)
  then have "control_process s = Running (ct_daemon s)" by (simp add: control_process_def)
  moreover have "finished s (reload_ended (reload_subs env i (ct_daemon s)) s) = [SelectSubs]"
    using subs_ended.hyps(1) by (simp add: reload_ended_finished)
  ultimately show ?case using subs_implemented [OF _ refl] reload_ended_process(2) by blast
qed (intro exI [of _ "[]"] implements_nothing;
    auto simp: control_process_def finished_def halted_def sigusr1_taken_def sigusr1_sent_def change_taken_def watcher_sent_def
      timer_sent_def split: phase.split)+

lemma world_step_implements: "world_step target s s' \<Longrightarrow> implements env path s [] s'"
  using world_step_served [of target s s']
  by (intro implements_nothing) (auto simp: control_process_def finished_def halted_def split: phase.split)

text \<open>No step loses a request or makes one up, and each respects the order.\<close>

definition conserves :: "control \<Rightarrow> control \<Rightarrow> bool" where
  "conserves s s' \<longleftrightarrow> full_under_way s' + count_list (finished s s') SelectFull = full_under_way s + full_requested s s'
     \<and> subs_under_way s' + count_list (finished s s') SelectSubs = subs_under_way s + subs_requested s s' \<and> in_order s s'"

lemma reload_ended_conserves:
  assumes "reloading s" and "\<not> ct_quit s" and "ct_phase s \<noteq> FullStarted"
  shows "conserves s (reload_ended r s)"
proof -
  have p: "ct_phase (reload_ended r s) = Selecting \<or> halted (reload_ended r s)"
    by (simp add: reload_ended_phase halted_def split: sum.split error.split)
  then have "full_under_way (reload_ended r s) + of_bool (ct_phase s \<noteq> SubsStarted) = full_under_way s"
      "subs_under_way (reload_ended r s) + of_bool (ct_phase s = SubsStarted) = subs_under_way s"
    using assms(1,3) by (auto simp: full_under_way_def subs_under_way_def reload_ended_frame reloading_def halted_def split: phase.splits)
  moreover have "finished s (reload_ended r s) = [if ct_phase s = SubsStarted then SelectSubs else SelectFull]"
    using assms(1) reload_ended_finished(2) [of s r] by (auto simp: reloading_def split: phase.splits)
  moreover have "full_requested s (reload_ended r s) = 0" "subs_requested s (reload_ended r s) = 0"
    by (simp_all add: full_requested_def subs_requested_def reload_ended_frame)
  moreover have "in_order s (reload_ended r s)" using assms by (auto simp: in_order_def reloading_def)
  ultimately show ?thesis by (simp add: conserves_def split: if_splits)
qed

lemmas conserves_defs = conserves_def full_under_way_def full_requested_def subs_under_way_def subs_requested_def
  in_order_def finished_def halted_def reloading_def

lemma task_step_conserves: "task_step env path s s' \<Longrightarrow> conserves s s'"
proof (induction rule: task_step.induct)
  case (select s sel)
  then show ?case
    by (cases sel) (auto simp: conserves_defs main_select_def start_selected_def split: if_splits)
next
  case (full_ended s content i r)
  have "conserves s ((reload_ended r s)\<lparr>ct_result := fst r\<rparr>) = conserves s (reload_ended r s)"
    by (simp add: conserves_defs)
  with full_ended show ?case using reload_ended_conserves by (simp add: reloading_def)
next
  case (subs_ended s i)
  then show ?case using reload_ended_conserves by (simp add: reloading_def)
qed (auto simp: conserves_defs sigusr1_taken_def sigusr1_sent_def change_taken_def watcher_sent_def timer_sent_def
    split: phase.splits)

lemma world_step_conserves: "world_step target s s' \<Longrightarrow> conserves s s'"
  by (induction rule: world_step.induct)
    (auto simp: conserves_defs shutdown_sent_def file_changed_def pruner_tick_def split: phase.splits)

lemma step_conserves: "control_step env path target s s' \<Longrightarrow> conserves s s'"
  using task_step_conserves world_step_conserves by (auto simp: control_step_def)

lemma steps_snoc: "ss \<noteq> [] \<Longrightarrow> steps (ss @ [s]) = steps ss @ [(last ss, s)]"
  by (induction ss rule: steps.induct) simp_all

text \<open>
  C12 (control_refines_loop). Whatever the tasks, the channels and the environment do, the process behaves as the
  event loop does on the events it has seen to: it is running and serves what the loop serves then, or
  it has exited or crashed as the loop does. The events are of the kinds that were selected, in that
  order. Nothing is lost and nothing invented: the full reloads done and those under way are
  as many as the changes and signals that asked for one, and the refreshes as many as the ticks of the
  timer. A refresh starts only when no full reload is queued, and no reload starts or ends after
  the shutdown signal.
\<close>

theorem control_refines_loop:
  assumes "ss \<noteq> []" and "hd ss = control_init st content"
    and "list_all (\<lambda>(s, s'). control_step env path target s s') (steps ss)"
  shows "\<exists>evs. map selection_of evs = concat (map (\<lambda>(s, s'). finished s s') (steps ss))
    \<and> same_process (control_process (last ss)) (main_loop env path evs (st_daemon st))
    \<and> count_list (map selection_of evs) SelectFull + full_under_way (last ss)
        = sum_list (map (\<lambda>(s, s'). full_requested s s') (steps ss))
    \<and> count_list (map selection_of evs) SelectSubs + subs_under_way (last ss)
        = sum_list (map (\<lambda>(s, s'). subs_requested s s') (steps ss))
    \<and> list_all (\<lambda>(s, s'). in_order s s') (steps ss)"
  using assms
proof (induction ss rule: rev_induct)
  case (snoc s ss)
  show ?case
  proof (cases "ss = []")
    case True
    with snoc.prems(2) show ?thesis
      by (intro exI [of _ "[]"])
        (simp add: control_process_def control_init_def full_under_way_def subs_under_way_def)
  next
    case False
    note snoc_steps = steps_snoc [OF False, of s]
    have step: "control_step env path target (last ss) s" and prev: "list_all (\<lambda>(s, s'). control_step env path target s s') (steps ss)"
      using snoc.prems(3) by (simp_all add: snoc_steps)
    have "hd ss = control_init st content" using snoc.prems(2) False by simp
    from snoc.IH [OF False this prev] obtain evs where
      evs: "map selection_of evs = concat (map (\<lambda>(s, s'). finished s s') (steps ss))"
        "same_process (control_process (last ss)) (main_loop env path evs (st_daemon st))"
        "count_list (map selection_of evs) SelectFull + full_under_way (last ss)
          = sum_list (map (\<lambda>(s, s'). full_requested s s') (steps ss))"
        "count_list (map selection_of evs) SelectSubs + subs_under_way (last ss)
          = sum_list (map (\<lambda>(s, s'). subs_requested s s') (steps ss))"
        "list_all (\<lambda>(s, s'). in_order s s') (steps ss)"
      by blast
    obtain evs' where evs': "map selection_of evs' = finished (last ss) s"
        "\<And>p. same_process (control_process (last ss)) p \<Longrightarrow> same_process (control_process s) (resume env path evs' p)"
      using step task_step_implements world_step_implements unfolding control_step_def implements_def by metis
    show ?thesis
      using evs evs'(2) [OF evs(2)] step_conserves [OF step] unfolding conserves_def
      by (intro exI [of _ "evs @ evs'"]) (simp add: snoc_steps evs'(1) main_loop_append)
  qed
qed simp

text \<open>The bounds of the two channels, and the period of the timer, which no reload changes.\<close>

lemma control_run_bounds:
  assumes "control_run env path target s s'" and "ct_full s \<le> channel_capacity" and "ct_subs s \<le> channel_capacity"
  shows "ct_full s' \<le> channel_capacity \<and> ct_subs s' \<le> channel_capacity \<and> ct_timer s' = ct_timer s"
  using assms
proof (induction rule: rtranclp_induct)
  case (step s1 s2)
  then have "ct_full s1 \<le> channel_capacity \<and> ct_subs s1 \<le> channel_capacity \<and> ct_timer s1 = ct_timer s" by simp
  moreover have "ct_full s2 \<le> channel_capacity \<and> ct_subs s2 \<le> channel_capacity \<and> ct_timer s2 = ct_timer s1"
    if "task_step env path s1 s2" "ct_full s1 \<le> channel_capacity" "ct_subs s1 \<le> channel_capacity"
    using that by (induction rule: task_step.induct) (auto simp: sent_defs split: selection.splits sum.splits error.splits)
  moreover have "ct_full s2 = ct_full s1 \<and> ct_subs s2 = ct_subs s1 \<and> ct_timer s2 = ct_timer s1" if "world_step target s1 s2"
    using that by (induction rule: world_step.induct) (simp_all add: sent_defs)
  ultimately show ?case using step.hyps(2) by (auto simp: control_step_def)
qed simp

text \<open>
  The channels never hold more than four requests each, and the period of the
  subscription timer is the one of the configuration the process was started with, whatever period
  the configuration of a later reload asks for.
\<close>

theorem timer_period_fixed:
  assumes "main env reads w tls_config path = Inr st" and "control_run env path target (control_init st content) s"
  shows "ct_full s \<le> 4 \<and> ct_subs s \<le> 4 \<and> ct_timer s = spawn_subscription_timer (dm_config (st_daemon st))"
proof -
  have "st_timer st = spawn_subscription_timer (dm_config (st_daemon st))"
    using assms(1) by (auto simp: main_def build_state_def)
  with control_run_bounds [OF assms(2)] show ?thesis by (simp add: control_init_def channel_capacity_def)
qed

subsection \<open>A run\<close>

text \<open>The watcher starts, the file changes, and the daemon reloads it.\<close>

lemma steps_run:
  assumes "ss \<noteq> []" and "list_all (\<lambda>(s, s'). control_step env path target s s') (steps ss)"
  shows "control_run env path target (hd ss) (last ss)"
  using assms by (induction ss rule: steps.induct) (auto intro: converse_rtranclp_into_rtranclp)

lemma sample_states:
  assumes "s0 = (control_init st content)\<lparr>ct_watching := True\<rparr>"
  obtains ss where "ss \<noteq> []" "hd ss = s0" "list_all (\<lambda>(s, s'). control_step sample_daemon_env ''c'' ''/c'' s s') (steps ss)"
    "no_full_request (last ss)" "is_ok (ct_result (last ss))" "ct_file (last ss) = Inr ''new''" "\<not> halted (last ss)"
    "concat (map (\<lambda>(s, s'). finished s s') (steps ss)) = [SelectFull]"
proof -
  let ?step = "control_step sample_daemon_env ''c'' ''/c''"
  define s1 where "s1 = file_changed ''/c'' EvModify (Inr ''new'') s0"
  define s2 where "s2 = change_taken s1"
  define s3 where "s3 = watcher_sent s2"
  define s4 where "s4 = start_selected SelectFull s3"
  define s5 where "s5 = s4\<lparr>ct_phase := FullRead (ct_file s4), ct_read := ct_file s4\<rparr>"
  obtain n d where r: "reload_full sample_daemon_env ''c'' (sample_input ''new'') (ct_daemon s5) = (Inr n, d)"
    using sample_reload .
  define s6 where "s6 = (reload_ended (Inr n, d) s5)\<lparr>ct_result := Inr n\<rparr>"
  have "triggers_reload ''/c'' EvModify [''/c'']" by (rule triggers_own) (simp_all add: is_absolute_def starts_with_def)
  note simps = assms control_init_def s1_def s2_def s3_def s4_def s5_def s6_def file_changed_def change_taken_def
    watcher_sent_def start_selected_def reload_ended_def halted_def main_select_def this
  have "?step s0 s1" by (simp add: control_step_def s1_def world_step.change)
  moreover have "?step s1 s2" unfolding s2_def control_step_def by (intro disjI1 task_step.change_take) (simp_all add: simps)
  moreover have "?step s2 s3"
    unfolding s3_def control_step_def by (intro disjI1 task_step.watcher_send) (simp_all add: simps channel_capacity_def)
  moreover have "?step s3 s4" unfolding s4_def control_step_def by (intro disjI1 task_step.select) (simp_all add: simps)
  moreover have "?step s4 s5" unfolding s5_def control_step_def by (intro disjI1 task_step.full_read) (simp_all add: simps)
  moreover have "?step s5 s6"
  proof -
    have "load_config_with_retry sample_daemon_env (ri_reads (sample_input ''new'')) ''c''
        = load (\<lambda>_. Inr ''new'') (dn_toml sample_daemon_env) ''c''"
      using constant_reads by (simp add: sample_input_def)
    moreover have "ct_phase s5 = FullRead (Inr ''new'')" "\<not> ct_quit s5" by (simp_all add: simps)
    ultimately show ?thesis
      using task_step.full_ended [of s5 "Inr ''new''" sample_daemon_env "sample_input ''new''" "''c''" "(Inr n, d)"] r
      by (simp add: control_step_def s6_def)
  qed
  ultimately have "list_all (\<lambda>(s, s'). ?step s s') (steps [s0, s1, s2, s3, s4, s5, s6])" by simp
  moreover have "no_full_request s6" "is_ok (ct_result s6)" "ct_file s6 = Inr ''new''" "\<not> halted s6"
    by (simp_all add: simps no_full_request_def is_ok_iff)
  moreover have "concat (map (\<lambda>(s, s'). finished s s') (steps [s0, s1, s2, s3, s4, s5, s6])) = [SelectFull]"
    by (simp add: simps finished_def)
  ultimately show thesis using that [of "[s0, s1, s2, s3, s4, s5, s6]"] by simp
qed

lemma sample_run:
  assumes "s0 = (control_init st content)\<lparr>ct_watching := True\<rparr>"
  obtains s where "control_run sample_daemon_env ''c'' ''/c'' s0 s" "no_full_request s" "is_ok (ct_result s)"
    "ct_file s = Inr ''new''" "\<not> halted s"
proof -
  obtain ss where "ss \<noteq> []" "hd ss = s0" "list_all (\<lambda>(s, s'). control_step sample_daemon_env ''c'' ''/c'' s s') (steps ss)"
      "no_full_request (last ss)" "is_ok (ct_result (last ss))" "ct_file (last ss) = Inr ''new''" "\<not> halted (last ss)"
    using sample_states [OF assms] .
  with steps_run [of ss] that show thesis by blast
qed

lemma sample_watching:
  "control_run env path target (control_init st content) ((control_init st content)\<lparr>ct_watching := True\<rparr>)"
proof -
  have "\<not> halted (control_init st content)" by (simp add: halted_def control_init_def)
  then show ?thesis by (intro r_into_rtranclp) (simp add: control_step_def world_step.watch_starts)
qed

theorem config_change_applied_witness:
  "\<exists>st s. control_run sample_daemon_env ''c'' ''/c'' (control_init st (Inr '''')) s \<and> ct_read s = Inr ''new''
     \<and> runs_with sample_daemon_env ''c'' (Inr ''new'') (ct_daemon s)"
proof -
  obtain st where st: "main sample_daemon_env (\<lambda>_. Inr '''') offline_world (Inr ()) ''c'' = Inr st" using sample_main .
  let ?s0 = "(control_init st (Inr ''''))\<lparr>ct_watching := True\<rparr>"
  obtain s where s: "control_run sample_daemon_env ''c'' ''/c'' ?s0 s" "no_full_request s" "is_ok (ct_result s)"
      "ct_file s = Inr ''new''"
    using sample_run [OF refl] .
  have "ct_read s = ct_file s \<and> (is_ok (ct_result s) \<longrightarrow> runs_with sample_daemon_env ''c'' (ct_file s) (ct_daemon s))"
    using sample_watching _ _ s(1,2) _
    by (rule config_change_applied [OF st]) (simp_all add: control_init_def is_absolute_def starts_with_def)
  with s sample_watching show ?thesis by (metis rtranclp_trans)
qed

theorem timer_period_fixed_witness:
  "\<exists>st s. control_run sample_daemon_env ''c'' ''/c'' (control_init st (Inr '''')) s
     \<and> ct_timer s = spawn_subscription_timer (dm_config (st_daemon st)) \<and> ct_file s = Inr ''new''"
proof -
  obtain st where st: "main sample_daemon_env (\<lambda>_. Inr '''') offline_world (Inr ()) ''c'' = Inr st" using sample_main .
  obtain s where s: "control_run sample_daemon_env ''c'' ''/c'' ((control_init st (Inr ''''))\<lparr>ct_watching := True\<rparr>) s"
      "ct_file s = Inr ''new''"
    using sample_run [OF refl] .
  have "control_run sample_daemon_env ''c'' ''/c'' (control_init st (Inr '''')) s"
    using sample_watching s(1) by (rule rtranclp_trans)
  with timer_period_fixed [OF st this] s(2) show ?thesis by blast
qed

text \<open>The run reloads once, for the one change, and ends as the loop does after that reload.\<close>

theorem control_refines_loop_witness:
  "\<exists>st ss i dropped. hd ss = control_init st (Inr '''')
     \<and> list_all (\<lambda>(s, s'). control_step sample_daemon_env ''c'' ''/c'' s s') (steps ss) \<and> no_full_request (last ss)
     \<and> ct_file (last ss) = Inr ''new''
     \<and> same_process (control_process (last ss)) (main_loop sample_daemon_env ''c'' [FullReload i dropped] (st_daemon st))
     \<and> Suc (full_under_way (last ss)) = sum_list (map (\<lambda>(s, s'). full_requested s s') (steps ss))"
proof -
  obtain st where "main sample_daemon_env (\<lambda>_. Inr '''') offline_world (Inr ()) ''c'' = Inr st" using sample_main .
  let ?c = "control_init st (Inr '''')"
  obtain ss where ss: "ss \<noteq> []" "hd ss = ?c\<lparr>ct_watching := True\<rparr>"
      "list_all (\<lambda>(s, s'). control_step sample_daemon_env ''c'' ''/c'' s s') (steps ss)" "no_full_request (last ss)"
      "ct_file (last ss) = Inr ''new''" "concat (map (\<lambda>(s, s'). finished s s') (steps ss)) = [SelectFull]"
    using sample_states [OF refl] .
  have "\<not> halted ?c" by (simp add: halted_def control_init_def)
  then have first: "control_step sample_daemon_env ''c'' ''/c'' ?c (hd ss)"
    unfolding ss(2) by (simp add: control_step_def world_step.watch_starts)
  have st: "steps (?c # ss) = (?c, hd ss) # steps ss" using ss(1) by (cases ss) simp_all
  have fin: "finished ?c (hd ss) = []" unfolding ss(2) by (simp add: finished_def halted_def control_init_def)
  have "list_all (\<lambda>(s, s'). control_step sample_daemon_env ''c'' ''/c'' s s') (steps (?c # ss))" using first ss(3) st by simp
  from control_refines_loop [OF list.distinct(2) list.sel(1) this] obtain evs where
    raw: "map selection_of evs = concat (map (\<lambda>(s, s'). finished s s') (steps (?c # ss)))"
      "same_process (control_process (last (?c # ss))) (main_loop sample_daemon_env ''c'' evs (st_daemon st))"
      "count_list (map selection_of evs) SelectFull + full_under_way (last (?c # ss))
        = sum_list (map (\<lambda>(s, s'). full_requested s s') (steps (?c # ss)))"
    by blast
  have k: "map selection_of evs = [SelectFull]" unfolding raw(1) st using fin ss(6) by simp
  have evs: "same_process (control_process (last ss)) (main_loop sample_daemon_env ''c'' evs (st_daemon st))"
      "Suc (full_under_way (last ss)) = sum_list (map (\<lambda>(s, s'). full_requested s s') (steps (?c # ss)))"
    using raw(2,3) ss(1) unfolding k by simp_all
  obtain i dropped where "evs = [FullReload i dropped]"
    using k by (cases "hd evs") (auto simp: map_eq_Cons_conv)
  with evs ss(1,4,5) \<open>list_all _ (steps (?c # ss))\<close> show ?thesis
    by (intro exI [of _ st] exI [of _ "?c # ss"] exI [of _ i] exI [of _ dropped]) simp
qed

theorem shutdown_comes_first_witness:
  "\<exists>(st :: started) s s'. ct_full s = 1 \<and> control_run sample_daemon_env ''c'' ''/c'' s s' \<and> ct_phase s' = Halted Exited
     \<and> served (ct_daemon s') = served (st_daemon st)"
proof -
  obtain st where "main sample_daemon_env (\<lambda>_. Inr '''') offline_world (Inr ()) ''c'' = Inr st" using sample_main .
  let ?s = "shutdown_sent ((control_init st (Inr ''''))\<lparr>ct_full := 1\<rparr>)"
  have "control_step sample_daemon_env ''c'' ''/c'' ?s (start_selected SelectQuit ?s)"
    unfolding control_step_def
    by (intro disjI1 task_step.select) (simp_all add: control_init_def main_select_def shutdown_sent_def)
  then have run: "control_run sample_daemon_env ''c'' ''/c'' ?s (start_selected SelectQuit ?s)" by (rule r_into_rtranclp)
  have "served (ct_daemon (start_selected SelectQuit ?s)) = served (ct_daemon ?s)"
    using shutdown_comes_first [OF run] by (simp add: shutdown_sent_def)
  with run show ?thesis
    by (intro exI [of _ st] exI [of _ ?s] exI [of _ "start_selected SelectQuit ?s"])
      (simp add: start_selected_def shutdown_sent_def control_init_def)
qed

end
