(* ===== verification/Published_Links.thy ===== *)
theory Published_Links
  imports Http_Server "HOL-Library.Multiset"
begin

text \<open>
  The composition of the link writer of \<^verbatim>\<open>src/http/server.rs\<close> with the link parser of
  \<^verbatim>\<open>src/subscription/parser.rs\<close>: what a client, or another instance of the program, reads from a published
  link, for the v2rayN and for the Shadowrocket format. The JSON printer may order the fields of an object as it
  likes; reading the fields does not depend on their order.
\<close>

subsection \<open>The JSON object\<close>

lemma parse_i64_two: "parse_i64 ''2'' = Some 2"
proof -
  have "show_nat 2 = ''2''" by code_simp
  with parse_i64_show [of 2] show ?thesis by simp
qed

lemma string_or_int_show: "n < 2 ^ 63 \<Longrightarrow> string_or_int (JStr (show_nat n)) = Inr (int n)"
  by (simp add: parse_i64_show)

definition published_opts :: "vmess_node \<Rightarrow> output_config \<Rightarrow> relay_network \<Rightarrow> string \<Rightarrow> v2rayn_json" where
  "published_opts n out network service =
     (let is_grpc = (network = RelayGrpc) in
      \<lparr>v_v = 2, v_ps = n_name n, v_add = oc_host out, v_port = int (oc_port out), v_id = n_uuid n,
       v_aid = int (n_alter_id n), v_net = (if is_grpc then ''grpc'' else ''tcp''), v_type = ''none'', v_host = '''',
       v_path = (if is_grpc then service else ''''), v_tls = (if is_grpc then ''tls'' else ''''),
       v_sni = (if is_grpc then or_default (oc_sni out) '''' else ''''), v_scy = n_security n,
       v_packet_encoding = PacketDefault\<rparr>)"

lemma published_json:
  assumes "oc_port out < 2 ^ 63" and "n_alter_id n < 2 ^ 63"
  shows "v2rayn_deserialize (vmess_json n out network service) = Inr (published_opts n out network service)"
  using string_or_int_show [OF assms(1)] string_or_int_show [OF assms(2)] parse_i64_two
  by (cases "network = RelayGrpc \<and> oc_skip_cert_verify out")
    (simp_all add: vmess_json_def Let_def v2rayn_from_fields_def json_field_def field_name_def published_opts_def)

text \<open>The order of the fields does not matter.\<close>

lemma case_single_perm:
  assumes "mset xs = mset ys"
  shows "(case xs of [] \<Rightarrow> a | [x] \<Rightarrow> g x | _ \<Rightarrow> b) = (case ys of [] \<Rightarrow> a | [x] \<Rightarrow> g x | _ \<Rightarrow> b)"
proof -
  have "length xs = length ys" using assms by (metis size_mset)
  then show ?thesis using assms by (auto split: list.splits)
qed

lemma json_field_perm: "mset fs' = mset fs \<Longrightarrow> json_field fs' name f d = json_field fs name f d"
  unfolding json_field_def by (rule case_single_perm) (simp only: mset_filter)

fun same_object :: "json \<Rightarrow> json \<Rightarrow> bool" where
  "same_object (JObj fs) (JObj fs') \<longleftrightarrow> mset fs = mset fs'"
| "same_object a b \<longleftrightarrow> a = b"

lemma v2rayn_same_object:
  assumes "same_object j' j"
  shows "v2rayn_deserialize j' = v2rayn_deserialize j"
proof (cases "\<exists>fs' fs. j' = JObj fs' \<and> j = JObj fs")
  case True
  then obtain fs' fs where js: "j' = JObj fs'" "j = JObj fs" and m: "mset fs' = mset fs" using assms by auto
  show ?thesis unfolding js v2rayn_deserialize.simps v2rayn_from_fields_def json_field_perm [OF m] ..
next
  case False
  with assms have "j' = j" by (cases "(j', j)" rule: same_object.cases) auto
  then show ?thesis by simp
qed

subsection \<open>The v2rayN link\<close>

text \<open>
  What the composition relies on. The base64 engine writes visible ASCII text and its decoder gives
  the input back; the JSON reader gives back the fields the printer printed, as UTF-8; and a URL
  of the form \<^verbatim>\<open>vmess://\<close> with a base64 text has neither a user name nor a query.
\<close>

definition visible_ascii :: "string \<Rightarrow> bool" where
  "visible_ascii s \<longleftrightarrow> s \<noteq> [] \<and> is_ascii s \<and> list_all (\<lambda>c. \<not> is_whitespace (of_char c)) s"

definition link_codec :: "http_env \<Rightarrow> json \<Rightarrow> bool" where
  "link_codec env j \<longleftrightarrow>
     (let text = he_json_to_string env j; code = he_b64_encode env text in
      visible_ascii code \<and> b64_standard (he_parse env) code = Some text \<and> from_utf8 text = Some text
      \<and> (\<exists>j'. json_from_str (he_parse env) text = Some j' \<and> same_object j' j)
      \<and> (\<exists>u. url_parse (he_parse env) (''vmess://'' @ code) = Some u \<and> url_username u = [] \<and> url_query u = None))"

lemma lower_networks: "to_ascii_lowercase ''grpc'' = ''grpc''" "to_ascii_lowercase ''tcp'' = ''tcp''"
  by code_simp+

lemma trim_link: "visible_ascii s \<Longrightarrow> trim (''vmess://'' @ s) = ''vmess://'' @ s"
  by (rule trim_ascii_id) (auto simp: visible_ascii_def is_ascii_def list_all_iff is_whitespace_def)

lemma published_link_node:
  assumes "link_codec env (vmess_json n out network service)"
    and "node_wf n" and "1 \<le> oc_port out" and "oc_port out \<le> 65535" and "oc_host out \<noteq> []"
  shows "parse_vmess_link (he_parse env) (build_vmess_json_link env n out network service)
    = Inr \<lparr>n_name = n_name n, n_source = empty_source, n_server = oc_host out, n_port = oc_port out,
           n_uuid = n_uuid n, n_alter_id = n_alter_id n, n_security = n_security n,
           n_network = (if network = RelayGrpc then ''grpc'' else ''tcp''), n_tls = (network = RelayGrpc),
           n_sni = (case oc_sni out of
                      Some sni \<Rightarrow> if network = RelayGrpc \<and> sni \<noteq> [] then sni else oc_host out
                    | None \<Rightarrow> oc_host out),
           n_grpc_service_name = (if network = RelayGrpc then Some service else None),
           n_ws_path = None, n_ws_host = None, n_packet_encoding = PacketDefault\<rparr>"
proof -
  let ?j = "vmess_json n out network service" and ?pe = "he_parse env" and ?o = "published_opts n out network service"
  obtain u j' where codec: "visible_ascii (he_b64_encode env (he_json_to_string env ?j))"
      "b64_standard ?pe (he_b64_encode env (he_json_to_string env ?j)) = Some (he_json_to_string env ?j)"
      "from_utf8 (he_json_to_string env ?j) = Some (he_json_to_string env ?j)"
      "json_from_str ?pe (he_json_to_string env ?j) = Some j'" "same_object j' ?j"
      "url_parse ?pe (''vmess://'' @ he_b64_encode env (he_json_to_string env ?j)) = Some u"
      "url_username u = []" "url_query u = None"
    using assms(1) by (auto simp: link_codec_def Let_def)
  have wf: "n_alter_id n < 2 ^ 32" "n_uuid n \<noteq> []" "n_security n \<noteq> []" using assms(2) by (simp_all add: node_wf_def)
  have aid: "alter_id_of (int (n_alter_id n)) = n_alter_id n" using wf(1) by (simp add: alter_id_of_def)
  have "parse_vmess_link ?pe (build_vmess_json_link env n out network service) = build_node ?pe ?o"
    using trim_link [OF codec(1)] codec(2-) v2rayn_same_object [OF codec(5)] published_json [of out n network service] assms(4) wf(1)
    by (simp add: parse_vmess_link_def build_vmess_json_link_def Let_def starts_with_def vmess_scheme_def
        parse_base64_json_def try_base64_decode_def from_utf8_opt_def or_else_def)
  moreover have "build_node ?pe ?o = Inr (node_of_opts ?pe ?o)"
    using assms(3-5) wf(2) by (simp add: build_node_Inr published_opts_def Let_def)
  moreover have "node_network ?pe ?o = (if network = RelayGrpc then ''grpc'' else ''tcp'')"
    by (simp add: node_network_def published_opts_def Let_def to_lowercase_def is_ascii_def lower_networks)
  ultimately show ?thesis using wf(3) aid
    by (cases "oc_sni out") (simp_all add: node_of_opts_def published_opts_def Let_def node_sni_def or_default_def)
qed

text \<open>
  A published v2rayN link parses to a node that keeps the name, the UUID,
  the alter id and the encryption of the upstream node, but leads to the host and port of the
  output, over the network the relay listens on: a client that imports the link connects to the
  relay and presents the UUID the relay routes by.
\<close>

theorem published_link_parses:
  assumes "link_codec env (vmess_json n out network service)"
    and "node_wf n" and "1 \<le> oc_port out" and "oc_port out \<le> 65535" and "oc_host out \<noteq> []"
  shows "parse_vmess_link (he_parse env) (build_vmess_json_link env n out network service)
    = Inr \<lparr>n_name = n_name n, n_source = empty_source, n_server = oc_host out, n_port = oc_port out,
           n_uuid = n_uuid n, n_alter_id = n_alter_id n, n_security = n_security n,
           n_network = (if network = RelayGrpc then ''grpc'' else ''tcp''), n_tls = (network = RelayGrpc),
           n_sni = (case oc_sni out of
                      Some sni \<Rightarrow> if network = RelayGrpc \<and> sni \<noteq> [] then sni else oc_host out
                    | None \<Rightarrow> oc_host out),
           n_grpc_service_name = (if network = RelayGrpc then Some service else None),
           n_ws_path = None, n_ws_host = None, n_packet_encoding = PacketDefault\<rparr>"
  using assms by (rule published_link_node)

definition sample_link_output :: output_config where
  "sample_link_output = \<lparr>oc_name = ''o'', oc_host = ''relay.example'', oc_port = 443, oc_sni = Some ''front.example'',
     oc_skip_cert_verify = False, oc_process = []\<rparr>"

text \<open>A codec that knows one object only, with its fields in another order.\<close>

definition reversed_fields :: "json \<Rightarrow> json" where
  "reversed_fields j = (case j of JObj fs \<Rightarrow> JObj (rev fs) | _ \<Rightarrow> j)"

definition one_link_env :: http_env where
  "one_link_env = sample_http_env\<lparr>he_parse := null_env\<lparr>b64_standard := Some,
     json_from_str := (\<lambda>_. Some (reversed_fields (vmess_json sample_node sample_link_output RelayGrpc ''svc''))),
     url_parse := (\<lambda>_. Some \<lparr>url_username = '''', url_host_str = None, url_port = None, url_path = '''', url_query = None,
       url_query_pairs = [], url_fragment = None\<rparr>)\<rparr>\<rparr>"

theorem published_link_parses_witness:
  "\<exists>m. parse_vmess_link (he_parse one_link_env)
         (build_vmess_json_link one_link_env sample_node sample_link_output RelayGrpc ''svc'') = Inr m
    \<and> n_server m = ''relay.example'' \<and> n_port m = 443 \<and> n_uuid m = n_uuid sample_node \<and> n_sni m = ''front.example''"
proof -
  have "link_codec one_link_env (vmess_json sample_node sample_link_output RelayGrpc ''svc'')"
    by (simp add: link_codec_def one_link_env_def sample_http_env_def visible_ascii_def is_ascii_def is_whitespace_def
        from_utf8_def utf8_valid_def reversed_fields_def vmess_json_def Let_def)
  moreover have "node_wf sample_node" by (simp add: node_wf_def sample_node_def)
  ultimately show ?thesis
    using published_link_parses [of one_link_env sample_node sample_link_output RelayGrpc "''svc''"]
    by (simp add: sample_link_output_def)
qed

subsection \<open>The Shadowrocket link\<close>

text \<open>
  What the composition relies on. The URL-safe engine without padding writes visible ASCII text
  without \<^verbatim>\<open>?\<close> and \<^verbatim>\<open>=\<close>, its decoder gives the input back and the decoders tried before it
  give nothing else; the URL library finds no user name in the link, its query after the \<^verbatim>\<open>?\<close> and the
  pairs of that query.
\<close>

definition shadowrocket_codec :: "http_env \<Rightarrow> string \<Rightarrow> string \<Rightarrow> bool" where
  "shadowrocket_codec env payload query \<longleftrightarrow>
     (let code = he_b64_url_encode env payload; pe = he_parse env in
      visible_ascii code \<and> CHR ''?'' \<notin> set code \<and> CHR ''='' \<notin> set code
      \<and> b64_url_safe_no_pad pe code = Some payload \<and> from_utf8 payload = Some payload
      \<and> b64_standard pe code \<in> {None, Some payload} \<and> b64_standard_no_pad pe code \<in> {None, Some payload}
      \<and> b64_url_safe pe code \<in> {None, Some payload}
      \<and> (\<exists>u. url_parse pe (''vmess://'' @ code @ ''?'' @ query) = Some u \<and> url_username u = []
             \<and> url_query u = Some query \<and> url_query_pairs u = query_decode query \<and> url_fragment u = None))"

text \<open>
  The law of the URL library for any user, host and port. A user of unreserved characters is kept
  as it is written. A host is read and written again by the library, by \<open>host\<close>, which rejects what is no
  host, may respell an IPv6 address, and keeps a name or an IPv4 address as it is.
\<close>

definition plain_text :: "string \<Rightarrow> bool" where
  "plain_text s \<longleftrightarrow> s \<noteq> [] \<and> list_all unreserved s"

definition authority_law :: "parse_env \<Rightarrow> (string \<Rightarrow> string option) \<Rightarrow> bool" where
  "authority_law pe host \<longleftrightarrow>
     (\<forall>h. plain_text h \<longrightarrow> host h = Some h)
     \<and> (\<forall>user h h' port. plain_text user \<and> host h = Some h' \<and> port \<le> 65535
          \<longrightarrow> (\<exists>v. url_parse pe (''vmess://'' @ user @ ''@'' @ h @ '':'' @ show_nat port) = Some v
                 \<and> url_username v = user \<and> url_host_str v = Some h' \<and> url_port v = Some port))"

lemma trim_end_matches_none: "c \<notin> set s \<Longrightarrow> trim_end_matches s c = s"
  by (cases s rule: rev_cases) (auto simp: trim_end_matches_def)

lemma try_base64_url_safe:
  assumes "CHR ''='' \<notin> set code" and "b64_url_safe_no_pad pe code = Some payload" and "from_utf8 payload = Some payload"
    and "b64_standard pe code \<in> {None, Some payload}" and "b64_standard_no_pad pe code \<in> {None, Some payload}"
    and "b64_url_safe pe code \<in> {None, Some payload}"
  shows "try_base64_decode pe code = Some payload"
  using assms by (auto simp: try_base64_decode_def trim_end_matches_none from_utf8_opt_def or_else_def)

lemma query_chars_visible:
  assumes "visible_ascii code"
  shows "visible_ascii (code @ ''?'' @ push_query_pairs ps)"
proof -
  have "of_char c < (128 :: nat) \<and> \<not> is_whitespace (of_char c)" if "c \<in> set (push_query_pairs ps)" for c
    using push_query_pairs_chars [OF that] by (auto simp: unreserved_def is_whitespace_def Let_def)
  with assms show ?thesis by (auto simp: visible_ascii_def is_ascii_def list_all_iff is_whitespace_def)
qed

text \<open>What the parser looks up in the query of a published link.\<close>

lemma shadowrocket_lookup:
  fixes n out network service
  defines "m \<equiv> map_of (rev (shadowrocket_pairs n out network service))"
  shows "m ''remarks'' = (if n_name n = [] then None else Some (n_name n))" and "m ''ps'' = None"
    and "m ''alterId'' = Some (show_nat (n_alter_id n))"
    and "m ''obfs'' = Some (if network = RelayGrpc then ''grpc'' else ''tcp'')"
    and "m ''path'' = (if network = RelayGrpc then Some service else None)" and "m ''serviceName'' = None"
    and "m ''tls'' = Some (if network = RelayGrpc then ''1'' else ''0'')"
    and "m ''peer'' = (if network = RelayGrpc then oc_sni out else None)"
    and "m ''obfsParam'' = (if network = RelayGrpc then oc_sni out else None)" and "m ''sni'' = None"
    and "m ''udp'' = Some (shadowrocket_udp (n_packet_encoding n))"
  unfolding m_def shadowrocket_pairs_def Let_def by (simp_all split: option.split)

lemma shadowrocket_udp_parse: "parse_shadowrocket_udp (Some (shadowrocket_udp e)) = e"
  by (cases e) (simp_all add: parse_shadowrocket_udp_def)

definition shadowrocket_opts :: "vmess_node \<Rightarrow> output_config \<Rightarrow> string \<Rightarrow> relay_network \<Rightarrow> string \<Rightarrow> v2rayn_json" where
  "shadowrocket_opts n out h network service =
     (let is_grpc = (network = RelayGrpc) in
      v2rayn_default\<lparr>v_id := n_uuid n, v_add := h, v_port := int (oc_port out),
        v_ps := n_name n, v_aid := int (n_alter_id n), v_net := (if is_grpc then ''grpc'' else ''tcp''),
        v_path := (if is_grpc then service else ''''), v_tls := (if is_grpc then ''1'' else ''0''),
        v_sni := (if is_grpc then or_default (oc_sni out) '''' else ''''), v_scy := n_security n\<rparr>)"

text \<open>The query and the authority of a published link give these options.\<close>

lemma shadowrocket_format_opts:
  assumes "shadowrocket_payload link u = code" and "try_base64_decode pe code = Some (n_security n @ '':'' @ authority)"
    and "CHR '':'' \<notin> set (n_security n)" and "n_alter_id n < 2 ^ 32"
    and u: "url_query_pairs u = shadowrocket_pairs n out network service" "url_fragment u = None"
    and v: "url_parse pe (''vmess://'' @ authority) = Some v" "url_username v = n_uuid n"
      "url_host_str v = Some h" "url_port v = Some (oc_port out)"
  shows "parse_shadowrocket_format pe link u
    = bind_result (build_node pe (shadowrocket_opts n out h network service))
        (\<lambda>m. Inr (m\<lparr>n_packet_encoding := n_packet_encoding n\<rparr>))"
proof -
  have split: "split_once (n_security n @ '':'' @ authority) CHR '':'' = Some (n_security n, authority)"
    using split_once_append [OF assms(3)] by simp
  note get = shadowrocket_lookup [of n out network service, folded u(1) query_get_def]
  have remarks: "url_remarks u = n_name n"
    using u(2) by (simp add: url_remarks_def query_or_def get or_else_def or_default_def)
  have aid: "or_default (and_then (query_or u ''alterId'' ''aid'') parse_i64) 0 = int (n_alter_id n)"
    using assms(4) by (simp add: query_or_def get or_else_def and_then_def or_default_def parse_i64_show)
  show ?thesis
    unfolding parse_shadowrocket_format_def assms(1,2) ok_or_def option.case bind_result_def sum.case split
      fst_conv snd_conv vmess_scheme_def v remarks aid get(11) shadowrocket_udp_parse shadowrocket_opts_def Let_def
    by (cases "oc_sni out") (simp_all add: query_or_def get or_else_def or_default_def)
qed

lemma shadowrocket_opts_node:
  assumes "n_alter_id n < 2 ^ 32" and "n_security n \<noteq> []"
  shows "node_of_opts pe (shadowrocket_opts n out h network service)
    = \<lparr>n_name = n_name n, n_source = empty_source, n_server = h, n_port = oc_port out,
       n_uuid = n_uuid n, n_alter_id = n_alter_id n, n_security = n_security n,
       n_network = (if network = RelayGrpc then ''grpc'' else ''tcp''), n_tls = (network = RelayGrpc),
       n_sni = (case oc_sni out of Some sni \<Rightarrow> if network = RelayGrpc \<and> sni \<noteq> [] then sni else h | None \<Rightarrow> h),
       n_grpc_service_name = (if network = RelayGrpc then Some service else None),
       n_ws_path = None, n_ws_host = None, n_packet_encoding = PacketDefault\<rparr>"
proof -
  let ?o = "shadowrocket_opts n out h network service"
  have "node_network pe ?o = (if network = RelayGrpc then ''grpc'' else ''tcp'')"
    by (simp add: shadowrocket_opts_def Let_def node_network_def to_lowercase_def is_ascii_def lower_networks)
  moreover have "alter_id_of (int (n_alter_id n)) = n_alter_id n" using assms(1) by (simp add: alter_id_of_def)
  ultimately show ?thesis using assms(2)
    by (cases "oc_sni out")
      (simp_all add: node_of_opts_def shadowrocket_opts_def Let_def node_sni_def v2rayn_default_def or_default_def)
qed

text \<open>
  C23 (shadowrocket_link_parses). A published Shadowrocket link parses to a node that keeps the name, the UUID,
  the alter id, the encryption and the packet encoding of the upstream node, whatever bytes the
  name holds, and leads to the host and port of the output over the network the relay listens on. The
  host is spelt as the URL library spells it.
\<close>

theorem shadowrocket_link_parses:
  assumes codec: "shadowrocket_codec env (n_security n @ '':'' @ shadowrocket_authority n out)
        (push_query_pairs (shadowrocket_pairs n out network service))" "authority_law (he_parse env) host"
    and "node_wf n" and "CHR '':'' \<notin> set (n_security n)" and "plain_text (n_uuid n)"
    and port: "1 \<le> oc_port out" "oc_port out \<le> 65535" and host: "host (format_url_host (oc_host out)) = Some h" "h \<noteq> []"
  shows "parse_vmess_link (he_parse env) (build_shadowrocket_link env n out network service)
    = Inr \<lparr>n_name = n_name n, n_source = empty_source, n_server = h, n_port = oc_port out,
           n_uuid = n_uuid n, n_alter_id = n_alter_id n, n_security = n_security n,
           n_network = (if network = RelayGrpc then ''grpc'' else ''tcp''), n_tls = (network = RelayGrpc),
           n_sni = (case oc_sni out of Some sni \<Rightarrow> if network = RelayGrpc \<and> sni \<noteq> [] then sni else h | None \<Rightarrow> h),
           n_grpc_service_name = (if network = RelayGrpc then Some service else None),
           n_ws_path = None, n_ws_host = None, n_packet_encoding = n_packet_encoding n\<rparr>"
proof -
  let ?pe = "he_parse env" and ?pairs = "shadowrocket_pairs n out network service"
  let ?payload = "n_security n @ '':'' @ shadowrocket_authority n out" and ?q = "push_query_pairs ?pairs"
  let ?code = "he_b64_url_encode env ?payload" and ?o = "shadowrocket_opts n out h network service"
  let ?link = "''vmess://'' @ ?code @ ''?'' @ ?q"
  obtain u where u: "url_parse ?pe ?link = Some u" "url_username u = []"
      "url_query u = Some ?q" "url_query_pairs u = ?pairs" "url_fragment u = None"
    using codec(1) by (auto simp: shadowrocket_codec_def Let_def query_decode_pairs)
  obtain v where v: "url_parse ?pe (''vmess://'' @ shadowrocket_authority n out) = Some v" "url_username v = n_uuid n"
      "url_host_str v = Some h" "url_port v = Some (oc_port out)"
    using codec(2) assms(5) port(2) host(1) unfolding authority_law_def shadowrocket_authority_def by blast
  have code: "visible_ascii ?code" "CHR ''?'' \<notin> set ?code" using codec(1) by (auto simp: shadowrocket_codec_def Let_def)
  have decoded: "try_base64_decode ?pe ?code = Some ?payload"
    using codec(1) unfolding shadowrocket_codec_def Let_def by (intro try_base64_url_safe) blast+
  have payload: "shadowrocket_payload ?link u = ?code"
    using split_once_append [OF code(2)] by (simp add: shadowrocket_payload_def vmess_scheme_def)
  have wf: "n_alter_id n < 2 ^ 32" "n_uuid n \<noteq> []" "n_security n \<noteq> []" using assms(3) by (simp_all add: node_wf_def)
  have "build_node ?pe ?o = Inr (node_of_opts ?pe ?o)"
    using port host(2) wf(2) by (simp add: build_node_Inr shadowrocket_opts_def Let_def)
  then have "parse_shadowrocket_format ?pe ?link u
      = Inr ((node_of_opts ?pe ?o)\<lparr>n_packet_encoding := n_packet_encoding n\<rparr>)"
    using shadowrocket_format_opts [OF payload decoded assms(4) wf(1) u(4,5) v] by simp
  moreover have "parse_vmess_link ?pe (build_shadowrocket_link env n out network service)
      = parse_shadowrocket_format ?pe ?link u"
    using trim_link [OF query_chars_visible [OF code(1)]] u(1-3)
    by (simp add: parse_vmess_link_def build_shadowrocket_link_def Let_def starts_with_def vmess_scheme_def)
  ultimately show ?thesis using shadowrocket_opts_node [OF wf(1,3)] by simp
qed

text \<open>A URL library that splits an authority, and knows one link, with a name outside ASCII.\<close>

definition rocket_node :: vmess_node where
  "rocket_node = sample_node\<lparr>n_name := [CHR 0xC3, CHR 0xA9, CHR ''&''], n_packet_encoding := Xudp\<rparr>"

abbreviation rocket_query :: string where
  "rocket_query \<equiv> push_query_pairs (shadowrocket_pairs rocket_node sample_link_output RelayGrpc ''svc'')"

definition rocket_link_url :: url where
  "rocket_link_url = \<lparr>url_username = '''', url_host_str = None, url_port = None, url_path = '''',
     url_query = Some rocket_query, url_query_pairs = query_decode rocket_query, url_fragment = None\<rparr>"

definition split_authority :: "string \<Rightarrow> url option" where
  "split_authority s =
     (case split_once (drop 8 s) CHR ''@'' of
        None \<Rightarrow> None
      | Some (user, rest) \<Rightarrow>
          (case split_once rest CHR '':'' of
             None \<Rightarrow> None
           | Some (h, port) \<Rightarrow>
               Some \<lparr>url_username = user, url_host_str = Some h, url_port = map_option nat (parse_i64 port),
                     url_path = '''', url_query = None, url_query_pairs = [], url_fragment = None\<rparr>))"

definition plain_host :: "string \<Rightarrow> string option" where
  "plain_host h = (if plain_text h then Some h else None)"

definition rocket_env :: http_env where
  "rocket_env = sample_http_env\<lparr>he_b64_url_encode := (\<lambda>_. ''code''),
     he_parse := null_env\<lparr>b64_standard := (\<lambda>_. None),
       b64_url_safe_no_pad := (\<lambda>_. Some (''auto:'' @ shadowrocket_authority rocket_node sample_link_output)),
       url_parse := (\<lambda>s. if contains_str s ''@'' then split_authority s else Some rocket_link_url)\<rparr>\<rparr>"

lemma parse_ipv6_name:
  assumes "digit_value c = None" and "c \<noteq> CHR '':''"
  shows "parse_ipv6 (c # s) = None"
proof -
  have none: "read_number radix m z v (c # s) = None" for radix m z v
    using assms(1) by (simp add: read_number_def digits_prefix_def to_digit_def Let_def)
  have "read_groups (Suc k) [] (c # s) = ([], False, c # s)" for k
    by (simp add: read_separator_def read_ipv4_addr_def read_octet_def none)
  from this [of 7] show ?thesis
    using assms(2) by (simp add: parse_ipv6_def parse_with_def read_ipv6_addr_def read_given_char_def)
qed

lemma format_url_host_name:
  assumes "digit_value c = None" and "c \<noteq> CHR '':''" and "c \<noteq> CHR ''[''"
  shows "format_url_host (c # s) = c # s"
  using parse_ipv6_name [OF assms(1,2)] assms(3)
  by (simp add: format_url_host_def strip_prefix_def starts_with_def and_then_def or_default_def)

lemma relay_example_host: "format_url_host (oc_host sample_link_output) = ''relay.example''"
proof -
  have r: "digit_value CHR ''r'' = None" "CHR ''r'' \<noteq> CHR '':''" "CHR ''r'' \<noteq> CHR ''[''" by (simp_all add: digit_value_def)
  show ?thesis unfolding sample_link_output_def output_config.select_convs by (rule format_url_host_name [OF r])
qed

lemma rocket_authority: "shadowrocket_authority rocket_node sample_link_output = ''u@relay.example:443''"
proof -
  have port: "oc_port sample_link_output = 443" and uuid: "n_uuid rocket_node = ''u''"
    by (simp_all add: sample_link_output_def rocket_node_def sample_node_def)
  have "show_nat 443 = ''443''" by code_simp
  then show ?thesis unfolding shadowrocket_authority_def relay_example_host port uuid by simp
qed

lemma rocket_env_simps:
  "he_b64_url_encode rocket_env = (\<lambda>_. ''code'')"
  "b64_standard (he_parse rocket_env) = (\<lambda>_. None)" "b64_standard_no_pad (he_parse rocket_env) = (\<lambda>_. None)"
  "b64_url_safe (he_parse rocket_env) = (\<lambda>_. None)"
  "b64_url_safe_no_pad (he_parse rocket_env)
     = (\<lambda>_. Some (''auto:'' @ shadowrocket_authority rocket_node sample_link_output))"
  "url_parse (he_parse rocket_env) = (\<lambda>s. if contains_str s ''@'' then split_authority s else Some rocket_link_url)"
  by (simp_all add: rocket_env_def null_env_def)

lemma contains_str_append: "contains_str (a @ p @ b) p"
proof (induction a)
  case Nil
  show ?case
  proof (cases "p @ b")
    case (Cons c s)
    have "starts_with (p @ b) p" by simp
    with Cons show ?thesis by simp
  qed simp
qed simp

lemma rocket_authority_law: "authority_law (he_parse rocket_env) plain_host"
proof -
  have "\<exists>v. url_parse (he_parse rocket_env) (''vmess://'' @ user @ ''@'' @ h @ '':'' @ show_nat port) = Some v
      \<and> url_username v = user \<and> url_host_str v = Some h' \<and> url_port v = Some port"
    if "plain_text user" "plain_host h = Some h'" "port \<le> 65535" for user h h' port
  proof -
    let ?s = "''vmess://'' @ user @ ''@'' @ h @ '':'' @ show_nat port"
    have h: "h' = h" "plain_text h" using that(2) by (auto simp: plain_host_def split: if_splits)
    have "CHR ''@'' \<notin> set user" "CHR '':'' \<notin> set h"
      using that(1) h(2) by (auto simp: plain_text_def list_all_iff unreserved_def)
    then have "split_once (user @ CHR ''@'' # h @ CHR '':'' # show_nat port) CHR ''@'' = Some (user, h @ CHR '':'' # show_nat port)"
      "split_once (h @ CHR '':'' # show_nat port) CHR '':'' = Some (h, show_nat port)"
      using split_once_append by fast+
    moreover have "contains_str ?s ''@''" using contains_str_append [of "''vmess://'' @ user" "''@''"] by simp
    moreover have "parse_i64 (show_nat port) = Some (int port)" using that(3) by (simp add: parse_i64_show)
    ultimately show ?thesis using h(1) by (simp add: rocket_env_simps split_authority_def)
  qed
  then show ?thesis unfolding authority_law_def by (simp add: plain_host_def)
qed

theorem shadowrocket_link_parses_witness:
  "\<exists>m. parse_vmess_link (he_parse rocket_env)
         (build_shadowrocket_link rocket_env rocket_node sample_link_output RelayGrpc ''svc'') = Inr m
    \<and> n_name m = n_name rocket_node \<and> n_server m = ''relay.example'' \<and> n_packet_encoding m = Xudp"
proof -
  have sec: "n_security rocket_node = ''auto''" by (simp add: rocket_node_def sample_node_def)
  have utf8: "from_utf8 (''auto:u@relay.example:443'') = Some ''auto:u@relay.example:443''" by code_simp
  have no_at: "\<not> contains_str (''vmess://'' @ ''code'' @ ''?'' @ rocket_query) ''@''" by code_simp

  have "shadowrocket_codec rocket_env (n_security rocket_node @ '':'' @ shadowrocket_authority rocket_node sample_link_output)
      rocket_query"
    unfolding sec shadowrocket_codec_def Let_def rocket_env_simps rocket_authority if_not_P [OF no_at]
    using utf8 by (simp add: visible_ascii_def is_ascii_def is_whitespace_def rocket_link_url_def)
  moreover have "plain_text (n_uuid rocket_node)"
    by (simp add: plain_text_def unreserved_def rocket_node_def sample_node_def)
  moreover have "node_wf rocket_node" by (simp add: node_wf_def rocket_node_def sample_node_def)
  moreover have "CHR '':'' \<notin> set (n_security rocket_node)" by (simp add: sec)
  moreover have "1 \<le> oc_port sample_link_output" "oc_port sample_link_output \<le> 65535"
    by (simp_all add: sample_link_output_def)
  moreover have "plain_host (format_url_host (oc_host sample_link_output)) = Some ''relay.example''"
    unfolding relay_example_host by (simp add: plain_host_def plain_text_def unreserved_def)
  moreover have "''relay.example'' \<noteq> []" by simp
  ultimately show ?thesis
    using shadowrocket_link_parses [OF _ rocket_authority_law, of rocket_node sample_link_output RelayGrpc "''svc''" "''relay.example''"]
    by (simp add: rocket_node_def)
qed

end
