(* ===== verification/Listeners.thy ===== *)
theory Listeners
  imports Grpc_Inbound Http_Server
begin

text \<open>
  The three listeners: \<^verbatim>\<open>run\<close> of \<^verbatim>\<open>src/relay/inbound/tcp.rs\<close>, \<^verbatim>\<open>src/relay/inbound/grpc.rs\<close> and
  \<^verbatim>\<open>src/http/server.rs\<close>, and the per-connection loop of the gRPC listener. The sockets are the
  environment: the answer of \<^verbatim>\<open>bind\<close> and the sequence of answers of \<^verbatim>\<open>accept\<close>. What a listener does is the
  list of its actions: a handler spawned for a connection, or a pause after an error. The loops
  never end by themselves; the list is what they have done after the events seen so far.

  The three loops share one contract, the locale \<open>accepting\<close>: no error of \<^verbatim>\<open>accept\<close> stops a listener, and every
  connection is handed to a handler once, in order.
\<close>

subsection \<open>Definitions\<close>

datatype 'c accept_event = Accepted 'c | AcceptFailed string

datatype 'c action = Spawned 'c | Slept nat

definition ACCEPT_ERROR_BACKOFF :: nat where
  "ACCEPT_ERROR_BACKOFF = 1000"

fun accept_loop :: "'c accept_event list \<Rightarrow> 'c action list" where
  "accept_loop [] = []"
| "accept_loop (ev # evs) =
     (case ev of
        Accepted c \<Rightarrow> Spawned c # accept_loop evs
      | AcceptFailed e \<Rightarrow> Slept ACCEPT_ERROR_BACKOFF # accept_loop evs)"

text \<open>The handlers: a raw stream, an HTTP/2 connection with its requests, an HTTP/1 request.\<close>

definition handle_conn :: "crypto \<Rightarrow> net_env \<Rightarrow> inbound \<Rightarrow> relay_runtime \<Rightarrow> writer relay_end option" where
  "handle_conn c env inb rt = handle_stream c env inb rt"

record h2_connection =
  hc_handshake :: "unit result" \<comment> \<open>\<open>Timeout\<close> when it takes too long\<close>
  hc_requests :: "(h2_error + grpc_request) list"
  hc_closed :: bool \<comment> \<open>no further request will come\<close>

text \<open>The requests handed to tasks, and the result once the connection is over.\<close>

fun serve_requests :: "(h2_error + grpc_request) list \<Rightarrow> bool \<Rightarrow> grpc_request list \<times> unit result option" where
  "serve_requests [] closed = ([], if closed then Some (Inr ()) else None)"
| "serve_requests (rq # rqs) closed =
     (case rq of
        Inl e \<Rightarrow> ([], Some (Inl (RecvError e)))
      | Inr request \<Rightarrow> (request # fst (serve_requests rqs closed), snd (serve_requests rqs closed)))"

definition serve_conn :: "h2_connection \<Rightarrow> grpc_request list \<times> unit result option" where
  "serve_conn conn =
     (case hc_handshake conn of
        Inl e \<Rightarrow> ([], Some (Inl e))
      | Inr _ \<Rightarrow> serve_requests (hc_requests conn) (hc_closed conn))"

definition http_handle :: "http_env \<Rightarrow> http_state \<Rightarrow> request \<Rightarrow> response" where
  "http_handle env st rq = dispatch env st rq"

definition tcp_run :: "unit result \<Rightarrow> inbound accept_event list \<Rightarrow> inbound action list result" where
  "tcp_run bind evs = bind_result bind (\<lambda>_. Inr (accept_loop evs))"

definition grpc_run :: "unit result \<Rightarrow> h2_connection accept_event list \<Rightarrow> h2_connection action list result" where
  "grpc_run bind evs = bind_result bind (\<lambda>_. Inr (accept_loop evs))"

definition http_run :: "unit result \<Rightarrow> request accept_event list \<Rightarrow> request action list result" where
  "http_run bind evs = bind_result bind (\<lambda>_. Inr (accept_loop evs))"

subsection \<open>The contract of a listener\<close>

definition accepted :: "'c accept_event list \<Rightarrow> 'c list" where
  "accepted evs = List.map_filter (\<lambda>ev. case ev of Accepted c \<Rightarrow> Some c | AcceptFailed _ \<Rightarrow> None) evs"

definition spawned :: "'c action list \<Rightarrow> 'c list" where
  "spawned acts = List.map_filter (\<lambda>a. case a of Spawned c \<Rightarrow> Some c | Slept _ \<Rightarrow> None) acts"

lemma accepted_simps [simp]:
  "accepted [] = []" "accepted (Accepted c # evs) = c # accepted evs" "accepted (AcceptFailed e # evs) = accepted evs"
  by (simp_all add: accepted_def List.map_filter_simps)

lemma spawned_simps [simp]:
  "spawned [] = []" "spawned (Spawned c # acts) = c # spawned acts" "spawned (Slept n # acts) = spawned acts"
  by (simp_all add: spawned_def List.map_filter_simps)

locale accepting =
  fixes run :: "unit result \<Rightarrow> 'c accept_event list \<Rightarrow> 'c action list result"
  assumes unbound: "run (Inl e) evs = Inl e"
    and started: "run (Inr ()) [] = Inr []"
    and served: "run (Inr ()) (Accepted c # evs) = map_sum id ((#) (Spawned c)) (run (Inr ()) evs)"
    and survives: "run (Inr ()) (AcceptFailed m # evs) = map_sum id ((#) (Slept ACCEPT_ERROR_BACKOFF)) (run (Inr ()) evs)"
begin

lemma every_connection_served: "\<exists>acts. run (Inr ()) evs = Inr acts \<and> spawned acts = accepted evs \<and> length acts = length evs"
proof (induction evs)
  case (Cons ev evs)
  then show ?case by (cases ev) (auto simp: served survives)
qed (simp add: started)

end

interpretation tcp_listener: accepting tcp_run
  by unfold_locales (simp_all add: tcp_run_def)

interpretation grpc_listener: accepting grpc_run
  by unfold_locales (simp_all add: grpc_run_def)

interpretation http_listener: accepting http_run
  by unfold_locales (simp_all add: http_run_def)

subsection \<open>Requests of one HTTP/2 connection\<close>

lemma serve_requests_outcome:
  "fst (serve_requests rqs closed) = map projr (takeWhile (\<lambda>r. \<not> isl r) rqs)
   \<and> (snd (serve_requests rqs closed) = None \<longleftrightarrow> \<not> closed \<and> list_all (\<lambda>r. \<not> isl r) rqs)"
  by (induction rqs) (auto split: sum.splits)

text \<open>
  Every connection a listener accepts is handled once, in the order of acceptance, however many
  calls of \<^verbatim>\<open>accept\<close> fail in between; and the requests of an HTTP/2 connection are handled up to the
  first protocol error.
\<close>

theorem connections_served:
  "(\<exists>acts. tcp_run (Inr ()) evs1 = Inr acts \<and> spawned acts = accepted evs1)
   \<and> (\<exists>acts. grpc_run (Inr ()) evs2 = Inr acts \<and> spawned acts = accepted evs2)
   \<and> (\<exists>acts. http_run (Inr ()) evs3 = Inr acts \<and> spawned acts = accepted evs3)
   \<and> fst (serve_conn conn) =
        (if is_ok (hc_handshake conn) then map projr (takeWhile (\<lambda>r. \<not> isl r) (hc_requests conn)) else [])"
  using tcp_listener.every_connection_served [of evs1] grpc_listener.every_connection_served [of evs2]
    http_listener.every_connection_served [of evs3] serve_requests_outcome [of "hc_requests conn" "hc_closed conn"]
  by (cases "hc_handshake conn") (auto simp: serve_conn_def is_ok_iff)

end
