(* ===== verification/End_To_End.thy ===== *)
theory End_To_End
  imports Daemon_Tasks Published_Links Listeners
begin

text \<open>
  The whole path: a client takes a link the daemon publishes, makes an identifier from the UUID in
  it the way VMess clients do, connects to the relay, and reaches the server of the node the link was
  made from. The client is \<^verbatim>\<open>make_auth_id\<close> of the tests of \<^verbatim>\<open>src/vmess/validator.rs\<close>, the only place where the
  sources build an identifier; AES encryption is its parameter.
\<close>

subsection \<open>Definitions: the client\<close>

definition make_auth_id :: "crypto \<Rightarrow> (bytes \<Rightarrow> bytes \<Rightarrow> bytes) \<Rightarrow> string \<Rightarrow> nat \<Rightarrow> bytes \<Rightarrow> bytes result" where
  "make_auth_id c aes128_encrypt_block u now r =
     bind_result (from_uuid c u) (\<lambda>v.
       let plain = be_of_nat 8 now @ r;
           checksum = crc32 c plain
       in Inr (aes128_encrypt_block (ecb_key v) (plain @ be_of_nat 4 checksum)))"

subsection \<open>Definitions: the listeners that are spawned\<close>

datatype listener_run =
    RawConnections "inbound action list result"
  | H2Connections string "h2_connection action list result"

definition spawn_relay_listener :: "(socket_addr \<Rightarrow> unit result) \<Rightarrow> started \<Rightarrow> inbound accept_event list
    \<Rightarrow> h2_connection accept_event list \<Rightarrow> listener_run" where
  "spawn_relay_listener bind st raw h2 =
     (case st_inbound st of
        TcpInbound \<Rightarrow> RawConnections (tcp_run (bind (st_relay_addr st)) raw)
      | GrpcInbound service \<Rightarrow> H2Connections service (grpc_run (bind (st_relay_addr st)) h2))"

definition spawn_http_server :: "(socket_addr \<Rightarrow> unit result) \<Rightarrow> started \<Rightarrow> request accept_event list
    \<Rightarrow> request action list result" where
  "spawn_http_server bind st requests = http_run (bind (st_http_addr st)) requests"

text \<open>
  If its port can be bound, the listener of the configured kind hands every connection to a
  handler, in order; if not, the process goes on without a listener.
\<close>

lemma relay_listener_serves:
  assumes "main env reads w tls_config path = Inr st"
  shows "spawn_relay_listener bind st raw h2 =
      (case relay_network (relay (dm_config (st_daemon st))) of
         RelayTcp \<Rightarrow> RawConnections (tcp_run (bind (st_relay_addr st)) raw)
       | RelayGrpc \<Rightarrow> H2Connections (relay_service_name (relay (dm_config (st_daemon st)))) (grpc_run (bind (st_relay_addr st)) h2))
    \<and> (bind (st_relay_addr st) = Inr () \<longrightarrow>
        (\<exists>as bs. tcp_run (bind (st_relay_addr st)) raw = Inr as \<and> spawned as = accepted raw
          \<and> grpc_run (bind (st_relay_addr st)) h2 = Inr bs \<and> spawned bs = accepted h2))"
  using main_serves [OF assms] tcp_listener.every_connection_served [of raw] grpc_listener.every_connection_served [of h2]
  by (auto simp: spawn_relay_listener_def from_config_def split: relay_network.split)

subsection \<open>Identifiers are accepted\<close>

text \<open>Decryption inverts encryption on blocks of sixteen bytes, and a CRC-32 has 32 bits.\<close>

definition cipher_laws :: "crypto \<Rightarrow> (bytes \<Rightarrow> bytes \<Rightarrow> bytes) \<Rightarrow> bool" where
  "cipher_laws c enc \<longleftrightarrow> (\<forall>k b. length b = 16 \<longrightarrow> aes128_decrypt_block c k (enc k b) = b) \<and> (\<forall>m. crc32 c m < 2 ^ 32)"

lemma made_id_accepted:
  assumes "make_auth_id c enc u t r = Inr a" and "cipher_laws c enc" and "length r = 4" and "t < 2 ^ 64"
    and "now \<le> t + 120" and "t \<le> now + 120"
  shows "uuid_accepts c now a u"
proof -
  obtain v where v: "from_uuid c u = Inr v"
      "a = enc (ecb_key v) (be_of_nat 8 t @ r @ be_of_nat 4 (crc32 c (be_of_nat 8 t @ r)))"
    using assms(1) by (auto simp: make_auth_id_def Let_def)
  have crc: "crc32 c m < 2 ^ 32" for m using assms(2) by (simp add: cipher_laws_def)
  have "aes128_decrypt_block c (ecb_key v) a = be_of_nat 8 t @ r @ be_of_nat 4 (crc32 c (be_of_nat 8 t @ r))"
    using assms(2,3) v(2) by (simp add: cipher_laws_def)
  moreover have "nat_of_be (be_of_nat 8 t) = t" using assms(4) by (intro nat_of_be_of_nat) simp
  moreover have "nat_of_be (be_of_nat 4 m) = m" if "m < 2 ^ 32" for m using that by (intro nat_of_be_of_nat) simp
  ultimately have "verify c now v a" using assms(3,5,6) crc by (simp add: verify_def Let_def abs_diff_le)
  with v(1) show ?thesis by (simp add: uuid_accepts_def)
qed

text \<open>No UUID but that of the node accepts the identifier, which holds but for collisions of 32-bit checksums.\<close>

definition unconfused :: "crypto \<Rightarrow> nat \<Rightarrow> vmess_node list \<Rightarrow> vmess_node \<Rightarrow> bytes \<Rightarrow> bool" where
  "unconfused c now nodes n a \<longleftrightarrow> list_all (\<lambda>m. n_uuid m = n_uuid n \<or> \<not> uuid_accepts c now a (n_uuid m)) nodes"

lemma routed_to_node:
  assumes "build_validator c env mgr = Inr v" and "n \<in> set (all_nodes mgr)"
    and "uuid_accepts c now a (n_uuid n)" and "unconfused c now (all_nodes mgr) n a"
  obtains e where "match_auth_id c now v a = Some (upstream e)" "entry_for c env n e"
proof -
  have all: "list_all2 (entry_for c env) (all_nodes mgr) (entries v)" using built_entries [OF assms(1)] .
  have uuids: "distinct (map n_uuid (all_nodes mgr))" using build_validator_uuids [OF assms(1)] by simp
  have acc: "verify c now (verifier e) a \<longleftrightarrow> uuid_accepts c now a (n_uuid m)" if "entry_for c env m e" for m e
    using that by (simp add: entry_for_def uuid_accepts_def)
  obtain e where e: "e \<in> set (entries v)" "entry_for c env n e"
    using list_all2_in1 [OF all assms(2)] by blast
  then have "List.find (\<lambda>e. verify c now (verifier e) a) (entries v) \<noteq> None"
    using acc [OF e(2)] assms(3) by (auto simp: find_None_iff)
  then obtain e' where e': "List.find (\<lambda>e. verify c now (verifier e) a) (entries v) = Some e'" by blast
  then have "e' \<in> set (entries v)" "verify c now (verifier e') a" using find_SomeD by fastforce+
  then obtain m where m: "m \<in> set (all_nodes mgr)" "entry_for c env m e'"
    using list_all2_in2 [OF all] by blast
  then have "uuid_accepts c now a (n_uuid m)" using acc \<open>verify c now (verifier e') a\<close> by blast
  with assms(4) m(1) have "n_uuid m = n_uuid n" by (auto simp: unconfused_def list_all_iff)
  with uuids m(1) assms(2) have "m = n" by (auto simp: distinct_map dest: inj_onD)
  with m(2) e' show thesis by (intro that [of e']) (simp_all add: match_auth_id_def match_entries_find)
qed

subsection \<open>What a client needs to do\<close>

text \<open>
  The first sixteen bytes of what the client sends are an identifier made from the UUID, at a time
  close to the clock of the relay.
\<close>

definition client_sends :: "crypto \<Rightarrow> (bytes \<Rightarrow> bytes \<Rightarrow> bytes) \<Rightarrow> string \<Rightarrow> net_env \<Rightarrow> bytes \<Rightarrow> bool" where
  "client_sends c enc u net bs \<longleftrightarrow> \<not> ne_auth_timeout net \<and> 16 \<le> length bs
     \<and> (\<exists>t r. make_auth_id c enc u t r = Inr (take 16 bs) \<and> length r = 4 \<and> t < 2 ^ 64
          \<and> ne_clock net \<le> t + 120 \<and> t \<le> ne_clock net + 120)"

text \<open>The upstream is the server of the node.\<close>

definition serves_node :: "vmess_node \<Rightarrow> upstream \<Rightarrow> bool" where
  "serves_node n up \<longleftrightarrow> addr up = n_server n @ '':'' @ show_nat (n_port n) \<and> parse_socket_addr (addr up) = Some (parsed_addr up)
     \<and> (case transport up of Tcp \<Rightarrow> n_network n \<noteq> ''grpc''
         | Grpc service sni u \<Rightarrow> n_network n = ''grpc'' \<and> service = or_default (n_grpc_service_name n) [] \<and> sni = n_sni n)"

lemma entry_serves: "entry_for c env n e \<Longrightarrow> serves_node n (upstream e)"
  by (auto simp: entry_for_def serves_node_def split: if_splits)

lemma client_routed:
  assumes "build_validator c env mgr = Inr v" and "n \<in> set (all_nodes mgr)" and "cipher_laws c enc"
    and "client_sends c enc (n_uuid n) net bs" and "unconfused c (ne_clock net) (all_nodes mgr) n (take 16 bs)"
  obtains up where "match_auth_id c (ne_clock net) v (take 16 bs) = Some up" "serves_node n up"
    "16 \<le> length bs" "\<not> ne_auth_timeout net"
proof -
  have "uuid_accepts c (ne_clock net) (take 16 bs) (n_uuid n)"
    using assms(3,4) made_id_accepted by (auto simp: client_sends_def)
  then obtain e where "match_auth_id c (ne_clock net) v (take 16 bs) = Some (upstream e)" "entry_for c env n e"
    using routed_to_node [OF assms(1,2) _ assms(5)] by blast
  moreover have "16 \<le> length bs" "\<not> ne_auth_timeout net" using assms(4) by (simp_all add: client_sends_def)
  ultimately show thesis using entry_serves that by blast
qed

subsection \<open>Over TCP\<close>

text \<open>
  A node is reached over TCP when every connection that starts with a current identifier of its UUID is
  routed to its server, and the bytes get through both ways: as they are if the server speaks TCP, in
  frames if it speaks gRPC.
\<close>

definition reached_over_tcp :: "crypto \<Rightarrow> (bytes \<Rightarrow> bytes \<Rightarrow> bytes) \<Rightarrow> relay_runtime \<Rightarrow> vmess_node list \<Rightarrow> vmess_node \<Rightarrow> bool" where
  "reached_over_tcp c enc rt nodes n \<longleftrightarrow>
     (\<forall>net inb. client_sends c enc (n_uuid n) net (stream_bytes (in_reads inb))
        \<longrightarrow> unconfused c (ne_clock net) nodes n (take 16 (stream_bytes (in_reads inb)))
        \<longrightarrow> (\<exists>up. match_auth_id c (ne_clock net) (rt_validator rt) (take 16 (stream_bytes (in_reads inb))) = Some up
              \<and> serves_node n up
              \<and> (transport up = Tcp \<and> tcp_up net up (rt_idle_timeout rt) \<and> copies_streams (ne_copy net)
                 \<longrightarrow> (\<exists>w. handle_conn c net inb rt
                        = Some \<lparr>re_result = Inr (), re_pool = rt_grpc_pool rt, re_client = Some w,
                                re_upstream = Some (w_out (ne_tcp_writer net) @ stream_bytes (in_reads inb))\<rparr>
                      \<and> w_out w = w_out (in_writer inb) @ stream_bytes (ne_tcp_reads net)))
              \<and> (\<forall>ds tn p cs rs. transport up \<noteq> Tcp \<and> in_reads inb = map ReadData ds \<and> pieces RAW_TO_GRPC_READ_BUF_SIZE ds
                   \<and> open_grpc_tunnel net up (rt_grpc_pool rt) = (Inr tn, p) \<and> ss_sent (tn_send_stream tn) = []
                   \<and> capacity_for (tn_send_stream tn) (length (concat ds) + 16 * (length ds + 1))
                   \<and> ne_response net = Inr (map Chunk cs) \<and> concat cs = concat (map encode_grpc_frame rs)
                   \<and> list_all small_payload rs \<and> w_left (in_writer inb) = None
                   \<and> both_end (rt_idle_timeout rt) (ne_turns net)
                 \<longrightarrow> (\<exists>bs w. handle_conn c net inb rt
                        = Some \<lparr>re_result = Inr (), re_pool = p, re_client = Some w, re_upstream = Some bs\<rparr>
                      \<and> w_out w = w_out (in_writer inb) @ concat rs
                      \<and> snd (deframe bs) = None \<and> payloads (fst (deframe bs)) = concat ds))))"

lemma node_reached_over_tcp:
  assumes "build_validator c env mgr = Inr (rt_validator rt)" and "n \<in> set (all_nodes mgr)" and "cipher_laws c enc"
  shows "reached_over_tcp c enc rt (all_nodes mgr) n"
  unfolding reached_over_tcp_def
proof (intro allI impI, goal_cases)
  case (1 net inb)
  obtain up where up: "match_auth_id c (ne_clock net) (rt_validator rt) (take 16 (stream_bytes (in_reads inb))) = Some up"
      "serves_node n up" "16 \<le> length (stream_bytes (in_reads inb))" "\<not> ne_auth_timeout net"
    using client_routed [OF assms 1] .
  show ?case
  proof (intro exI [of _ up] conjI allI impI up(1,2), goal_cases)
    case 1
    then show ?case using handle_stream_tcp [OF up(1) _ up(3,4)] by (auto simp: handle_conn_def)
  next
    case (2 ds tn p cs rs)
    then obtain service sni u where g: "transport up = Grpc service sni u" by (cases "transport up") auto
    have bs: "stream_bytes (in_reads inb) = concat ds" using 2 by (auto intro: stream_bytes_pieces)
    from 2 have "\<exists>bs. handle_stream c net inb rt
        = Some \<lparr>re_result = Inr (), re_pool = p,
                re_client = Some ((in_writer inb)\<lparr>w_out := w_out (in_writer inb) @ concat rs,
                                                  w_flushed := True, w_shutdown := True\<rparr>),
                re_upstream = Some bs\<rparr>
      \<and> snd (deframe bs) = None \<and> payloads (fst (deframe bs)) = concat ds"
      by (intro handle_stream_grpc [where cs = cs and tn = tn, OF up(1) [unfolded bs] g up(4) _ _ up(3) [unfolded bs]]) auto
    then show ?case by (auto simp: handle_conn_def)
  qed
qed

subsection \<open>Over gRPC\<close>

definition tunnel_request :: "grpc_request \<Rightarrow> string \<Rightarrow> bool" where
  "tunnel_request rq service \<longleftrightarrow> gr_method rq = ''POST'' \<and> gr_path rq = ''/'' @ service @ ''/Tun''
     \<and> gr_content_type rq = Some ''application/grpc''"

text \<open>
  A node is reached over gRPC when every request for the tunnel whose payload starts with a current
  identifier of its UUID is routed to its server, and the payload gets through both ways: as bytes if
  the server speaks TCP, frame by frame if it speaks gRPC. One case is different: a TCP server that closes its
  side before the client does can end the encoder before the relay, which is aborted then, so that
  the server receives a prefix only.
\<close>

definition reached_over_grpc :: "crypto \<Rightarrow> (bytes \<Rightarrow> bytes \<Rightarrow> bytes) \<Rightarrow> relay_runtime \<Rightarrow> string \<Rightarrow> vmess_node list \<Rightarrow> vmess_node
    \<Rightarrow> bool" where
  "reached_over_grpc c enc rt service nodes n \<longleftrightarrow>
     (\<forall>gi rq fs response. tunnel_request rq service \<and> gi_respond gi = Inr response \<and> ss_sent response = []
        \<longrightarrow> frames_of (frame_reader_new (gr_body rq)) = (fs, None) \<and> list_all decodes fs
        \<longrightarrow> client_sends c enc (n_uuid n) (gi_net gi) (payloads fs)
        \<longrightarrow> unconfused c (ne_clock (gi_net gi)) nodes n (take 16 (payloads fs))
        \<longrightarrow> (\<exists>up. match_auth_id c (ne_clock (gi_net gi)) (rt_validator rt) (take 16 (payloads fs)) = Some up
              \<and> serves_node n up
              \<and> (transport up = Tcp \<and> tcp_up (gi_net gi) up (rt_idle_timeout rt) \<and> copies_streams (ne_copy (gi_net gi))
                   \<and> gi_pipe_left gi = None \<and> pipe_law (gi_cut gi) \<and> EncodeEnds \<in> set (gi_core_turns gi)
                   \<and> capacity_for response (17 * length (stream_bytes (ne_tcp_reads (gi_net gi))))
                 \<longrightarrow> (\<exists>s. handle_request c gi rq service rt
                        = Relayed (Some \<lparr>re_result = Inr (), re_pool = rt_grpc_pool rt, re_client = Some s,
                                         re_upstream = Some
                                           (if relay_first (gi_core_turns gi) then w_out (ne_tcp_writer (gi_net gi)) @ payloads fs
                                            else take (gi_handed gi) (w_out (ne_tcp_writer (gi_net gi)) @ payloads fs))\<rparr>)
                      \<and> snd (deframe (sent_bytes s)) = None
                      \<and> payloads (fst (deframe (sent_bytes s))) = stream_bytes (ne_tcp_reads (gi_net gi))))
              \<and> (\<forall>tn p answer gs. transport up \<noteq> Tcp \<and> open_grpc_tunnel (gi_net gi) up (rt_grpc_pool rt) = (Inr tn, p)
                   \<and> capacity_for (tn_send_stream tn) (length (concat fs)) \<and> ne_response (gi_net gi) = Inr answer
                   \<and> frames_of (frame_reader_new answer) = (gs, None) \<and> capacity_for response (length (concat gs))
                   \<and> both_end (rt_idle_timeout rt) (ne_turns (gi_net gi))
                 \<longrightarrow> (\<exists>s. handle_request c gi rq service rt
                        = Relayed (Some \<lparr>re_result = Inr (), re_pool = p, re_client = Some s,
                                         re_upstream = Some (sent_bytes (tn_send_stream tn) @ concat fs)\<rparr>)
                      \<and> sent_bytes s = concat gs))))"

lemma tunnel_request_relayed:
  "tunnel_request rq service \<Longrightarrow> gi_respond gi = Inr response \<Longrightarrow>
     handle_request c gi rq service rt = Relayed (relay_request c gi (gr_body rq) response rt)"
  by (simp add: tunnel_request_def handle_request_def validate_request_def starts_with_def)

lemma node_reached_over_grpc:
  assumes "build_validator c env mgr = Inr (rt_validator rt)" and "n \<in> set (all_nodes mgr)" and "cipher_laws c enc"
  shows "reached_over_grpc c enc rt service (all_nodes mgr) n"
  unfolding reached_over_grpc_def
proof (intro allI impI, goal_cases)
  case (1 gi rq fs response)
  obtain up where up: "match_auth_id c (ne_clock (gi_net gi)) (rt_validator rt) (take 16 (payloads fs)) = Some up"
      "serves_node n up" "16 \<le> length (payloads fs)" "\<not> ne_auth_timeout (gi_net gi)"
    using client_routed [OF assms 1(3,4)] .
  have hr: "handle_request c gi rq service rt = Relayed (relay_request c gi (gr_body rq) response rt)"
    using 1(1) tunnel_request_relayed by blast
  have fs: "frames_of (frame_reader_new (gr_body rq)) = (fs, None)" "list_all decodes fs" using 1(2) by blast+
  have sent: "ss_sent response = []" using 1(1) by blast
  show ?case
  proof (intro exI [of _ up] conjI allI impI up(1,2), goal_cases)
    case 1
    then show ?case unfolding hr
      using relay_request_tcp [OF fs up(3,1) _ up(4), of response] sent by auto
  next
    case (2 tn p answer gs)
    then obtain srv sni u where g: "transport up = Grpc srv sni u" by (cases "transport up") auto
    have "sent_bytes response = []" using sent by (simp add: sent_bytes_def)
    then show ?case unfolding hr
      using relay_request_grpc [OF fs up(3,1) g up(4), of tn p answer gs response] 2 by auto
  qed
qed

subsection \<open>From a link to a server\<close>

text \<open>The HTTP sections of the configurations the daemon has read: at the start and in full reloads.\<close>

definition read_http_configs :: "daemon_env \<Rightarrow> string \<Rightarrow> started \<Rightarrow> daemon_event list \<Rightarrow> http_config set" where
  "read_http_configs env path st evs = insert (http (dm_config (st_daemon st)))
     {http cfg | cfg i. FullReload i False \<in> set evs \<and> load_config_with_retry env (ri_reads i) path = Inr cfg}"

text \<open>The log filter could be replaced whenever a reload asked for it.\<close>

definition filters_replaced :: "daemon_event list \<Rightarrow> bool" where
  "filters_replaced evs \<longleftrightarrow> full_reloads_suit (\<lambda>i. ri_filter i = Inr ()) evs"

lemma main_loop_not_dropped: "main_loop env path evs d = Running d' \<Longrightarrow> FullReload i dropped \<in> set evs \<Longrightarrow> \<not> dropped"
  by (induction evs arbitrary: d) (auto simp: loop_step_def split: process.splits)

lemma published_nodes:
  assumes "main env reads w tls_config path = Inr st" and "main_loop env path evs (st_daemon st) = Running d"
  obtains mgr h where "build_validator (dn_crypto env) (dn_sub env) mgr = Inr (rt_validator (dm_runtime d))"
    "http_state_new (dn_http env) (hs_users (dm_http d)) (http_outputs h) (all_nodes mgr) (relay_network (relay (dm_config d)))
       (relay_service_name (relay (dm_config d))) = Inr (dm_http d)"
    "st_inbound st = from_config (relay (dm_config d))"
    "h \<in> read_http_configs env path st evs" "filters_replaced evs \<longrightarrow> h = http (dm_config d)"
proof -
  let ?l = "listener (relay (dm_config (st_daemon st)))" and ?H = "read_http_configs env path st evs"
  let ?c = "filters_replaced evs"
  have m: "serves env ?l ?H ?c (st_daemon st)" "st_inbound st = from_config (relay (dm_config (st_daemon st)))"
    using main_serves [OF assms(1)] by (simp_all add: read_http_configs_def)
  have "full_reloads_suit (reads_http env path ?H ?c) evs"
    using main_loop_not_dropped [OF assms(2)]
    by (fastforce simp: full_reloads_suit_def reads_http_def list_all_iff filters_replaced_def read_http_configs_def
        split: daemon_event.splits)
  then have s: "serves env ?l ?H ?c d" using serving.loop_keeps [OF m(1) assms(2)] by blast
  then have "st_inbound st = from_config (relay (dm_config d))"
    using m(2) from_config_listener unfolding serves_def by metis
  with s that show thesis by (auto simp: serves_def listener_def)
qed

lemma rendered_link:
  assumes "http_state_new env us outs nodes network service = Inr hs"
    and "ro \<in> set (hs_outputs hs)" and "l \<in> set (v2rayn_links ro)"
  obtains out n m where "out \<in> set outs" "oc_name out = ro_output_name ro" "m \<in> set nodes" "endpoint_of n = endpoint_of m"
    "l = build_vmess_json_link env n out network service"
proof -
  have "list_all2 (\<lambda>out ro. render_output env out nodes network service = Inr ro) outs (hs_outputs hs)"
    using assms(1) by (auto simp: http_state_new_def map_result_eq_Inr)
  from list_all2_in2 [OF this assms(2)]
  obtain out where out: "out \<in> set outs" "render_output env out nodes network service = Inr ro" ..
  then obtain n where n: "n \<in> set (apply_pipeline (he_regex env) nodes (oc_process out))"
      "l = build_vmess_json_link env n out network service"
    using assms(3) by (auto simp: render_output_def Let_def)
  from apply_pipeline_endpoints [OF n(1)] obtain m where "m \<in> set nodes" "endpoint_of n = endpoint_of m" by blast
  with out n(2) that show thesis by (auto simp: render_output_def Let_def)
qed


text \<open>A daemon with one source, whose cached node is served to one output.\<close>

definition e2e_output :: output_config where
  "e2e_output = \<lparr>oc_name = ''o'', oc_host = ''relay.example'', oc_port = 443, oc_sni = None,
     oc_skip_cert_verify = False, oc_process = []\<rparr>"

definition e2e_env :: daemon_env where
  "e2e_env = sample_daemon_env\<lparr>dn_http := sample_http_env, dn_toml := (\<lambda>s. Inr \<lparr>rc_log_level = None,
     rc_relay = Some \<lparr>ry_listen = Some ''127.0.0.1'', ry_port = Some 80, ry_network = None,
       ry_service_name = None, ry_idle_timeout = None, ry_grpc_pool_idle_timeout = None\<rparr>,
     rc_http = Some \<lparr>rh_listen = Some ''127.0.0.1'', rh_port = Some 80, rh_users = None,
       rh_outputs = Some [\<lparr>ro_name = Some ''o'', ro_host = Some ''relay.example'', ro_port = Some 443, ro_sni = None,
         ro_skip_cert_verify = None, ro_process = None, ro_unknown = []\<rparr>]\<rparr>,
     rc_subscription = Some \<lparr>rb_cache_file = Some ''cache'', rb_update_interval = None,
       rb_sources = Some [\<lparr>rr_name = Some ''s'', rr_url = Some ''http://x'', rr_path = None, rr_user_agent = Some ''ua'',
         rr_process = None\<rparr>],
       rb_deduplication = Some ''first''\<rparr>\<rparr>)\<rparr>"

lemma e2e_env_simps [simp]:
  "dn_crypto e2e_env = dn_crypto sample_daemon_env" "dn_sub e2e_env = dn_sub sample_daemon_env" "dn_http e2e_env = sample_http_env"
  by (simp_all add: e2e_env_def)

lemma e2e_load:
  "\<exists>cfg. load (\<lambda>_. Inr '''') (dn_toml e2e_env) ''c'' = Inr cfg
    \<and> relay_listen (relay cfg) = ''127.0.0.1'' \<and> relay_port (relay cfg) = 80
    \<and> http_listen (http cfg) = ''127.0.0.1'' \<and> http_port (http cfg) = 80
    \<and> relay_idle_timeout (relay cfg) = 0 \<and> relay_network (relay cfg) = RelayTcp \<and> http_outputs (http cfg) = [e2e_output] \<and> subscription cfg = sample_subscription"
proof -
  have "\<not> blank (Some ''http://x'')"
    by (simp add: blank_def trim_def chars_def is_whitespace_def from_chars_def utf8_encode_def)
  then show ?thesis
    by (simp add: load_def e2e_env_def deserialize_config_def table_field_def deserialize_relay_def
      deserialize_http_def deserialize_subscription_def deserialize_source_def deserialize_output_def required_def
      opt_field_def uint_field_def or_default_def resolve_local_source_paths_def resolve_source_path_def
      default_relay_network_def sample_subscription_def sample_source_def e2e_output_def)
qed

lemma e2e_loaded:
  obtains ls e where "load_subscriptions e2e_env offline_world sample_subscription = Inr ls"
    "ls_nodes ls = [sample_node\<lparr>n_uuid := sample_uuid\<rparr>]" "entries (ls_validator ls) = [e]" "uuid e = sample_uuid"
    "transport (upstream e) = Tcp"
proof -
  let ?n = "sample_node\<lparr>n_uuid := sample_uuid\<rparr>"
  obtain ls where "load_subscriptions sample_daemon_env offline_world sample_subscription = Inr ls" "ls_nodes ls = [?n]"
    using sample_loaded .
  then have ls: "load_subscriptions e2e_env offline_world sample_subscription = Inr ls" "ls_nodes ls = [?n]"
    unfolding load_subscriptions_def e2e_env_simps by blast+
  then obtain mgr where "build_validator (dn_crypto e2e_env) (dn_sub e2e_env) mgr = Inr (ls_validator ls)" "all_nodes mgr = [?n]"
    using loaded_subscriptions by metis
  with built_entries obtain e where "entries (ls_validator ls) = [e]" "entry_for (dn_crypto e2e_env) (dn_sub e2e_env) ?n e"
    by (fastforce simp: list_all2_Cons1)
  with ls that show thesis by (auto simp: entry_for_def sample_node_def)
qed

lemma e2e_http:
  assumes "http_outputs (http cfg) = [e2e_output]"
  obtains ro l where "http_of e2e_env us cfg [sample_node\<lparr>n_uuid := sample_uuid\<rparr>] = Inr \<lparr>hs_users = us, hs_outputs = [ro]\<rparr>"
    "l \<in> set (v2rayn_links ro)"
  using that unfolding http_of_def assms
  by (simp add: http_state_new_def render_output_def Let_def apply_pipeline_def e2e_output_def build_vmess_url_link_def
      sample_http_env_def)

lemma e2e_main:
  assumes "load_subscriptions e2e_env offline_world sample_subscription = Inr ls" "ls_nodes ls = [sample_node\<lparr>n_uuid := sample_uuid\<rparr>]"
  obtains st ro l where "main e2e_env (\<lambda>_. Inr '''') offline_world (Inr ()) ''c'' = Inr st"
    "ro \<in> set (hs_outputs (dm_http (st_daemon st)))" "l \<in> set (v2rayn_links ro)"
    "rt_validator (dm_runtime (st_daemon st)) = ls_validator ls" "rt_idle_timeout (dm_runtime (st_daemon st)) = None" "st_inbound st = TcpInbound"
    "subscription (dm_config (st_daemon st)) = sample_subscription" "http_outputs (http (dm_config (st_daemon st))) = [e2e_output]"
proof -
  obtain cfg where cfg: "load (\<lambda>_. Inr '''') (dn_toml e2e_env) ''c'' = Inr cfg"
      "relay_listen (relay cfg) = ''127.0.0.1''" "relay_port (relay cfg) = 80" "http_listen (http cfg) = ''127.0.0.1''"
      "http_port (http cfg) = 80" "http_outputs (http cfg) = [e2e_output]" "relay_idle_timeout (relay cfg) = 0" "relay_network (relay cfg) = RelayTcp" "subscription cfg = sample_subscription"
    using e2e_load by auto
  obtain ro l where h: "http_of e2e_env (http_users (http cfg)) cfg (ls_nodes ls)
      = Inr \<lparr>hs_users = http_users (http cfg), hs_outputs = [ro]\<rparr>" "l \<in> set (v2rayn_links ro)"
    using e2e_http [OF cfg(6)] unfolding assms(2) .
  have a: "''127.0.0.1'' @ '':'' @ show_nat 80 = ''127.0.0.1:80''" by code_simp
  obtain sa where "parse_socket_addr ''127.0.0.1:80'' = Some sa" using sample_addr by blast
  with cfg a assms h show thesis by (auto simp: main_def build_state_def relay_runtime_new_def duration_from_seconds_def from_config_def intro!: that [of _ ro l])
qed

lemma sample_client: "client_sends toy_crypto (\<lambda>k b. b) sample_uuid sample_net (stream_bytes (in_reads sample_inbound))"
proof -
  obtain b where "parse_uuid sample_uuid = Inr b" using parse_sample_uuid by blast
  moreover have "sample_auth \<noteq> []" using length_sample_auth by (metis list.size(3) zero_neq_numeral)
  then have "stream_bytes (in_reads sample_inbound) = sample_auth @ [1, 2]" by (simp add: sample_inbound_def)
  ultimately show ?thesis unfolding client_sends_def
    by (auto simp: make_auth_id_def from_uuid_eq toy_crypto_def sample_net_def sample_auth_def Let_def
        intro!: exI [of _ 1100] exI [of _ "[1, 2, 3, 4] :: bytes"])
qed

lemma sample_delivery:
  assumes "reached_over_tcp toy_crypto (\<lambda>k b. b) rt [m] m" and "n_uuid m = sample_uuid" and "n_network m \<noteq> ''grpc''"
    and "rt_idle_timeout rt = None"
  shows "\<exists>w. handle_conn toy_crypto sample_net sample_inbound rt
      = Some \<lparr>re_result = Inr (), re_pool = rt_grpc_pool rt, re_client = Some w,
              re_upstream = Some (sample_auth @ [1, 2])\<rparr> \<and> w_out w = [7, 8]"
proof -
  have ne: "sample_auth \<noteq> []" using length_sample_auth by (metis list.size(3) zero_neq_numeral)
  have bs: "stream_bytes (in_reads sample_inbound) = sample_auth @ [1, 2]" using ne by (simp add: sample_inbound_def)
  have un: "unconfused toy_crypto (ne_clock sample_net) [m] m (take 16 (stream_bytes (in_reads sample_inbound)))"
    by (simp add: unconfused_def)
  have sends: "client_sends toy_crypto (\<lambda>k b. b) (n_uuid m) sample_net (stream_bytes (in_reads sample_inbound))"
    using sample_client assms(2) by simp
  obtain up where up: "serves_node m up"
      "transport up = Tcp \<and> tcp_up sample_net up (rt_idle_timeout rt) \<and> copies_streams (ne_copy sample_net)
       \<longrightarrow> (\<exists>w. handle_conn toy_crypto sample_net sample_inbound rt
              = Some \<lparr>re_result = Inr (), re_pool = rt_grpc_pool rt, re_client = Some w,
                      re_upstream = Some (w_out (ne_tcp_writer sample_net) @ stream_bytes (in_reads sample_inbound))\<rparr>
            \<and> w_out w = w_out (in_writer sample_inbound) @ stream_bytes (ne_tcp_reads sample_net))"
    using assms(1) [unfolded reached_over_tcp_def, rule_format, OF sends un] by blast
  have "transport up = Tcp" using up(1) assms(3) by (auto simp: serves_node_def split: transport.splits)
  moreover have "tcp_up sample_net up (rt_idle_timeout rt)"
    using assms(4) by (simp add: tcp_up_def sample_net_def sample_copy_def run_ok_def sample_writer_def)
  moreover have "copies_streams (ne_copy sample_net)" by (simp add: copies_streams_def sample_net_def sample_copy_def)
  ultimately have "\<exists>w. handle_conn toy_crypto sample_net sample_inbound rt
        = Some \<lparr>re_result = Inr (), re_pool = rt_grpc_pool rt, re_client = Some w,
                re_upstream = Some (w_out (ne_tcp_writer sample_net) @ stream_bytes (in_reads sample_inbound))\<rparr>
      \<and> w_out w = w_out (in_writer sample_inbound) @ stream_bytes (ne_tcp_reads sample_net)"
    using up(2) by blast
  then show ?thesis unfolding bs by (auto simp: sample_net_def sample_inbound_def sample_writer_def)
qed


end
