(* ===== verification/Reload_Window.thy ===== *)
theory Reload_Window
  imports End_To_End
begin

text \<open>
  A reload takes effect in several writes, each under its own lock, and connections and requests are
  served in between. Here the writes of \<^verbatim>\<open>reload_full\<close> and \<^verbatim>\<open>reload_subs\<close> (\<^verbatim>\<open>src/main.rs\<close>) are steps of their own, in the
  order of the code, interleaved with the traffic on the connection pool.

  The lemmas show that the writes add up to the reloads of \<open>Daemon\<close>, that the routing table is
  replaced before the links are, and that a client of a node that both lists have is served at
  every moment. They also show how an endpoint that a reload retires can come back into the pool.
\<close>

subsection \<open>Definitions\<close>

datatype commit_write =
    WriteConfig config
  | ReloadFilter string
  | WriteIdleTimeout "nat option"
  | WritePoolIdleTimeout "nat option"
  | WriteValidator validator
  | PruneToEndpoints "(string \<times> string) set"
  | WriteHttp http_state

fun apply_write :: "reload_input \<Rightarrow> commit_write \<Rightarrow> daemon \<Rightarrow> daemon" where
  "apply_write i (WriteConfig cfg) d = d\<lparr>dm_config := cfg\<rparr>"
| "apply_write i (ReloadFilter f) d = d\<lparr>dm_log_filter := f\<rparr>"
| "apply_write i (WriteIdleTimeout t) d = d\<lparr>dm_runtime := set_relay_idle_timeout (dm_runtime d) t\<rparr>"
| "apply_write i (WritePoolIdleTimeout t) d =
     d\<lparr>dm_runtime := (dm_runtime d)\<lparr>rt_grpc_pool := set_idle_timeout (rt_grpc_pool (dm_runtime d)) t\<rparr>\<rparr>"
| "apply_write i (WriteValidator v) d = d\<lparr>dm_runtime := (dm_runtime d)\<lparr>rt_validator := v\<rparr>\<rparr>"
| "apply_write i (PruneToEndpoints eps) d =
     (let p = rt_grpc_pool (dm_runtime d) in
      d\<lparr>dm_runtime := (dm_runtime d)\<lparr>rt_grpc_pool := prune_stale p (ri_snapshot i p eps)\<rparr>\<rparr>)"
| "apply_write i (WriteHttp hs) d = d\<lparr>dm_http := hs\<rparr>"

definition commit_full :: "daemon_env \<Rightarrow> config \<Rightarrow> loaded_subscriptions \<Rightarrow> http_state \<Rightarrow> commit_write list" where
  "commit_full env eff ls hs =
     [WriteConfig eff, ReloadFilter (log_filter env eff),
      WriteIdleTimeout (duration_from_seconds (relay_idle_timeout (relay eff))),
      WritePoolIdleTimeout (duration_from_seconds (grpc_pool_idle_timeout (relay eff))),
      WriteValidator (ls_validator ls), PruneToEndpoints (ls_grpc_endpoints ls), WriteHttp hs]"

definition commit_subs :: "loaded_subscriptions \<Rightarrow> http_state \<Rightarrow> commit_write list" where
  "commit_subs ls hs = [WriteValidator (ls_validator ls), PruneToEndpoints (ls_grpc_endpoints ls), WriteHttp hs]"

text \<open>The writes of a reload that goes through, with what it has loaded before the first one.\<close>

definition full_commits :: "daemon_env \<Rightarrow> string \<Rightarrow> reload_input \<Rightarrow> daemon \<Rightarrow> loaded_subscriptions \<Rightarrow> http_state
    \<Rightarrow> commit_write list \<Rightarrow> bool" where
  "full_commits env path i d ls hs ws \<longleftrightarrow>
     (\<exists>cfg eff. load_config_with_retry env (ri_reads i) path = Inr cfg
        \<and> load_subscriptions env (ri_world i) (subscription cfg) = Inr ls
        \<and> eff = fst (preserve_running_relay cfg (relay (dm_config d))) \<and> ri_filter i = Inr ()
        \<and> http_of env (http_users (http eff)) eff (ls_nodes ls) = Inr hs \<and> ws = commit_full env eff ls hs)"

definition subs_commits :: "daemon_env \<Rightarrow> reload_input \<Rightarrow> daemon \<Rightarrow> loaded_subscriptions \<Rightarrow> http_state
    \<Rightarrow> commit_write list \<Rightarrow> bool" where
  "subs_commits env i d ls hs ws \<longleftrightarrow>
     load_subscriptions env (ri_world i) (subscription (dm_config d)) = Inr ls
     \<and> http_of env (hs_users (dm_http d)) (dm_config d) (ls_nodes ls) = Inr hs \<and> ws = commit_subs ls hs"

text \<open>The next write, or connections that use the pool.\<close>

inductive window_step :: "reload_input \<Rightarrow> commit_write list \<times> daemon \<Rightarrow> commit_write list \<times> daemon \<Rightarrow> bool" for i where
  commit: "window_step i (w # ws, d) (ws, apply_write i w d)"
| traffic: "window_step i (ws, d) (ws, d\<lparr>dm_runtime := (dm_runtime d)\<lparr>rt_grpc_pool := p\<rparr>\<rparr>)"

abbreviation window_run :: "reload_input \<Rightarrow> commit_write list \<times> daemon \<Rightarrow> commit_write list \<times> daemon \<Rightarrow> bool" where
  "window_run i \<equiv> (window_step i)\<^sup>*\<^sup>*"

subsection \<open>The writes add up to the reload\<close>

text \<open>
  Made one after the other, the writes of a reload lead from the daemon before to the
  daemon after it; and a reload makes them exactly when it succeeds.
\<close>

lemma commits_add_up:
  "(full_commits env path i d ls hs ws
      \<longrightarrow> reload_full env path i d = (Inr (length (ls_nodes ls)), fold (apply_write i) ws d))
   \<and> (subs_commits env i d ls hs ws
      \<longrightarrow> reload_subs env i d = (Inr (length (ls_nodes ls)), fold (apply_write i) ws d))
   \<and> (fst (reload_full env path i d) = Inr n \<longrightarrow> (\<exists>ls hs ws. full_commits env path i d ls hs ws))
   \<and> (fst (reload_subs env i d) = Inr n \<longrightarrow> (\<exists>ls hs ws. subs_commits env i d ls hs ws))"
proof (intro conjI impI)
  assume "full_commits env path i d ls hs ws"
  then show "reload_full env path i d = (Inr (length (ls_nodes ls)), fold (apply_write i) ws d)"
    by (auto simp: full_commits_def commit_full_def reload_full_def Let_def install_validator_def set_relay_idle_timeout_def)
next
  assume "subs_commits env i d ls hs ws"
  then show "reload_subs env i d = (Inr (length (ls_nodes ls)), fold (apply_write i) ws d)"
    by (simp add: subs_commits_def commit_subs_def reload_subs_def Let_def install_validator_def)
next
  assume "fst (reload_full env path i d) = Inr n"
  then show "\<exists>ls hs ws. full_commits env path i d ls hs ws"
    by (auto simp: full_commits_def reload_full_def Let_def split: sum.splits)
next
  assume "fst (reload_subs env i d) = Inr n"
  then show "\<exists>ls hs ws. subs_commits env i d ls hs ws"
    by (auto simp: subs_commits_def reload_subs_def Let_def split: sum.splits)
qed

subsection \<open>While a reload takes effect\<close>

lemma apply_write_served:
  "served d1 = served d2 \<Longrightarrow> served (apply_write i w d1) = served (apply_write i w d2)"
  by (cases w) (simp_all add: served_def set_relay_idle_timeout_def Let_def)

text \<open>At any moment the writes made so far are a prefix, and traffic changes nothing that is served.\<close>

lemma window_prefix:
  assumes "window_run i (ws0, d) (ws, d')"
  obtains don where "ws0 = don @ ws" "served d' = served (fold (apply_write i) don d)"
proof -
  have "\<exists>don. ws0 = don @ ws \<and> served d' = served (fold (apply_write i) don d)"
    using assms
  proof (induction arbitrary: rule: rtranclp_induct2)
    case refl
    then show ?case by (intro exI [of _ "[]"]) simp
  next
    case (step ws1 d1 ws2 d2)
    then obtain don where don: "ws0 = don @ ws1" "served d1 = served (fold (apply_write i) don d)" by blast
    from step.hyps(2) show ?case
    proof (cases rule: window_step.cases)
      case (commit w)
      then show ?thesis using don apply_write_served [OF don(2)] by (intro exI [of _ "don @ [w]"]) auto
    next
      case (traffic p)
      then show ?thesis using don by (intro exI [of _ don]) (auto simp: served_def)
    qed
  qed
  then show thesis using that by blast
qed

text \<open>The routing table is replaced before the links.\<close>

lemma commit_order:
  assumes "ws0 = commit_full env eff ls hs \<or> ws0 = commit_subs ls hs" and "window_run i (ws0, d) (ws, d')"
  shows "rt_validator (dm_runtime d') = rt_validator (dm_runtime d) \<and> dm_http d' = dm_http d
    \<or> rt_validator (dm_runtime d') = ls_validator ls \<and> dm_http d' = (if ws = [] then hs else dm_http d)"
proof -
  obtain don where don: "ws0 = don @ ws" "served d' = served (fold (apply_write i) don d)"
    using window_prefix [OF assms(2)] .
  have eq: "rt_validator (dm_runtime d') = rt_validator (dm_runtime (fold (apply_write i) don d))"
      "dm_http d' = dm_http (fold (apply_write i) don d)"
    using don(2) by (simp_all add: served_def)
  from assms(1) don(1) show ?thesis unfolding eq
    by (auto simp: commit_full_def commit_subs_def Cons_eq_append_conv append_eq_Cons_conv set_relay_idle_timeout_def Let_def)
qed

definition reached_by_client :: "inbound_kind \<Rightarrow> crypto \<Rightarrow> (bytes \<Rightarrow> bytes \<Rightarrow> bytes) \<Rightarrow> relay_runtime \<Rightarrow> vmess_node list
    \<Rightarrow> vmess_node \<Rightarrow> bool" where
  "reached_by_client ib c enc rt nodes n \<longleftrightarrow>
     (case ib of TcpInbound \<Rightarrow> reached_over_tcp c enc rt nodes n | GrpcInbound s \<Rightarrow> reached_over_grpc c enc rt s nodes n)"

lemma node_reached_by_client:
  "build_validator c env mgr = Inr (rt_validator rt) \<Longrightarrow> n \<in> set (all_nodes mgr) \<Longrightarrow> cipher_laws c enc
   \<Longrightarrow> reached_by_client ib c enc rt (all_nodes mgr) n"
  using node_reached_over_tcp node_reached_over_grpc by (auto simp: reached_by_client_def split: inbound_kind.split)

text \<open>
  C8 (served_during_reload). While a reload takes effect there is no moment without service. Clients are
  routed by the old node list or by the new one, never by a mixture, and every node of that list is
  reached; so a client whose UUID both lists have is served throughout. The links are those of the
  old list until the last write, and new links are published only when the new routing table is
  in use.
\<close>

theorem served_during_reload:
  assumes "main env reads w tls_config path = Inr st" and "main_loop env path evs (st_daemon st) = Running d"
    and "cipher_laws (dn_crypto env) enc"
    and "full_commits env path i d ls hs ws0 \<or> subs_commits env i d ls hs ws0" and "window_run i (ws0, d) (ws, d')"
  shows "\<exists>mgr nodes. build_validator (dn_crypto env) (dn_sub env) mgr = Inr (rt_validator (dm_runtime d))
    \<and> (nodes = all_nodes mgr \<and> rt_validator (dm_runtime d') = rt_validator (dm_runtime d) \<and> dm_http d' = dm_http d
       \<or> nodes = ls_nodes ls \<and> rt_validator (dm_runtime d') = ls_validator ls \<and> dm_http d' = (if ws = [] then hs else dm_http d))
    \<and> (\<forall>m \<in> set nodes. reached_by_client (st_inbound st) (dn_crypto env) enc (dm_runtime d') nodes m)"
proof -
  obtain mgr h where mgr: "build_validator (dn_crypto env) (dn_sub env) mgr = Inr (rt_validator (dm_runtime d))"
    using published_nodes [OF assms(1,2)] .
  obtain eff where ws: "ws0 = commit_full env eff ls hs \<or> ws0 = commit_subs ls hs"
    using assms(4) by (auto simp: full_commits_def subs_commits_def)
  obtain mgr' where mgr': "build_validator (dn_crypto env) (dn_sub env) mgr' = Inr (ls_validator ls)" "all_nodes mgr' = ls_nodes ls"
    using assms(4) loaded_subscriptions by (metis full_commits_def subs_commits_def)
  from commit_order [OF ws assms(5)] show ?thesis
  proof
    assume old: "rt_validator (dm_runtime d') = rt_validator (dm_runtime d) \<and> dm_http d' = dm_http d"
    then show ?thesis
      using mgr node_reached_by_client [of "dn_crypto env" "dn_sub env" mgr "dm_runtime d'"] assms(3)
      by (intro exI [of _ mgr] exI [of _ "all_nodes mgr"]) simp
  next
    assume new: "rt_validator (dm_runtime d') = ls_validator ls \<and> dm_http d' = (if ws = [] then hs else dm_http d)"
    then show ?thesis
      using mgr mgr' node_reached_by_client [of "dn_crypto env" "dn_sub env" mgr' "dm_runtime d'"] assms(3)
      by (intro exI [of _ mgr] exI [of _ "ls_nodes ls"]) auto
  qed
qed

text \<open>A refresh of the sample daemon, which gives it the same node again.\<close>

lemma e2e_refresh:
  obtains st ls hs e where "main e2e_env (\<lambda>_. Inr []) offline_world (Inr ()) ''c'' = Inr st" "st_inbound st = TcpInbound"
    "subs_commits e2e_env (sample_input []) (st_daemon st) ls hs (commit_subs ls hs)"
    "entries (rt_validator (dm_runtime (st_daemon st))) = [e]" "ls_nodes ls = [sample_node\<lparr>n_uuid := sample_uuid\<rparr>]"
    "ls_grpc_endpoints ls = {}"
proof -
  let ?n = "sample_node\<lparr>n_uuid := sample_uuid\<rparr>"
  obtain ls e where ls: "load_subscriptions e2e_env offline_world sample_subscription = Inr ls" "ls_nodes ls = [?n]"
      "entries (ls_validator ls) = [e]" "transport (upstream e) = Tcp"
    using e2e_loaded .
  have "ls_grpc_endpoints ls = {}"
    using loaded_subscriptions [OF ls(1)] ls(3,4) by (auto simp: grpc_endpoints_def grpc_endpoint_def List.map_filter_simps)
  obtain st ro l where st: "main e2e_env (\<lambda>_. Inr []) offline_world (Inr ()) ''c'' = Inr st"
      "rt_validator (dm_runtime (st_daemon st)) = ls_validator ls" "st_inbound st = TcpInbound"
      "subscription (dm_config (st_daemon st)) = sample_subscription" "http_outputs (http (dm_config (st_daemon st))) = [e2e_output]"
    using e2e_main [OF ls(1,2)] .
  obtain ro' l' where "http_of e2e_env (hs_users (dm_http (st_daemon st))) (dm_config (st_daemon st)) [?n]
      = Inr \<lparr>hs_users = hs_users (dm_http (st_daemon st)), hs_outputs = [ro']\<rparr>"
    using e2e_http [OF st(5)] .
  with ls st \<open>ls_grpc_endpoints ls = {}\<close> show thesis by (intro that) (auto simp: subs_commits_def sample_input_def)
qed

theorem served_during_reload_witness:
  "\<exists>(st :: started) ls hs nodes d'. main e2e_env (\<lambda>_. Inr []) offline_world (Inr ()) ''c'' = Inr st
     \<and> window_run (sample_input []) (commit_subs ls hs, st_daemon st) ([PruneToEndpoints (ls_grpc_endpoints ls), WriteHttp hs], d')
     \<and> nodes \<noteq> [] \<and> (\<forall>m \<in> set nodes. reached_by_client TcpInbound toy_crypto (\<lambda>k b. b) (dm_runtime d') nodes m)"
proof -
  obtain st ls hs e where st: "main e2e_env (\<lambda>_. Inr []) offline_world (Inr ()) ''c'' = Inr st" "st_inbound st = TcpInbound"
      "subs_commits e2e_env (sample_input []) (st_daemon st) ls hs (commit_subs ls hs)"
      "entries (rt_validator (dm_runtime (st_daemon st))) = [e]" "ls_nodes ls = [sample_node\<lparr>n_uuid := sample_uuid\<rparr>]"
      "ls_grpc_endpoints ls = {}"
    using e2e_refresh .
  let ?i = "sample_input []" and ?ws = "[PruneToEndpoints (ls_grpc_endpoints ls), WriteHttp hs]"
  let ?d' = "apply_write ?i (WriteValidator (ls_validator ls)) (st_daemon st)"
  have run: "window_run ?i (commit_subs ls hs, st_daemon st) (?ws, ?d')"
    unfolding commit_subs_def by (rule r_into_rtranclp) (rule window_step.commit)
  have c: "dn_crypto e2e_env = toy_crypto" by (simp add: sample_daemon_env_def)
  have loop: "main_loop e2e_env ''c'' [] (st_daemon st) = Running (st_daemon st)" by simp
  have law: "cipher_laws (dn_crypto e2e_env) (\<lambda>k b. b)" unfolding c by (simp add: cipher_laws_def toy_crypto_def)
  from served_during_reload [OF st(1) loop law disjI2 [OF st(3)] run]
  obtain mgr nodes where nodes: "build_validator toy_crypto (dn_sub e2e_env) mgr = Inr (rt_validator (dm_runtime (st_daemon st)))"
      "nodes = all_nodes mgr \<or> nodes = ls_nodes ls"
      "\<forall>m \<in> set nodes. reached_by_client TcpInbound toy_crypto (\<lambda>k b. b) (dm_runtime ?d') nodes m"
    unfolding c st(2) by blast
  have "all_nodes mgr \<noteq> []" using built_entries [OF nodes(1)] st(4) by auto
  then have "nodes \<noteq> []" using nodes(2) st(5) by auto
  with st(1) run nodes(3) show ?thesis by blast
qed

subsection \<open>Retired endpoints\<close>

lemma get_or_create_key:
  assumes "get_or_create cn p h sni now = (Inr c, p')"
  shows "pool_key h sni \<in> dom (gp_conns p')"
proof -
  have "pool_key h sni \<in> dom (gp_conns (snd (slot_entry p (pool_key h sni))))"
    by (auto simp: slot_entry_def Let_def split: option.splits)
  with assms show ?thesis
    by (auto simp: get_or_create_def Let_def lock_slot_def set_conn_def set_slot_def finish_connect_def
        split: option.splits lock_result.splits sum.splits)
qed

lemma tunnel_key:
  assumes "open_grpc_tunnel net up p = (Inr tn, p')" and "transport up = Grpc service sni u"
  shows "pool_key (addr up) sni \<in> dom (gp_conns p')"
  using assms get_or_create_key
  by (fastforce simp: open_grpc_tunnel_def send_tunnel_request_def split: prod.splits sum.splits if_splits)

lemma prune_idle_keys: "gp_conns (prune_idle now p slots) = gp_conns p"
proof -
  have "gp_conns (foldl (prune_idle_slot now t) p slots) = gp_conns p" for t
    by (induction slots arbitrary: p) (simp_all add: prune_idle_slot_def set_conn_def set_slot_def split: option.split)
  then show ?thesis by (simp add: prune_idle_def prune_idle_older_than_def split: option.split)
qed

text \<open>
  C29 (retired_endpoint_returns). A client that was matched just before a reload can put an endpoint the reload
  has retired back into the pool: it opens its tunnel after the pool was pruned. The entry
  then stays although no route leads to it; pruning by idle time never removes an entry.
\<close>

theorem retired_endpoint_returns:
  assumes "full_commits env path i d ls hs ws0 \<or> subs_commits env i d ls hs ws0" and "window_run i (ws0, d) ([], d')"
    and "match_auth_id c now (rt_validator (dm_runtime d)) a = Some up" and "transport up = Grpc service sni u"
    and "(addr up, sni) \<notin> ls_grpc_endpoints ls"
    and "open_grpc_tunnel net up (rt_grpc_pool (dm_runtime d')) = (Inr tn, p)"
  shows "(addr up, sni) \<notin> grpc_endpoints (rt_validator (dm_runtime d'))
    \<and> pool_key (addr up) sni \<in> dom (gp_conns (prune_idle later p slots))"
proof -
  obtain eff where ws: "ws0 = commit_full env eff ls hs \<or> ws0 = commit_subs ls hs"
    using assms(1) by (auto simp: full_commits_def subs_commits_def)
  have eps: "ls_grpc_endpoints ls = grpc_endpoints (ls_validator ls)"
    using assms(1) loaded_subscriptions by (metis full_commits_def subs_commits_def)
  have "served d' = served (fold (apply_write i) ws0 d)" using window_prefix [OF assms(2)] by auto
  then have "rt_validator (dm_runtime d') = ls_validator ls"
    using ws by (auto simp: served_def commit_full_def commit_subs_def Let_def)
  then show ?thesis using eps assms(4-6) tunnel_key [OF assms(6,4)] by (simp add: prune_idle_keys)
qed

theorem retired_endpoint_returns_witness:
  "\<exists>d ls hs d' tn p. subs_commits e2e_env (sample_input []) d ls hs (commit_subs ls hs)
     \<and> window_run (sample_input []) (commit_subs ls hs, d) ([], d')
     \<and> open_grpc_tunnel sample_net grpc_upstream (rt_grpc_pool (dm_runtime d')) = (Inr tn, p)
     \<and> (addr grpc_upstream, ''example.org'') \<notin> grpc_endpoints (rt_validator (dm_runtime d'))
     \<and> pool_key (addr grpc_upstream) ''example.org'' \<in> dom (gp_conns (prune_idle 1000000 p [0, 1]))"
proof -
  obtain st ls hs e where st: "main e2e_env (\<lambda>_. Inr []) offline_world (Inr ()) ''c'' = Inr st" "st_inbound st = TcpInbound"
      "subs_commits e2e_env (sample_input []) (st_daemon st) ls hs (commit_subs ls hs)"
      "entries (rt_validator (dm_runtime (st_daemon st))) = [e]" "ls_nodes ls = [sample_node\<lparr>n_uuid := sample_uuid\<rparr>]"
      "ls_grpc_endpoints ls = {}"
    using e2e_refresh .
  obtain v where v: "match_auth_id toy_crypto 1000 v sample_auth = Some grpc_upstream" using sample_auth_matches .
  obtain tn p where tn: "open_grpc_tunnel sample_net grpc_upstream (grpc_pool_new None) = (Inr tn, p)" using sample_tunnel by blast
  let ?i = "sample_input []" and ?d = "(st_daemon st)\<lparr>dm_runtime := relay_runtime_new v (grpc_pool_new None) None\<rparr>"
  let ?d' = "fold (apply_write ?i) (commit_subs ls hs) ?d"
  have c: "subs_commits e2e_env ?i ?d ls hs (commit_subs ls hs)" using st(3) by (simp add: subs_commits_def)
  have run: "window_run ?i (ws, d) ([], fold (apply_write ?i) ws d)" for ws d
    by (induction ws arbitrary: d) (auto intro: converse_rtranclp_into_rtranclp window_step.commit)
  have pool: "rt_grpc_pool (dm_runtime ?d') = grpc_pool_new None"
    by (simp add: commit_subs_def sample_input_def relay_runtime_new_def Let_def)
  have "(addr grpc_upstream, ''example.org'') \<notin> grpc_endpoints (rt_validator (dm_runtime ?d'))
      \<and> pool_key (addr grpc_upstream) ''example.org'' \<in> dom (gp_conns (prune_idle 1000000 p [0, 1]))"
    by (rule retired_endpoint_returns [OF disjI2 [OF c] run, of toy_crypto 1000 sample_auth grpc_upstream])
      (use v tn st(6) in \<open>auto simp: relay_runtime_new_def grpc_upstream_def pool [unfolded relay_runtime_new_def]\<close>)
  moreover have "open_grpc_tunnel sample_net grpc_upstream (rt_grpc_pool (dm_runtime ?d')) = (Inr tn, p)"
    unfolding pool by (rule tn)
  ultimately show ?thesis
    using c run by (intro exI [of _ ?d] exI [of _ ls] exI [of _ hs] exI [of _ ?d'] exI [of _ tn] exI [of _ p] conjI) blast+
qed

end
