(* ===== verification/Pooled_Buffers.thy ===== *)
theory Pooled_Buffers
  imports Relay_Core
begin

text \<open>
  The users of the buffer pool of \<^verbatim>\<open>src/buf.rs\<close>: the frame encoder, the sending loop and the frame reader
  of \<^verbatim>\<open>src/relay/transport/grpc.rs\<close>, and \<^verbatim>\<open>drain_and_close\<close> of \<^verbatim>\<open>src/relay/core.rs\<close>, with their buffers taken from and
  returned to a pool that all connections share. What other tasks do to the pool between two steps
  is an arbitrary function of the pool. How a \<^verbatim>\<open>BytesMut\<close> grows is a parameter.

  The lemmas show that the pool is transparent: whatever is left in pooled buffers and whatever
  other tasks do, the loops do exactly what \<open>Grpc_Stream\<close> says of them. So no byte of one connection gets
  into another. They also show by how much less a reader returns its buffer, and who gets it next.
\<close>

subsection \<open>Definitions: buffers\<close>

text \<open>\<^verbatim>\<open>BufMut::put_slice\<close> and \<^verbatim>\<open>extend_from_slice\<close>: \<open>grow\<close> gives the capacity after a reallocation.\<close>

definition bm_extend :: "(nat \<Rightarrow> nat \<Rightarrow> nat) \<Rightarrow> bytes_mut \<Rightarrow> bytes \<Rightarrow> bytes_mut" where
  "bm_extend grow b bs =
     (let n = length (bm_data b) + length bs in
      \<lparr>bm_data = bm_data b @ bs, bm_cap = (if n \<le> bm_cap b then bm_cap b else grow (bm_cap b) n)\<rparr>)"

text \<open>\<^verbatim>\<open>BytesMut::split_to\<close>: the rest keeps what is left of the capacity.\<close>

definition bm_split_to :: "bytes_mut \<Rightarrow> nat \<Rightarrow> bytes \<times> bytes_mut" where
  "bm_split_to b n = (take n (bm_data b), \<lparr>bm_data = drop n (bm_data b), bm_cap = bm_cap b - n\<rparr>)"

subsection \<open>Definitions: frames that own a pooled buffer\<close>

record pooled_frame_owner =
  po_buf :: "bytes_mut option"

definition owner_as_ref :: "pooled_frame_owner \<Rightarrow> bytes result" where
  "owner_as_ref ow =
     (case po_buf ow of Some b \<Rightarrow> Inr (bm_data b) | None \<Rightarrow> Inl (Panic ''pooled frame owner must hold a buffer''))"

definition owner_drop :: "buf_pool \<Rightarrow> pooled_frame_owner \<Rightarrow> pooled_frame_owner \<times> buf_pool" where
  "owner_drop p ow =
     (case po_buf ow of
        Some b \<Rightarrow> (ow\<lparr>po_buf := None\<rparr>, buf_put p (bytes_mut_clear b))
      | None \<Rightarrow> (ow, p))"

definition encode_grpc_frame_owned :: "(nat \<Rightarrow> nat \<Rightarrow> nat) \<Rightarrow> buf_pool \<Rightarrow> bytes \<Rightarrow> pooled_frame_owner \<times> buf_pool" where
  "encode_grpc_frame_owned grow p data =
     (let outer_len = frame_outer_len data;
          (buf, p') = buf_get p (5 + outer_len);
          buf = bm_extend grow buf [0];
          buf = bm_extend grow buf (put_u32 [] outer_len);
          buf = bm_extend grow buf [0x0A];
          buf = bm_extend grow buf (write_varint [] (word_of_nat (length data)));
          buf = bm_extend grow buf data
      in (\<lparr>po_buf = Some buf\<rparr>, p'))"

subsection \<open>Definitions: the sending loop\<close>

text \<open>
  The loop with its read buffer. Before its \<open>k\<close>-th use of the pool other tasks have changed it by
  \<open>others k\<close>; this includes the frames already handed to the connection, whose buffers come back
  when the connection drops them.
\<close>

fun raw_to_grpc_pooled_loop :: "(nat \<Rightarrow> buf_pool \<Rightarrow> buf_pool) \<Rightarrow> (nat \<Rightarrow> nat \<Rightarrow> nat) \<Rightarrow> nat \<Rightarrow> buf_pool \<Rightarrow> bytes_mut
    \<Rightarrow> read_event list \<Rightarrow> send_stream \<Rightarrow> activity
    \<Rightarrow> ((unit result \<times> send_stream \<times> activity) \<times> nat \<times> buf_pool \<times> bytes_mut) option" where
  "raw_to_grpc_pooled_loop others grow k p read_buf [] s a =
     map_option (\<lambda>r. (r, k, p, read_buf)) (raw_to_grpc_end s a)"
| "raw_to_grpc_pooled_loop others grow k p read_buf (ReadFailed e # evs) s a =
     Some ((Inl (Foreign e), s, a), k, p, read_buf)"
| "raw_to_grpc_pooled_loop others grow k p read_buf (ReadData d # evs) s a =
     (let n = length d; read_buf = bm_extend grow read_buf d in
      if n = 0 then map_option (\<lambda>r. (r, k, p, read_buf)) (raw_to_grpc_end s a)
      else
        (let (ow, p') = encode_grpc_frame_owned grow (others k p) (take n (bm_data read_buf)) in
         case owner_as_ref ow of
           Inl e \<Rightarrow> Some ((Inl e, s, mark a), Suc k, p', read_buf)
         | Inr frame \<Rightarrow>
             (case send_grpc_data s frame False of
                None \<Rightarrow> None
              | Some (Inl e, s') \<Rightarrow> Some ((Inl e, s', mark a), Suc k, p', read_buf)
              | Some (Inr _, s') \<Rightarrow>
                  raw_to_grpc_pooled_loop others grow (Suc k) p' (bytes_mut_clear read_buf) evs s' (mark (mark a)))))"

definition raw_to_grpc_pooled :: "(nat \<Rightarrow> buf_pool \<Rightarrow> buf_pool) \<Rightarrow> (nat \<Rightarrow> nat \<Rightarrow> nat) \<Rightarrow> buf_pool \<Rightarrow> read_event list
    \<Rightarrow> send_stream \<Rightarrow> activity \<Rightarrow> ((unit result \<times> send_stream \<times> activity) \<times> buf_pool) option" where
  "raw_to_grpc_pooled others grow p evs s a =
     (let (read_buf, p1) = buf_get (others 0 p) RAW_TO_GRPC_READ_BUF_SIZE in
      map_option (\<lambda>(r, k, p2, read_buf'). (r, buf_put (others k p2) read_buf'))
        (raw_to_grpc_pooled_loop others grow 1 p1 read_buf evs s a))"

subsection \<open>Definitions: the frame reader\<close>

definition GRPC_TO_RAW_INIT_BUF_SIZE :: nat where
  "GRPC_TO_RAW_INIT_BUF_SIZE = 16 * 1024"

record pooled_reader =
  pr_recv :: "recv_event list"
  pr_buf :: bytes_mut
  pr_released :: nat

definition pooled_reader_new :: "buf_pool \<Rightarrow> recv_event list \<Rightarrow> pooled_reader \<times> buf_pool" where
  "pooled_reader_new p evs =
     (let (buf, p') = buf_get p GRPC_TO_RAW_INIT_BUF_SIZE in
      (\<lparr>pr_recv = evs, pr_buf = buf, pr_released = 0\<rparr>, p'))"

fun pooled_next_frame_loop :: "(nat \<Rightarrow> nat \<Rightarrow> nat) \<Rightarrow> recv_event list \<Rightarrow> bytes_mut \<Rightarrow> nat
    \<Rightarrow> bytes option result \<times> pooled_reader" where
  "pooled_next_frame_loop grow evs buf released =
     (let outer_len = frame_header_len (bm_data buf) in
      if length (bm_data buf) \<ge> 5 \<and> outer_len > MAX_GRPC_FRAME_SIZE then
        (Inl (FrameTooLarge outer_len), \<lparr>pr_recv = evs, pr_buf = buf, pr_released = released\<rparr>)
      else if length (bm_data buf) \<ge> 5 \<and> length (bm_data buf) \<ge> 5 + outer_len then
        (let (f, rest) = bm_split_to buf (5 + outer_len) in
         (Inr (Some f), \<lparr>pr_recv = evs, pr_buf = rest, pr_released = released\<rparr>))
      else
        (case evs of
           [] \<Rightarrow> (Inr None, \<lparr>pr_recv = [], pr_buf = buf, pr_released = released\<rparr>)
         | RecvFailed e # evs' \<Rightarrow> (Inl (RecvError e), \<lparr>pr_recv = evs', pr_buf = buf, pr_released = released\<rparr>)
         | Chunk chunk # evs' \<Rightarrow>
             pooled_next_frame_loop grow evs' (bm_extend grow buf chunk) (released + length chunk)))"

definition pooled_next_frame :: "(nat \<Rightarrow> nat \<Rightarrow> nat) \<Rightarrow> pooled_reader \<Rightarrow> bytes option result \<times> pooled_reader" where
  "pooled_next_frame grow r = pooled_next_frame_loop grow (pr_recv r) (pr_buf r) (pr_released r)"

definition pooled_reader_drop :: "buf_pool \<Rightarrow> pooled_reader \<Rightarrow> buf_pool" where
  "pooled_reader_drop p r = buf_put p (bytes_mut_clear (pr_buf r))"

subsection \<open>Definitions: draining a refused client\<close>

text \<open>The buffer goes back with the client's bytes in it.\<close>

definition drain_and_close_pooled :: "(nat \<Rightarrow> nat \<Rightarrow> nat) \<Rightarrow> net_env \<Rightarrow> buf_pool \<Rightarrow> read_event list \<Rightarrow> buf_pool" where
  "drain_and_close_pooled grow env p evs =
     (let (buf, p') = buf_get p (ne_drain_len env) in
      buf_put p' (bm_extend grow buf (drain_and_close env evs)))"

declare pooled_next_frame_loop.simps [simp del]

subsection \<open>The sending loop\<close>

lemma bm_data_extend [simp]: "bm_data (bm_extend grow b bs) = bm_data b @ bs"
  by (simp add: bm_extend_def Let_def)

lemma bm_data_clear [simp]: "bm_data (bytes_mut_clear b) = []"
  by (simp add: bytes_mut_clear_def)

lemma encode_owned: "owner_as_ref (fst (encode_grpc_frame_owned grow p data)) = Inr (encode_grpc_frame data)"
proof -
  obtain b p' where b: "buf_get p (5 + frame_outer_len data) = (b, p')" by fastforce
  then have "bm_data b = []" using buf_get_empty [of p "5 + frame_outer_len data"] by simp
  with b show ?thesis
    by (simp add: encode_grpc_frame_owned_def owner_as_ref_def encode_grpc_frame_def Let_def put_u32_def
        write_varint_buf [of "_ # _"])
qed

lemma encode_owned_pair:
  obtains ow p' where "encode_grpc_frame_owned grow p data = (ow, p')" "owner_as_ref ow = Inr (encode_grpc_frame data)"
  using encode_owned [of grow p data] by (metis fst_conv surj_pair)

lemma raw_to_grpc_loop_transparent:
  "bm_data read_buf = [] \<Longrightarrow>
     map_option fst (raw_to_grpc_pooled_loop others grow k p read_buf evs s a) = raw_to_grpc_with_activity evs s a"
proof (induction others grow k p read_buf evs s a rule: raw_to_grpc_pooled_loop.induct)
  case (3 others grow k p read_buf d evs s a)
  show ?case
  proof (cases "d = []")
    case True
    then show ?thesis by (simp add: Let_def option.map_comp comp_def option.map_ident)
  next
    case False
    obtain ow p' where e: "encode_grpc_frame_owned grow (others k p) d = (ow, p')" "owner_as_ref ow = Inr (encode_grpc_frame d)"
      using encode_owned_pair .
    show ?thesis
      using False e 3 by (auto simp: Let_def split: option.splits sum.splits)
  qed
qed (simp_all add: option.map_comp comp_def option.map_ident)

lemma raw_to_grpc_transparent:
  "map_option fst (raw_to_grpc_pooled others grow p evs s a) = raw_to_grpc_with_activity evs s a"
proof -
  obtain rb p1 where rb: "buf_get (others 0 p) RAW_TO_GRPC_READ_BUF_SIZE = (rb, p1)" by fastforce
  then have "bm_data rb = []" using buf_get_empty [of "others 0 p" RAW_TO_GRPC_READ_BUF_SIZE] by simp
  with rb raw_to_grpc_loop_transparent show ?thesis
    by (simp add: raw_to_grpc_pooled_def option.map_comp comp_def case_prod_beta flip: raw_to_grpc_loop_transparent)
qed

subsection \<open>The frame reader\<close>

definition plain_reader :: "pooled_reader \<Rightarrow> frame_reader" where
  "plain_reader r = \<lparr>fr_recv = pr_recv r, fr_buf = bm_data (pr_buf r), fr_released = pr_released r\<rparr>"

lemma next_frame_loop_transparent:
  "map_prod id plain_reader (pooled_next_frame_loop grow evs buf released) = next_frame_loop evs (bm_data buf) released"
proof (induction evs arbitrary: buf released)
  case Nil
  then show ?case
    by (subst pooled_next_frame_loop.simps) (simp add: Let_def peel_frame_def plain_reader_def bm_split_to_def)
next
  case (Cons ev evs)
  show ?case
    by (subst pooled_next_frame_loop.simps)
      (cases ev; simp add: Let_def peel_frame_def plain_reader_def bm_split_to_def add: Cons.IH)
qed

lemma next_frame_transparent: "map_prod id plain_reader (pooled_next_frame grow r) = next_frame (plain_reader r)"
  by (simp add: pooled_next_frame_def next_frame_def next_frame_loop_transparent plain_reader_def)

lemma reader_new_transparent: "plain_reader (fst (pooled_reader_new p evs)) = frame_reader_new evs"
proof -
  obtain b p' where b: "buf_get p GRPC_TO_RAW_INIT_BUF_SIZE = (b, p')" by fastforce
  then have "bm_data b = []" using buf_get_empty [of p GRPC_TO_RAW_INIT_BUF_SIZE] by simp
  with b show ?thesis by (simp add: pooled_reader_new_def plain_reader_def frame_reader_new_def)
qed

text \<open>
  C10 (pool_transparent). The pool of buffers is shared by all connections, and still every one of its users
  behaves as if it had fresh buffers, whatever bytes other clients have left in pooled buffers and
  whatever other tasks do with the pool between any two steps: a frame holds exactly the encoding of its
  data, the sending loop sends exactly what was read, and the frame reader delivers exactly the
  frames that arrive. So no byte of one connection gets into another one.
\<close>

theorem pool_transparent:
  "owner_as_ref (fst (encode_grpc_frame_owned grow p data)) = Inr (encode_grpc_frame data)
   \<and> map_option fst (raw_to_grpc_pooled others grow p evs s a) = raw_to_grpc_with_activity evs s a
   \<and> plain_reader (fst (pooled_reader_new p chunks)) = frame_reader_new chunks
   \<and> map_prod id plain_reader (pooled_next_frame grow r) = next_frame (plain_reader r)"
  using encode_owned raw_to_grpc_transparent reader_new_transparent next_frame_transparent by blast

subsection \<open>The pool stays within its limits\<close>

lemma encode_owned_wf: "pool_wf p \<Longrightarrow> encode_grpc_frame_owned grow p data = (ow, p') \<Longrightarrow> pool_wf p'"
  using buf_get_wf [of p "5 + frame_outer_len data"]
  by (auto simp: encode_grpc_frame_owned_def Let_def split: prod.splits)

lemma raw_to_grpc_loop_wf:
  "raw_to_grpc_pooled_loop others grow k p read_buf evs s a = Some (r, k', p', rb') \<Longrightarrow> pool_wf p
   \<Longrightarrow> (\<And>k p. pool_wf p \<Longrightarrow> pool_wf (others k p)) \<Longrightarrow> pool_wf p'"
proof (induction others grow k p read_buf evs s a rule: raw_to_grpc_pooled_loop.induct)
  case (3 others grow k p read_buf d evs s a)
  obtain ow q where e: "encode_grpc_frame_owned grow (others k p) (take (length d) (bm_data read_buf @ d)) = (ow, q)"
    by fastforce
  then have q: "pool_wf q" using encode_owned_wf 3(3,4) by blast
  show ?case
    using 3 e q by (auto simp: Let_def split: if_splits sum.splits option.splits)
qed auto

lemma pooled_users_wf:
  assumes "pool_wf p" and "\<And>k p. pool_wf p \<Longrightarrow> pool_wf (others k p)"
  shows "pool_wf (snd (owner_drop p ow))" and "pool_wf (snd (pooled_reader_new p chunks))" and "pool_wf (pooled_reader_drop p r)"
    and "pool_wf (drain_and_close_pooled grow env p reads)"
    and "raw_to_grpc_pooled others grow p evs s a = Some (x, p') \<Longrightarrow> pool_wf p'"
proof -
  show "pool_wf (snd (owner_drop p ow))"
    using assms(1) buf_put_wf by (simp add: owner_drop_def split: option.split)
  show "pool_wf (snd (pooled_reader_new p chunks))"
    using assms(1) buf_get_wf [of p GRPC_TO_RAW_INIT_BUF_SIZE] by (auto simp: pooled_reader_new_def split: prod.split)
  show "pool_wf (pooled_reader_drop p r)" using assms(1) buf_put_wf by (simp add: pooled_reader_drop_def)
  show "pool_wf (drain_and_close_pooled grow env p reads)"
    using assms(1) buf_put_wf buf_get_wf [of p "ne_drain_len env"] by (auto simp: drain_and_close_pooled_def split: prod.split)
  show "pool_wf p'" if "raw_to_grpc_pooled others grow p evs s a = Some (x, p')"
  proof -
    obtain rb p1 where rb: "buf_get (others 0 p) RAW_TO_GRPC_READ_BUF_SIZE = (rb, p1)" by fastforce
    then have "pool_wf p1" using buf_get_wf [of "others 0 p" RAW_TO_GRPC_READ_BUF_SIZE] assms by simp
    with that rb show ?thesis
      by (auto simp: raw_to_grpc_pooled_def intro!: buf_put_wf assms(2) dest: raw_to_grpc_loop_wf [OF _ _ assms(2)])
  qed
qed

subsection \<open>Readers wear buffers out\<close>

text \<open>Reading up to \<open>k\<close> frames, as the loops that own a reader do.\<close>

fun pooled_read :: "(nat \<Rightarrow> nat \<Rightarrow> nat) \<Rightarrow> nat \<Rightarrow> pooled_reader \<Rightarrow> bytes list \<times> pooled_reader" where
  "pooled_read grow 0 r = ([], r)"
| "pooled_read grow (Suc k) r =
     (case pooled_next_frame grow r of
        (Inr (Some f), r') \<Rightarrow> (case pooled_read grow k r' of (fs, r'') \<Rightarrow> (f # fs, r''))
      | (_, r') \<Rightarrow> ([], r'))"

lemma pooled_read_frames:
  "pooled_read grow k r = (fs, r') \<Longrightarrow> fs = take k (fst (frames_of (plain_reader r)))"
proof (induction k arbitrary: r fs)
  case (Suc k)
  obtain res r1 where n: "pooled_next_frame grow r = (res, r1)" by fastforce
  then have p: "next_frame (plain_reader r) = (res, plain_reader r1)"
    using next_frame_transparent [of grow r] by simp
  show ?case
  proof (cases "plain_reader r" rule: frames_of_cases)
    case (frame f r2)
    then have "res = Inr (Some f)" "plain_reader r1 = r2" using p by simp_all
    with n frame(3) Suc show ?thesis by (auto split: prod.splits)
  qed (use n p Suc.prems in auto)
qed simp

text \<open>What a reader has still to take in fits its buffer: nothing is reallocated.\<close>

definition fits :: "pooled_reader \<Rightarrow> bool" where
  "fits r \<longleftrightarrow> length (bm_data (pr_buf r)) + length (concat (map event_bytes (pr_recv r))) \<le> bm_cap (pr_buf r)"

definition frame_size :: "bytes option result \<Rightarrow> nat" where
  "frame_size res = (case res of Inr (Some f) \<Rightarrow> length f | _ \<Rightarrow> 0)"

lemma pooled_next_frame_loop_cap:
  assumes "pooled_next_frame_loop grow evs buf rel = (res, r')"
    and "length (bm_data buf) + length (concat (map event_bytes evs)) \<le> bm_cap buf"
  shows "fits r' \<and> bm_cap (pr_buf r') + frame_size res = bm_cap buf"
  using assms
proof (induction evs arbitrary: buf rel)
  case Nil
  then show ?case
    by (auto simp: pooled_next_frame_loop.simps [of _ "[]"] Let_def fits_def frame_size_def bm_split_to_def split: if_splits)
next
  case (Cons ev evs)
  show ?case
  proof (cases "\<exists>chunk. ev = Chunk chunk \<and> pooled_next_frame_loop grow (ev # evs) buf rel
      = pooled_next_frame_loop grow evs (bm_extend grow buf chunk) (rel + length chunk)")
    case True
    then obtain chunk where c: "ev = Chunk chunk"
        "pooled_next_frame_loop grow evs (bm_extend grow buf chunk) (rel + length chunk) = (res, r')"
      using Cons.prems(1) by auto
    have "bm_cap (bm_extend grow buf chunk) = bm_cap buf" using Cons.prems(2) c(1) by (simp add: bm_extend_def Let_def)
    with Cons.IH [OF c(2)] Cons.prems(2) c(1) show ?thesis by simp
  next
    case False
    with Cons.prems show ?thesis
      by (cases ev) (auto simp: pooled_next_frame_loop.simps [of _ "_ # _"] Let_def fits_def frame_size_def bm_split_to_def
          split: if_splits)
  qed
qed

lemma pooled_read_cap:
  "pooled_read grow k r = (fs, r') \<Longrightarrow> fits r \<Longrightarrow> bm_cap (pr_buf r') + length (concat fs) = bm_cap (pr_buf r)"
proof (induction k arbitrary: r fs)
  case (Suc k)
  obtain res r1 where n: "pooled_next_frame grow r = (res, r1)" by fastforce
  then have c: "fits r1" "bm_cap (pr_buf r1) + frame_size res = bm_cap (pr_buf r)"
    using pooled_next_frame_loop_cap [of grow "pr_recv r" "pr_buf r" "pr_released r" res r1] Suc.prems(2)
    by (simp_all add: pooled_next_frame_def fits_def)
  show ?case
  proof (cases "\<exists>f. res = Inr (Some f)")
    case True
    then obtain f where f: "res = Inr (Some f)" ..
    obtain gs r2 where g: "pooled_read grow k r1 = (gs, r2)" by fastforce
    with Suc.prems(1) n f have e: "fs = f # gs" "r2 = r'" by simp_all
    with Suc.IH [OF g [unfolded e(2)] c(1)] c(2) f show ?thesis by (simp add: frame_size_def)
  next
    case False
    then have "fs = [] \<and> r' = r1" using Suc.prems(1) n by (cases res) (auto split: option.splits)
    moreover have "frame_size res = 0" using False by (auto simp: frame_size_def split: sum.split option.split)
    ultimately show ?thesis using c(2) by simp
  qed
qed simp

lemma class_for_init: "8192 < c \<Longrightarrow> c \<le> 16384 \<Longrightarrow> class_for c = Some 4"
  by (simp add: class_for_def SIZE_CLASSES_def)

lemma buf_get_room:
  assumes "pool_wf p" and "class_for n = Some k" and "buf_get p n = (b, p')"
  shows "length (buckets p' ! k) < MAX_POOL_PER_CLASS"
proof -
  have k: "k < length SIZE_CLASSES" using class_for_SomeD [OF assms(2)] by simp
  with assms(1) have "length (buckets p ! k) \<le> MAX_POOL_PER_CLASS" "k < length (buckets p)"
    by (simp_all add: pool_wf_def all_buckets_def bucket_wf_def)
  with assms(2,3) show ?thesis
    by (auto simp: buf_get_def MAX_POOL_PER_CLASS_def split: list.splits)
qed

text \<open>
  C39 (reader_wears_buffer). A frame reader whose input fits the buffer it was given returns the buffer with less
  capacity: less by the bytes of all the frames that were read. The pool files it under the size class that
  the rest rounds up to, if there is room, and hands it out, with the capacity it has left, to the next who asks for
  a buffer of that class, even if that is more than it holds. As long as more than half of the 16 KiB are
  left this is the class of the readers themselves, where there always is room: the next reader has less than the 16 KiB it asks for.
\<close>

theorem reader_wears_buffer:
  assumes "pool_wf p" and "pooled_reader_new p evs = (r, p1)"
    and "length (concat (map event_bytes evs)) \<le> bm_cap (pr_buf r)" and "pooled_read grow k r = (fs, r')"
    and "left = bm_cap (pr_buf r) - length (concat fs)"
    and "class_for left = Some i" and "class_for m = Some i"
    and "length (buckets p1 ! i) < MAX_POOL_PER_CLASS \<or> 8192 < left \<and> left \<le> 16384"
  shows "fs = take k (fst (frames_of (frame_reader_new evs)))
    \<and> bm_cap (fst (buf_get (pooled_reader_drop p1 r') m)) = left"
proof -
  obtain b where b: "buf_get p 16384 = (b, p1)" "r = \<lparr>pr_recv = evs, pr_buf = b, pr_released = 0\<rparr>"
    using assms(2) by (auto simp: pooled_reader_new_def GRPC_TO_RAW_INIT_BUF_SIZE_def split: prod.splits)
  have e: "bm_data b = []" using buf_get_empty [of p 16384] b(1) by simp
  have "plain_reader r = frame_reader_new evs" using reader_new_transparent [of p evs] assms(2) by simp
  with pooled_read_frames [OF assms(4)] have fs: "fs = take k (fst (frames_of (frame_reader_new evs)))" by simp
  have "fits r" using assms(3) e b(2) by (simp add: fits_def)
  from pooled_read_cap [OF assms(4) this] have cap: "bm_cap (pr_buf r') = left" using assms(5) by simp
  have wf: "pool_wf p1" using buf_get_wf [OF assms(1), of 16384] b(1) by simp
  have c16: "class_for 16384 = Some 4" using class_for_init by simp
  have "i = 4" if "8192 < left" "left \<le> 16384" using class_for_init [OF that] assms(6) by simp
  then have room: "length (buckets p1 ! i) < MAX_POOL_PER_CLASS"
    using assms(8) buf_get_room [OF assms(1) c16 b(1)] by blast
  have len: "i < length (buckets p1)"
    using wf class_for_SomeD [OF assms(6)] by (simp add: pool_wf_def all_buckets_def)
  show ?thesis
    using fs cap assms(6,7) room len
    by (simp add: pooled_reader_drop_def buf_put_def buf_get_def bytes_mut_clear_def)
qed

theorem reader_wears_buffer_witness:
  "\<exists>r p1 fs r'. pooled_reader_new buf_pool_new (map Chunk (map encode_grpc_frame [[1, 2], [3, 4]])) = (r, p1)
     \<and> pooled_read (\<lambda>c n. n) 2 r = (fs, r') \<and> fs = map encode_grpc_frame [[1, 2], [3, 4]]
     \<and> bm_cap (fst (buf_get (pooled_reader_drop p1 r') GRPC_TO_RAW_INIT_BUF_SIZE)) = 16366"
proof -
  let ?ds = "[[1, 2], [3, 4]] :: bytes list" and ?evs = "map Chunk (map encode_grpc_frame [[1, 2], [3, 4 :: u8]])"
  have small: "list_all small_payload ?ds" by (simp add: read_buf_small RAW_TO_GRPC_READ_BUF_SIZE_def)
  have frames: "frames_of (frame_reader_new ?evs) = (map encode_grpc_frame ?ds, None)" by (rule frames_of_encoded [OF small refl])
  have o: "frame_outer_len [1, 2] = 4" "frame_outer_len [3, 4] = 4" by (simp_all add: frame_outer_len_def varint_size.simps)
  have len: "length (encode_grpc_frame [1, 2]) = 9" "length (encode_grpc_frame [3, 4]) = 9" using o by simp_all
  let ?r = "\<lparr>pr_recv = ?evs, pr_buf = bytes_mut_with_capacity 16384, pr_released = 0\<rparr>"
  have n: "pooled_reader_new buf_pool_new ?evs = (?r, buf_pool_new)"
    by (simp add: pooled_reader_new_def buf_get_def GRPC_TO_RAW_INIT_BUF_SIZE_def class_for_def SIZE_CLASSES_def
        buf_pool_new_def)
  have cap: "bm_cap (pr_buf ?r) = 16384" by (simp add: bytes_mut_with_capacity_def)
  obtain fs r' where f: "pooled_read (\<lambda>c n. n) 2 ?r = (fs, r')" by fastforce
  have "plain_reader ?r = frame_reader_new ?evs" using reader_new_transparent [of buf_pool_new ?evs] n by simp
  with pooled_read_frames [OF f] frames have fs: "fs = map encode_grpc_frame ?ds" by simp
  have left: "16366 = bm_cap (pr_buf ?r) - length (concat fs)" unfolding fs cap using len by simp
  have "bm_cap (fst (buf_get (pooled_reader_drop buf_pool_new r') GRPC_TO_RAW_INIT_BUF_SIZE)) = 16366"
    by (rule reader_wears_buffer [OF buf_new_wf(1) n _ f left, THEN conjunct2])
      (use cap len class_for_init in \<open>simp_all add: GRPC_TO_RAW_INIT_BUF_SIZE_def\<close>)
  with n f fs show ?thesis by blast
qed

end
