(* ===== verification/Conformance_Process.thy ===== *)
theory Conformance_Process
  imports Sub_Process
begin

text \<open>
  The unit tests of \<^verbatim>\<open>src/subscription/process.rs\<close>, run on the model: every test is a definition with the name it
  has in the source, true when all its assertions hold, and a lemma evaluates it. The regular
  expressions are given by their meaning, pattern by pattern.
\<close>

subsection \<open>What the tests use\<close>

text \<open>The answers of the regular-expression engine on the patterns of these tests.\<close>

fun replace_literal :: "nat \<Rightarrow> string \<Rightarrow> string \<Rightarrow> string \<Rightarrow> string" where
  "replace_literal 0 p r t = t"
| "replace_literal (Suc k) p r t =
     (if starts_with t p \<and> p \<noteq> [] then r @ replace_literal k p r (drop (length p) t)
      else case t of [] \<Rightarrow> [] | c # t' \<Rightarrow> c # replace_literal k p r t')"

definition us_flag :: string where
  "us_flag = [CHR 0xF0, CHR 0x9F, CHR 0x87, CHR 0xBA, CHR 0xF0, CHR 0x9F, CHR 0x87, CHR 0xB8]"

definition hk_flag :: string where
  "hk_flag = [CHR 0xF0, CHR 0x9F, CHR 0x87, CHR 0xAD, CHR 0xF0, CHR 0x9F, CHR 0x87, CHR 0xB0]"

definition test_regex :: regex_engine where
  "test_regex = \<lparr>regex_valid = (\<lambda>_. True),
     regex_is_match = (\<lambda>p t.
       if p = ''^US'' then starts_with t ''US''
       else if p = ''^'' @ us_flag then starts_with t us_flag
       else if p = ''.*Expired.*'' then contains_str t ''Expired''
       else if p = ''.*[Pp]remium.*'' then contains_str t ''Premium'' \<or> contains_str t ''premium''
       else contains_str t p),
     regex_replace_all = (\<lambda>p t r.
       if p = ''^US (.*)$'' then (if starts_with t ''US '' then replace_literal (length r) ''$1'' (drop 3 t) r else t)
       else if p = ''^US '' then (if starts_with t ''US '' then r @ drop 3 t else t)
       else replace_literal (length t) p r t)\<rparr>"

definition make_node :: "string \<Rightarrow> vmess_node" where
  "make_node name = \<lparr>n_name = name, n_source = '''', n_server = ''192.0.2.1'', n_port = 443,
     n_uuid = ''550e8400-e29b-41d4-a716-446655440000'', n_alter_id = 0, n_security = ''auto'', n_network = ''tcp'',
     n_tls = False, n_sni = '''', n_grpc_service_name = None, n_ws_path = None, n_ws_host = None,
     n_packet_encoding = PacketDefault\<rparr>"

definition make_node_with_source :: "string \<Rightarrow> string \<Rightarrow> vmess_node" where
  "make_node_with_source name source = (make_node name)\<lparr>n_source := source\<rparr>"

definition make_node_with_server :: "string \<Rightarrow> string \<Rightarrow> vmess_node" where
  "make_node_with_server name server = (make_node name)\<lparr>n_server := server\<rparr>"

subsection \<open>The tests\<close>

definition test_rename_all_nodes :: bool where
  "test_rename_all_nodes \<longleftrightarrow>
     map n_name (apply_pipeline test_regex [make_node ''US Node 1'', make_node ''HK Node 2'']
       [plain_step\<lparr>ps_rename := [(''^US (.*)$'', ''United States $1'')]\<rparr>])
     = [''United States Node 1'', ''HK Node 2'']"

definition test_rename_only_selected :: bool where
  "test_rename_only_selected \<longleftrightarrow>
     map n_name (apply_pipeline test_regex [make_node ''US Node'', make_node ''HK Node'']
       [plain_step\<lparr>ps_filter := [''^US''], ps_rename := [(''^US '', ''America-'')]\<rparr>])
     = [''America-Node'', ''HK Node'']"

definition test_rename_multiple_rules :: bool where
  "test_rename_multiple_rules \<longleftrightarrow>
     map n_name (apply_pipeline test_regex [make_node ''US Server'']
       [plain_step\<lparr>ps_rename := [(''US'', ''America''), (''Server'', ''Node'')]\<rparr>])
     = [''America Node'']"

definition test_remove_by_name_filter :: bool where
  "test_remove_by_name_filter \<longleftrightarrow>
     map n_name (apply_pipeline test_regex [make_node ''Expired US'', make_node ''Active HK'', make_node ''Expired SG'']
       [plain_step\<lparr>ps_filter := [''.*Expired.*''], ps_remove := True\<rparr>])
     = [''Active HK'']"

definition test_remove_inverted_keeps_only_matching :: bool where
  "test_remove_inverted_keeps_only_matching \<longleftrightarrow>
     (let result = apply_pipeline test_regex [make_node ''Premium US'', make_node ''Free HK'', make_node ''Premium HK'']
            [plain_step\<lparr>ps_filter := [''.*[Pp]remium.*''], ps_invert := True, ps_remove := True\<rparr>]
      in length result = 2 \<and> list_all (\<lambda>n. contains_str (n_name n) ''Premium'') result)"

definition test_remove_by_source :: bool where
  "test_remove_by_source \<longleftrightarrow>
     (let result = apply_pipeline test_regex [make_node_with_source ''Node A'' ''premium_sub'',
              make_node_with_source ''Node B'' ''free_sub'', make_node_with_source ''Node C'' ''premium_sub'']
            [plain_step\<lparr>ps_filter_source := [''free_sub''], ps_remove := True\<rparr>]
      in length result = 2 \<and> list_all (\<lambda>n. n_source n = ''premium_sub'') result)"

definition test_filter_source_keep_only_matching :: bool where
  "test_filter_source_keep_only_matching \<longleftrightarrow>
     (let result = apply_pipeline test_regex [make_node_with_source ''Node A'' ''premium_sub'',
              make_node_with_source ''Node B'' ''free_sub'', make_node_with_source ''Node C'' ''premium_sub'']
            [plain_step\<lparr>ps_filter_source := [''premium_sub''], ps_invert := True, ps_remove := True\<rparr>]
      in length result = 2 \<and> list_all (\<lambda>n. n_source n = ''premium_sub'') result)"

definition test_remove_emoji_strips_emoji :: bool where
  "test_remove_emoji_strips_emoji \<longleftrightarrow>
     map n_name (apply_pipeline test_regex [make_node (us_flag @ '' US Node''), make_node (hk_flag @ '' HK Node'')]
       [plain_step\<lparr>ps_remove_emoji := True\<rparr>])
     = ['' US Node'', '' HK Node'']"

definition test_remove_emoji_only_on_selected :: bool where
  "test_remove_emoji_only_on_selected \<longleftrightarrow>
     map n_name (apply_pipeline test_regex [make_node (us_flag @ '' US Node''), make_node (hk_flag @ '' HK Node'')]
       [plain_step\<lparr>ps_filter := [''^'' @ us_flag], ps_remove_emoji := True\<rparr>])
     = ['' US Node'', hk_flag @ '' HK Node'']"

definition test_override_security_all :: bool where
  "test_override_security_all \<longleftrightarrow>
     list_all (\<lambda>n. n_security n = ''aes-128-gcm'') (apply_pipeline test_regex [make_node ''Node A'', make_node ''Node B'']
       [plain_step\<lparr>ps_override_security := Some ''aes-128-gcm''\<rparr>])"

definition test_override_security_only_selected :: bool where
  "test_override_security_only_selected \<longleftrightarrow>
     map n_security (apply_pipeline test_regex [make_node ''US Node'', make_node ''HK Node'']
       [plain_step\<lparr>ps_filter := [''^US''], ps_override_security := Some ''none''\<rparr>])
     = [''none'', ''auto'']"

definition test_packet_encoding_all :: bool where
  "test_packet_encoding_all \<longleftrightarrow>
     list_all (\<lambda>n. n_packet_encoding n = Xudp) (apply_pipeline test_regex [make_node ''Node A'', make_node ''Node B'']
       [plain_step\<lparr>ps_packet_encoding := Some Xudp\<rparr>])"

definition test_packet_encoding_only_selected :: bool where
  "test_packet_encoding_only_selected \<longleftrightarrow>
     map n_packet_encoding (apply_pipeline test_regex [make_node ''US Node'', make_node ''HK Node'']
       [plain_step\<lparr>ps_filter := [''^US''], ps_packet_encoding := Some PacketAddr\<rparr>])
     = [PacketAddr, PacketDefault]"

definition test_empty_pipeline :: bool where
  "test_empty_pipeline \<longleftrightarrow> length (apply_pipeline test_regex [make_node ''Node A'', make_node ''Node B''] []) = 2"

definition test_empty_step_is_noop :: bool where
  "test_empty_step_is_noop \<longleftrightarrow>
     map n_name (apply_pipeline test_regex [make_node ''Node A'', make_node ''Node B''] [plain_step])
     = [''Node A'', ''Node B'']"

definition test_dedup_rename_appends_suffixes :: bool where
  "test_dedup_rename_appends_suffixes \<longleftrightarrow>
     map n_name (deduplicate_nodes [make_node_with_server ''node'' ''192.0.2.1'',
       make_node_with_server ''node'' ''198.51.100.2'', make_node_with_server ''node'' ''203.0.113.3''] ''rename'')
     = [''node'', ''node (1)'', ''node (2)'']"

definition test_dedup_empty_strategy_is_rename :: bool where
  "test_dedup_empty_strategy_is_rename \<longleftrightarrow>
     map n_name (deduplicate_nodes [make_node_with_server ''node'' ''192.0.2.1'',
       make_node_with_server ''node'' ''198.51.100.2''] '''')
     = [''node'', ''node (1)'']"

definition test_dedup_first_keeps_first_occurrence :: bool where
  "test_dedup_first_keeps_first_occurrence \<longleftrightarrow>
     map n_server (deduplicate_nodes [make_node_with_server ''node'' ''192.0.2.1'',
       make_node_with_server ''node'' ''198.51.100.2'', make_node_with_server ''node'' ''203.0.113.3''] ''first'')
     = [''192.0.2.1'']"

definition test_dedup_last_keeps_last_occurrence :: bool where
  "test_dedup_last_keeps_last_occurrence \<longleftrightarrow>
     map n_server (deduplicate_nodes [make_node_with_server ''node'' ''192.0.2.1'',
       make_node_with_server ''node'' ''198.51.100.2'', make_node_with_server ''node'' ''203.0.113.3''] ''last'')
     = [''203.0.113.3'']"

definition test_dedup_mixed_names_first :: bool where
  "test_dedup_mixed_names_first \<longleftrightarrow>
     (let result = deduplicate_nodes [make_node_with_server ''node1'' ''192.0.2.1'',
            make_node_with_server ''node2'' ''198.51.100.2'', make_node_with_server ''node1'' ''example.com''] ''first''
      in length result = 2 \<and> map_option n_server (List.find (\<lambda>n. n_name n = ''node1'') result) = Some ''192.0.2.1''
         \<and> list_ex (\<lambda>n. n_name n = ''node2'') result)"

definition test_dedup_no_duplicates_unchanged :: bool where
  "test_dedup_no_duplicates_unchanged \<longleftrightarrow>
     length (deduplicate_nodes [make_node_with_server ''node1'' ''192.0.2.1'',
       make_node_with_server ''node2'' ''198.51.100.2''] ''first'') = 2"

definition test_dedup_unknown_strategy_keeps_first_occurrence :: bool where
  "test_dedup_unknown_strategy_keeps_first_occurrence \<longleftrightarrow>
     map n_server (deduplicate_nodes [make_node_with_server ''node'' ''192.0.2.1'',
       make_node_with_server ''node'' ''198.51.100.2''] ''not_a_strategy'')
     = [''192.0.2.1'']"

definition test_dedup_prefer_ipv4 :: bool where
  "test_dedup_prefer_ipv4 \<longleftrightarrow>
     map n_server (deduplicate_nodes [make_node_with_server ''node'' ''example.com'',
       make_node_with_server ''node'' ''192.0.2.10'', make_node_with_server ''node'' ''2001:db8::1''] ''prefer_ipv4'')
     = [''192.0.2.10'']"

definition test_dedup_prefer_ipv6 :: bool where
  "test_dedup_prefer_ipv6 \<longleftrightarrow>
     map n_server (deduplicate_nodes [make_node_with_server ''node'' ''192.0.2.10'',
       make_node_with_server ''node'' ''example.com'', make_node_with_server ''node'' ''2001:db8::1''] ''prefer_ipv6'')
     = [''2001:db8::1'']"

definition test_dedup_prefer_domain_then_ipv4 :: bool where
  "test_dedup_prefer_domain_then_ipv4 \<longleftrightarrow>
     map n_server (deduplicate_nodes [make_node_with_server ''node'' ''192.0.2.10'',
       make_node_with_server ''node'' ''2001:db8::1'', make_node_with_server ''node'' ''example.com'']
       ''prefer_domain_then_ipv4'')
     = [''example.com'']"

definition test_dedup_prefer_domain_then_ipv6 :: bool where
  "test_dedup_prefer_domain_then_ipv6 \<longleftrightarrow>
     map n_server (deduplicate_nodes [make_node_with_server ''node'' ''192.0.2.10'',
       make_node_with_server ''node'' ''2001:db8::1'', make_node_with_server ''node'' ''example.com'']
       ''prefer_domain_then_ipv6'')
     = [''example.com'']"

definition test_get_address_type :: bool where
  "test_get_address_type \<longleftrightarrow>
     get_address_type '''' = AddrUnknown \<and> get_address_type ''example.com'' = AddrDomain
     \<and> get_address_type ''192.0.2.10'' = AddrIpv4 \<and> get_address_type ''2001:db8::1'' = AddrIpv6
     \<and> get_address_type ''::1'' = AddrIpv6"

definition test_get_address_priority_prefer_ipv4 :: bool where
  "test_get_address_priority_prefer_ipv4 \<longleftrightarrow>
     address_priority (dedup_parse ''prefer_ipv4'') AddrIpv4 = 3
     \<and> address_priority (dedup_parse ''prefer_ipv4'') AddrDomain = 2
     \<and> address_priority (dedup_parse ''prefer_ipv4'') AddrIpv6 = 1"

definition test_get_address_priority_prefer_ipv6 :: bool where
  "test_get_address_priority_prefer_ipv6 \<longleftrightarrow>
     address_priority (dedup_parse ''prefer_ipv6'') AddrIpv6 = 3
     \<and> address_priority (dedup_parse ''prefer_ipv6'') AddrDomain = 2
     \<and> address_priority (dedup_parse ''prefer_ipv6'') AddrIpv4 = 1"

definition test_combined_pipeline :: bool where
  "test_combined_pipeline \<longleftrightarrow>
     (let result = apply_pipeline test_regex [make_node_with_source ''Premium US East'' ''sub_a'',
              make_node_with_source ''Free HK'' ''sub_b'', make_node_with_source ''Premium HK West'' ''sub_a'',
              make_node_with_source ''Expired US'' ''sub_a'']
            [plain_step\<lparr>ps_filter_source := [''sub_a''], ps_invert := True, ps_remove := True\<rparr>,
             plain_step\<lparr>ps_filter := [''.*Expired.*''], ps_remove := True\<rparr>,
             plain_step\<lparr>ps_rename := [(''Premium '', '''')], ps_override_security := Some ''none''\<rparr>]
      in length result = 2 \<and> list_ex (\<lambda>n. n_name n = ''US East'') result \<and> list_ex (\<lambda>n. n_name n = ''HK West'') result
         \<and> list_all (\<lambda>n. n_security n = ''none'') result)"

subsection \<open>They hold\<close>

lemmas read_groups_numeral = read_groups.simps(2) [of "pred_numeral k" for k, folded numeral_eq_Suc]

lemmas addr_eval = get_address_type_def parse_ipv4_def parse_ipv6_def parse_with_def read_ipv4_addr_def
  read_ipv6_addr_def read_octet_def read_separator_def read_number_def digits_prefix_def digits_number_def to_digit_def
  read_given_char_def digit_value_def read_groups_numeral

lemma test_servers:
  "get_address_type ''192.0.2.1'' = AddrIpv4"
  "get_address_type ''192.0.2.10'' = AddrIpv4"
  "get_address_type ''198.51.100.2'' = AddrIpv4"
  "get_address_type ''2001:db8::1'' = AddrIpv6"
  "get_address_type ''::1'' = AddrIpv6"
  "get_address_type ''example.com'' = AddrDomain"
  by (simp_all add: addr_eval)

lemmas dedup_eval = deduplicate_nodes_def dedup_parse_def select_index_def node_priority_def make_node_with_server_def
  make_node_def test_servers

lemma strip_flag:
  assumes "utf8_valid s" and "\<forall>c \<in> set (chars s). c < 128"
  shows "strip_emoji (us_flag @ s) = s" and "strip_emoji (hk_flag @ s) = s"
proof -
  have "chars (us_flag @ s) = 0x1F1FA # 0x1F1F8 # chars s" "chars (hk_flag @ s) = 0x1F1ED # 0x1F1F0 # chars s"
    by (simp_all add: chars_def us_flag_def hk_flag_def)
  moreover have "filter (\<lambda>c. \<not> is_emoji c) (chars s) = chars s" using assms(2) is_emoji_not_ascii by (simp add: filter_id_conv)
  ultimately show "strip_emoji (us_flag @ s) = s" "strip_emoji (hk_flag @ s) = s"
    using from_chars_chars [OF assms(1)] by (simp_all add: strip_emoji_def, simp_all add: is_emoji_def)
qed

lemma strip_test_names: "strip_emoji (us_flag @ '' US Node'') = '' US Node''" "strip_emoji (hk_flag @ '' HK Node'') = '' HK Node''"
  by (rule strip_flag; simp add: utf8_valid_def chars_def)+

lemmas pipeline_eval = compile_patterns_def apply_pipeline_def apply_step_def from_step_def plain_step_def make_node_def is_selected_def transform_node_def

lemma test_regex_flag: "regex_is_match test_regex (CHR ''^'' # us_flag) t = starts_with t us_flag"
  by (simp add: test_regex_def us_flag_def)
lemma test_regex_valid: "regex_valid test_regex p" by (simp add: test_regex_def)

lemma test_flags: "\<not> starts_with (hk_flag @ s) us_flag" "starts_with (us_flag @ s) us_flag" "us_flag \<noteq> ''US''"
  by (simp_all add: hk_flag_def us_flag_def starts_with_def)

lemma test_rename_all_nodes_passes: "test_rename_all_nodes"
  by code_simp

lemma test_rename_only_selected_passes: "test_rename_only_selected"
  by code_simp

lemma test_rename_multiple_rules_passes: "test_rename_multiple_rules"
  by code_simp

lemma test_remove_by_name_filter_passes: "test_remove_by_name_filter"
  by code_simp

lemma test_remove_inverted_keeps_only_matching_passes: "test_remove_inverted_keeps_only_matching"
  by code_simp

lemma test_remove_by_source_passes: "test_remove_by_source"
  by code_simp

lemma test_filter_source_keep_only_matching_passes: "test_filter_source_keep_only_matching"
  by code_simp

lemma test_remove_emoji_strips_emoji_passes: "test_remove_emoji_strips_emoji"
  by (simp add: test_remove_emoji_strips_emoji_def pipeline_eval strip_test_names)

lemma test_remove_emoji_only_on_selected_passes: "test_remove_emoji_only_on_selected"
  by (simp add: test_remove_emoji_only_on_selected_def pipeline_eval strip_test_names test_flags test_regex_flag test_regex_valid)

lemma test_override_security_all_passes: "test_override_security_all"
  by code_simp

lemma test_override_security_only_selected_passes: "test_override_security_only_selected"
  by code_simp

lemma test_packet_encoding_all_passes: "test_packet_encoding_all"
  by code_simp

lemma test_packet_encoding_only_selected_passes: "test_packet_encoding_only_selected"
  by code_simp

lemma test_empty_pipeline_passes: "test_empty_pipeline"
  by code_simp

lemma test_empty_step_is_noop_passes: "test_empty_step_is_noop"
  by code_simp

lemma test_dedup_rename_appends_suffixes_passes: "test_dedup_rename_appends_suffixes"
  by code_simp

lemma test_dedup_empty_strategy_is_rename_passes: "test_dedup_empty_strategy_is_rename"
  by code_simp

lemma test_dedup_first_keeps_first_occurrence_passes: "test_dedup_first_keeps_first_occurrence"
  by code_simp

lemma test_dedup_last_keeps_last_occurrence_passes: "test_dedup_last_keeps_last_occurrence"
  by code_simp

lemma test_dedup_mixed_names_first_passes: "test_dedup_mixed_names_first"
  by code_simp

lemma test_dedup_no_duplicates_unchanged_passes: "test_dedup_no_duplicates_unchanged"
  by code_simp

lemma test_dedup_unknown_strategy_keeps_first_occurrence_passes: "test_dedup_unknown_strategy_keeps_first_occurrence"
  by (simp add: test_dedup_unknown_strategy_keeps_first_occurrence_def dedup_eval)

lemma test_dedup_prefer_ipv4_passes: "test_dedup_prefer_ipv4"
  by (simp add: test_dedup_prefer_ipv4_def dedup_eval)

lemma test_dedup_prefer_ipv6_passes: "test_dedup_prefer_ipv6"
  by (simp add: test_dedup_prefer_ipv6_def dedup_eval)

lemma test_dedup_prefer_domain_then_ipv4_passes: "test_dedup_prefer_domain_then_ipv4"
  by (simp add: test_dedup_prefer_domain_then_ipv4_def dedup_eval)

lemma test_dedup_prefer_domain_then_ipv6_passes: "test_dedup_prefer_domain_then_ipv6"
  by (simp add: test_dedup_prefer_domain_then_ipv6_def dedup_eval)

lemma test_get_address_type_passes: "test_get_address_type"
  by (simp add: test_get_address_type_def test_servers get_address_type_def [of "[]"])

lemma test_get_address_priority_prefer_ipv4_passes: "test_get_address_priority_prefer_ipv4"
  by code_simp

lemma test_get_address_priority_prefer_ipv6_passes: "test_get_address_priority_prefer_ipv6"
  by code_simp

lemma test_combined_pipeline_passes: "test_combined_pipeline"
  by code_simp

end
