(* ===== verification/Conformance_Parser.thy ===== *)
theory Conformance_Parser
  imports Sub_Manager
begin

text \<open>
  The unit tests of \<^verbatim>\<open>src/subscription/parser.rs\<close> and the one of \<^verbatim>\<open>src/subscription/manager.rs\<close>, run on the model. The base64 text of a link is written
  \<open>code\<close>; the libraries answer on the test's own inputs with the JSON object, the authority or the URL
  that the test has written.
\<close>

subsection \<open>What the tests use\<close>

definition no_url :: url where
  "no_url = \<lparr>url_username = '''', url_host_str = None, url_port = None, url_path = '''', url_query = None,
     url_query_pairs = [], url_fragment = None\<rparr>"

text \<open>The link \<^verbatim>\<open>vmess://code\<close> of a JSON object.\<close>

definition json_env :: "(string \<times> json) list \<Rightarrow> parse_env" where
  "json_env fs = null_env\<lparr>url_parse := (\<lambda>_. Some no_url),
     b64_standard := (\<lambda>s. if s = ''code'' then Some ''text'' else None),
     json_from_str := (\<lambda>s. if s = ''text'' then Some (JObj fs) else None)\<rparr>"

definition url_env :: "url \<Rightarrow> parse_env" where
  "url_env u = null_env\<lparr>url_parse := (\<lambda>_. Some u)\<rparr>"

text \<open>A Shadowrocket link whose payload \<open>code\<close> decodes to the authority of the tests.\<close>

definition rocket_test_env :: "(string \<times> string) list \<Rightarrow> parse_env" where
  "rocket_test_env pairs = null_env\<lparr>
     url_parse := (\<lambda>s. Some (if s = ''vmess://550e8400-e29b-41d4-a716-446655440000@192.0.2.10:50443''
       then no_url\<lparr>url_username := ''550e8400-e29b-41d4-a716-446655440000'', url_host_str := Some ''192.0.2.10'', url_port := Some 50443\<rparr>
       else no_url\<lparr>url_query := Some '''', url_query_pairs := pairs\<rparr>)),
     b64_standard := (\<lambda>s. if s = ''code'' then Some ''auto:550e8400-e29b-41d4-a716-446655440000@192.0.2.10:50443'' else None)\<rparr>"

definition node_passes :: "(vmess_node \<Rightarrow> bool) \<Rightarrow> vmess_node result \<Rightarrow> bool" where
  "node_passes P r \<longleftrightarrow> (case r of Inl _ \<Rightarrow> False | Inr node \<Rightarrow> P node)"

subsection \<open>The tests\<close>

definition test_parse_v2rayn_json_format :: bool where
  "test_parse_v2rayn_json_format \<longleftrightarrow>
     node_passes (\<lambda>node. n_name node = ''test'' \<and> n_server node = ''node.example'' \<and> n_port node = 443
         \<and> n_uuid node = ''550e8400-e29b-41d4-a716-446655440000'' \<and> n_security node = ''aes-128-gcm'' \<and> n_tls node)
       (parse_vmess_link (json_env [(''v'', JStr ''2''), (''ps'', JStr ''test''), (''add'', JStr ''node.example''),
          (''port'', JStr ''443''), (''id'', JStr ''550e8400-e29b-41d4-a716-446655440000''), (''aid'', JStr ''0''),
          (''net'', JStr ''tcp''), (''type'', JStr ''none''), (''host'', JStr ''''), (''path'', JStr ''''),
          (''tls'', JStr ''tls''), (''sni'', JStr ''node.example''), (''scy'', JStr ''aes-128-gcm'')]) ''vmess://code'')"

definition test_parse_v2rayn_json_int_port :: bool where
  "test_parse_v2rayn_json_int_port \<longleftrightarrow>
     node_passes (\<lambda>node. n_port node = 8080 \<and> n_network node = ''ws'' \<and> n_ws_path node = Some ''/test'')
       (parse_vmess_link (json_env [(''ps'', JStr ''test''), (''add'', JStr ''192.0.2.20''), (''port'', JInt 8080),
          (''id'', JStr ''550e8400-e29b-41d4-a716-446655440000''), (''aid'', JInt 0), (''net'', JStr ''ws''),
          (''path'', JStr ''/test''), (''host'', JStr ''''), (''tls'', JStr ''''), (''scy'', JStr '''')]) ''vmess://code'')"

definition test_parse_url_format :: bool where
  "test_parse_url_format \<longleftrightarrow>
     node_passes (\<lambda>node. n_server node = ''proxy.example'' \<and> n_port node = 443
         \<and> n_uuid node = ''550e8400-e29b-41d4-a716-446655440000'' \<and> n_network node = ''grpc''
         \<and> n_grpc_service_name node = Some ''test'' \<and> n_tls node)
       (parse_vmess_link (url_env (no_url\<lparr>url_username := ''550e8400-e29b-41d4-a716-446655440000'',
            url_host_str := Some ''proxy.example'', url_port := Some 443, url_query := Some ''net=grpc&path=test&tls=tls&sni=proxy.example&ps=test'',
            url_query_pairs := [(''net'', ''grpc''), (''path'', ''test''), (''tls'', ''tls''), (''sni'', ''proxy.example''), (''ps'', ''test'')]\<rparr>))
          ''vmess://550e8400-e29b-41d4-a716-446655440000@proxy.example:443?net=grpc&path=test&tls=tls&sni=proxy.example&ps=test'')"

definition test_parse_url_format_standard :: bool where
  "test_parse_url_format_standard \<longleftrightarrow>
     node_passes (\<lambda>node. n_server node = ''ws.example'' \<and> n_port node = 6939
         \<and> n_uuid node = ''44efe52b-e143-46b5-a9e7-aadbfd77eb9c'' \<and> n_network node = ''ws'' \<and> n_tls node
         \<and> n_ws_path node = Some ''/test'' \<and> n_ws_host node = Some ''ws.example'' \<and> n_name node = ''test'')
       (parse_vmess_link (url_env (no_url\<lparr>url_username := ''44efe52b-e143-46b5-a9e7-aadbfd77eb9c'',
            url_host_str := Some ''ws.example'', url_port := Some 6939, url_query := Some ''type=ws&security=tls&host=ws.example&path=%2Ftest'',
            url_query_pairs := [(''type'', ''ws''), (''security'', ''tls''), (''host'', ''ws.example''), (''path'', ''/test'')],
            url_fragment := Some ''test''\<rparr>))
          ''vmess://44efe52b-e143-46b5-a9e7-aadbfd77eb9c@ws.example:6939?type=ws&security=tls&host=ws.example&path=%2Ftest#test'')"

definition test_parse_url_format_grpc_service_name :: bool where
  "test_parse_url_format_grpc_service_name \<longleftrightarrow>
     node_passes (\<lambda>node. n_network node = ''grpc'' \<and> n_tls node \<and> n_grpc_service_name node = Some ''test''
         \<and> n_sni node = ''grpc.example'' \<and> n_name node = ''test'')
       (parse_vmess_link (url_env (no_url\<lparr>url_username := ''550e8400-e29b-41d4-a716-446655440000'',
            url_host_str := Some ''grpc.example'', url_port := Some 443, url_query := Some ''type=grpc&security=tls&sni=grpc.example&serviceName=test'',
            url_query_pairs := [(''type'', ''grpc''), (''security'', ''tls''), (''sni'', ''grpc.example''), (''serviceName'', ''test'')],
            url_fragment := Some ''test''\<rparr>))
          ''vmess://550e8400-e29b-41d4-a716-446655440000@grpc.example:443?type=grpc&security=tls&sni=grpc.example&serviceName=test#test'')"

definition test_parse_url_format_packet_encoding :: bool where
  "test_parse_url_format_packet_encoding \<longleftrightarrow>
     node_passes (\<lambda>node. n_packet_encoding node = PacketAddr)
       (parse_vmess_link (url_env (no_url\<lparr>url_username := ''550e8400-e29b-41d4-a716-446655440000'',
            url_host_str := Some ''proxy.example'', url_port := Some 443, url_query := Some ''type=grpc&security=tls&serviceName=test&packetEncoding=packetaddr'',
            url_query_pairs := [(''type'', ''grpc''), (''security'', ''tls''), (''serviceName'', ''test''), (''packetEncoding'', ''packetaddr'')],
            url_fragment := Some ''test''\<rparr>))
          ''vmess://550e8400-e29b-41d4-a716-446655440000@proxy.example:443?type=grpc&security=tls&serviceName=test&packetEncoding=packetaddr#test'')"

definition test_parse_shadowrocket_format :: bool where
  "test_parse_shadowrocket_format \<longleftrightarrow>
     node_passes (\<lambda>node. n_name node = ''test'' \<and> n_server node = ''192.0.2.10'' \<and> n_port node = 50443
         \<and> n_uuid node = ''550e8400-e29b-41d4-a716-446655440000'' \<and> n_security node = ''auto'' \<and> n_network node = ''grpc''
         \<and> n_tls node \<and> n_grpc_service_name node = Some ''test'' \<and> n_sni node = ''proxy.example'' \<and> n_alter_id node = 0
         \<and> n_packet_encoding node = Xudp)
       (parse_vmess_link (rocket_test_env [(''path'', ''test''), (''remarks'', ''test''), (''obfsParam'', ''proxy.example''),
            (''obfs'', ''grpc''), (''tls'', ''1''), (''peer'', ''proxy.example''), (''udp'', ''3''), (''alterId'', ''0'')])
          ''vmess://code?path=test&remarks=test&obfsParam=proxy.example&obfs=grpc&tls=1&peer=proxy.example&udp=3&alterId=0'')"

definition test_parse_shadowrocket_udp_packetaddr :: bool where
  "test_parse_shadowrocket_udp_packetaddr \<longleftrightarrow>
     node_passes (\<lambda>node. n_packet_encoding node = PacketAddr)
       (parse_vmess_link (rocket_test_env [(''remarks'', ''test''), (''obfs'', ''grpc''), (''tls'', ''1''), (''udp'', ''2''), (''alterId'', ''0'')])
          ''vmess://code?remarks=test&obfs=grpc&tls=1&udp=2&alterId=0'')"

definition test_parse_grpc_transport :: bool where
  "test_parse_grpc_transport \<longleftrightarrow>
     node_passes (\<lambda>node. n_network node = ''grpc'' \<and> n_grpc_service_name node = Some ''test'' \<and> n_tls node
         \<and> n_sni node = ''grpc.example'')
       (parse_vmess_link (json_env [(''ps'', JStr ''test''), (''add'', JStr ''grpc.example''), (''port'', JStr ''443''),
          (''id'', JStr ''550e8400-e29b-41d4-a716-446655440000''), (''aid'', JStr ''0''), (''net'', JStr ''grpc''),
          (''path'', JStr ''test''), (''tls'', JStr ''tls''), (''sni'', JStr ''grpc.example''), (''scy'', JStr ''auto'')]) ''vmess://code'')"

definition test_parse_subscription_mixed_protocols :: bool where
  "test_parse_subscription_mixed_protocols \<longleftrightarrow>
     map n_name (parse_subscription (json_env [(''v'', JStr ''2''), (''ps'', JStr ''test''), (''add'', JStr ''192.0.2.30''),
         (''port'', JStr ''1234''), (''id'', JStr ''550e8400-e29b-41d4-a716-446655440000''), (''aid'', JStr ''0''),
         (''net'', JStr ''tcp''), (''type'', JStr ''''), (''host'', JStr ''''), (''path'', JStr ''''), (''tls'', JStr ''''),
         (''sni'', JStr ''''), (''scy'', JStr ''auto'')])
       (join [newline] [''ss://invalid-not-vmess'', ''vmess://code'', ''trojan://not-vmess@host:443'']))
     = [''test'']"

definition test_non_vmess_link_rejected :: "parse_env \<Rightarrow> bool" where
  "test_non_vmess_link_rejected env \<longleftrightarrow>
     \<not> is_ok (parse_vmess_link env ''ss://something'') \<and> \<not> is_ok (parse_vmess_link env ''trojan://something'')"

text \<open>The test of the manager: a local file with one link and a newline.\<close>

definition local_link :: string where
  "local_link = ''vmess://550e8400-e29b-41d4-a716-446655440000@example.com:443?type=grpc&security=tls&serviceName=GunService#local-node''"

definition local_env :: sub_env where
  "local_env = sample_env\<lparr>se_parse := url_env (no_url\<lparr>url_username := ''550e8400-e29b-41d4-a716-446655440000'',
     url_host_str := Some ''example.com'', url_port := Some 443, url_query := Some ''type=grpc&security=tls&serviceName=GunService'',
     url_query_pairs := [(''type'', ''grpc''), (''security'', ''tls''), (''serviceName'', ''GunService'')],
     url_fragment := Some ''local-node''\<rparr>)\<rparr>"

definition reload_loads_local_file_source :: "world \<Rightarrow> string \<Rightarrow> bool" where
  "reload_loads_local_file_source w0 path \<longleftrightarrow>
     (let w = fs_write w0 path (local_link @ [newline]);
          config = \<lparr>cache_file = None, update_interval = 0,
            sources = [\<lparr>src_name = ''local'', src_url = None, src_path = Some path, src_user_agent = ''tobira-test'',
              src_process = []\<rparr>],
            deduplication = ''rename''\<rparr>;
          (r, manager, w') = manager_reload local_env w (manager_new config);
          nodes = all_nodes manager
      in is_ok r \<and> length nodes = 1 \<and> n_name (nodes ! 0) = ''local-node'' \<and> n_source (nodes ! 0) = ''local''
         \<and> n_network (nodes ! 0) = ''grpc'' \<and> n_grpc_service_name (nodes ! 0) = Some ''GunService'')"

subsection \<open>They hold\<close>

lemma trim_test_link:
  "is_ascii (c # s) \<Longrightarrow> \<not> is_whitespace (of_char c) \<Longrightarrow> \<not> is_whitespace (of_char (last (c # s))) \<Longrightarrow> trim (c # s) = c # s"
  using trim_ascii_id [of "c # s"] by simp

lemmas link_eval = node_passes_def parse_vmess_link_def trim_test_link is_ascii_def is_whitespace_def starts_with_def
  vmess_scheme_def no_url_def null_env_def ok_or_def bind_result_def

lemmas node_eval = build_node_def node_of_opts_def node_network_def node_sni_def alter_id_of_def to_lowercase_def
  v2rayn_default_def or_default_def or_else_def and_then_def

lemma lower_test_names: "to_ascii_lowercase ''grpc'' = ''grpc''" "to_ascii_lowercase ''tcp'' = ''tcp''" "to_ascii_lowercase ''ws'' = ''ws''"
  by code_simp+

lemma test_numbers: "parse_i64 ''443'' = Some 443" "parse_i64 ''0'' = Some 0" "parse_i64 ''2'' = Some 2" "parse_i64 ''1234'' = Some 1234"
  by (simp_all add: parse_i64_def parse_digits_def dec_digit_def)

lemmas json_link_eval = link_eval node_eval lower_test_names test_numbers json_env_def parse_base64_json_def try_base64_decode_def
  from_utf8_opt_def from_utf8_def utf8_valid_def v2rayn_from_fields_def json_field_def field_name_def u64_as_i64_def

lemmas url_link_eval = link_eval node_eval lower_test_names url_env_def parse_url_format_def query_or_def query_get_def url_remarks_def

lemmas rocket_link_eval = link_eval node_eval lower_test_names test_numbers rocket_test_env_def parse_shadowrocket_format_def
  shadowrocket_payload_def split_once_def try_base64_decode_def from_utf8_opt_def from_utf8_def utf8_valid_def
  query_or_def query_get_def url_remarks_def parse_shadowrocket_udp_def

lemma test_parse_v2rayn_json_format_passes: "test_parse_v2rayn_json_format"
  by (simp add: test_parse_v2rayn_json_format_def json_link_eval)

lemma test_parse_v2rayn_json_int_port_passes: "test_parse_v2rayn_json_int_port"
  by (simp add: test_parse_v2rayn_json_int_port_def json_link_eval)

lemma test_parse_url_format_passes: "test_parse_url_format"
  by (simp add: test_parse_url_format_def url_link_eval)

lemma test_parse_url_format_standard_passes: "test_parse_url_format_standard"
  by (simp add: test_parse_url_format_standard_def url_link_eval)

lemma test_parse_url_format_grpc_service_name_passes: "test_parse_url_format_grpc_service_name"
  by (simp add: test_parse_url_format_grpc_service_name_def url_link_eval)

lemma test_parse_url_format_packet_encoding_passes: "test_parse_url_format_packet_encoding"
  by (simp add: test_parse_url_format_packet_encoding_def url_link_eval packet_encoding_parse_def to_ascii_lowercase_def ascii_lower_def)

lemma test_parse_shadowrocket_format_passes: "test_parse_shadowrocket_format"
  by (simp add: test_parse_shadowrocket_format_def rocket_link_eval)

lemma test_parse_shadowrocket_udp_packetaddr_passes: "test_parse_shadowrocket_udp_packetaddr"
  by (simp add: test_parse_shadowrocket_udp_packetaddr_def rocket_link_eval)

lemma test_parse_grpc_transport_passes: "test_parse_grpc_transport"
  by (simp add: test_parse_grpc_transport_def json_link_eval)

lemma test_parse_subscription_mixed_protocols_passes: "test_parse_subscription_mixed_protocols"
proof -
  let ?ls = "[''ss://invalid-not-vmess'', ''vmess://code'', ''trojan://not-vmess@host:443'']"
  have plain: "list_all plain_line ?ls" by (simp add: plain_line_def newline_def)
  have "trim (join [newline] ?ls) = join [newline] ?ls" by (simp add: trim_test_link is_ascii_def is_whitespace_def newline_def)
  then have no64: "try_base64_decode (json_env fs) (trim (join [newline] ?ls)) = None" for fs
    by (simp add: try_base64_decode_def json_env_def null_env_def from_utf8_opt_def or_else_def newline_def)
  have "parse_subscription (json_env fs) (join [newline] ?ls) = List.map_filter (parse_line (json_env fs)) ?ls" for fs
    using lines_join [OF plain] no64 by (simp add: parse_subscription_def or_default_def)
  then show ?thesis
    by (simp add: test_parse_subscription_mixed_protocols_def List.map_filter_simps parse_line_def json_link_eval)
qed

lemma test_non_vmess_link_rejected_passes: "test_non_vmess_link_rejected env"
  by (simp add: test_non_vmess_link_rejected_def link_eval is_ok_def)

lemma local_file_trimmed: "trim (local_link @ [newline]) = local_link"
proof -
  have ascii: "is_ascii local_link" by (simp add: is_ascii_def local_link_def)
  then have c: "chars (local_link @ [newline]) = chars local_link @ [10]"
    using chars_ascii [of local_link] chars_ascii [of "local_link @ [newline]"] by (simp add: is_ascii_def newline_def)
  have l: "trim local_link = local_link"
    unfolding local_link_def by (rule trim_test_link) (simp_all add: is_ascii_def is_whitespace_def)
  have "dropWhile is_whitespace (chars local_link @ [10]) = dropWhile is_whitespace (chars local_link) @ [10]"
    using chars_ascii [OF ascii] by (simp add: local_link_def is_whitespace_def)
  then have "trim (local_link @ [newline]) = trim local_link" unfolding trim_def c by (simp add: is_whitespace_def)
  with l show ?thesis by simp
qed

lemma local_file_lines: "lines (local_link @ [newline]) = [local_link]"
  by (simp add: lines.simps local_link_def newline_def strip_cr_def)

lemma reload_loads_local_file_source_passes:
  assumes "wd_writable w path"
  shows "reload_loads_local_file_source w path"
proof -
  have "trim (local_link @ [newline]) = local_link" by (rule local_file_trimmed)
  then have "try_base64_decode (se_parse local_env) (trim (local_link @ [newline])) = None"
    by (simp add: try_base64_decode_def local_env_def url_env_def null_env_def from_utf8_opt_def or_else_def local_link_def)
  then have "parse_subscription (se_parse local_env) (local_link @ [newline]) = List.map_filter (parse_line (se_parse local_env)) [local_link]"
    using local_file_lines by (simp add: parse_subscription_def or_default_def)
  moreover obtain n where n: "parse_line (se_parse local_env) local_link = Some n" "n_name n = ''local-node''" "n_network n = ''grpc''"
      "n_grpc_service_name n = Some ''GunService''"
    by (simp add: parse_line_def local_env_def local_link_def url_link_eval)
  ultimately have "parse_subscription (se_parse local_env) (local_link @ [newline]) = [n]" by (simp add: List.map_filter_simps)
  moreover have "from_utf8 (local_link @ [newline]) = Some (local_link @ [newline])"
    by (simp add: from_utf8_def utf8_valid_def local_link_def newline_def)
  ultimately have "fetch_source local_env (fs_write w path (local_link @ [newline]))
      \<lparr>src_name = ''local'', src_url = None, src_path = Some path, src_user_agent = ''tobira-test'', src_process = []\<rparr> = Inr [n]"
    using assms by (simp add: fetch_source_def fs_write_def read_to_string_def apply_pipeline_def ok_or_def)
  with n show ?thesis
    by (simp add: reload_loads_local_file_source_def manager_reload_def manager_new_def nodes_in_order_def tag_source_def
        or_default_def deduplicate_nodes_def dedup_parse_def is_ok_def Let_def)
qed

end
