(* ===== verification/Conformance_Relay.thy ===== *)
theory Conformance_Relay
  imports Grpc_Stream Grpc_Pool
begin

text \<open>
  The unit tests of the codec and of the connection pool (\<^verbatim>\<open>src/relay/outbound/grpc.rs\<close>,
  \<^verbatim>\<open>src/relay/transport/grpc.rs\<close>), run on the model; loops over test values become lists. The
  tests of the codec follow from the library's theorems, the tests of the pool are evaluated.
\<close>

subsection \<open>Varints and frames\<close>

definition test_varint_roundtrip :: bool where
  "test_varint_roundtrip \<longleftrightarrow>
     list_all (\<lambda>v. let buf = write_varint [] v; expected_size = varint_size v in
         length buf = expected_size \<and> read_varint buf = Some (v, expected_size))
       [0, 1, 127, 128, 255, 300, 16383, 16384, 65535, 65536, push_bit 21 1, 0xFFFFFFFF]"

definition test_varint_size :: bool where
  "test_varint_size \<longleftrightarrow> varint_size 0 = 1 \<and> varint_size 127 = 1 \<and> varint_size 128 = 2
     \<and> varint_size 16383 = 2 \<and> varint_size 16384 = 3"

definition test_encode_grpc_frame_empty :: bool where
  "test_encode_grpc_frame_empty \<longleftrightarrow>
     (let frame = encode_grpc_frame []; outer_len = nat_of_be (take 4 (drop 1 frame)) in
      frame ! 0 = 0 \<and> outer_len = 2 \<and> frame ! 5 = 0x0A \<and> frame ! 6 = 0x00 \<and> length frame = 7)"

definition test_encode_grpc_frame_data :: bool where
  "test_encode_grpc_frame_data \<longleftrightarrow>
     (let data = as_bytes ''hello world''; frame = encode_grpc_frame data;
          outer_len = nat_of_be (take 4 (drop 1 frame)) in
      frame ! 0 = 0 \<and> outer_len = 1 + 1 + length data \<and> frame ! 5 = 0x0A
      \<and> frame ! 6 = word_of_nat (length data) \<and> drop 7 frame = data)"

definition test_encode_grpc_frame_large :: bool where
  "test_encode_grpc_frame_large \<longleftrightarrow>
     (let data = replicate 65536 0xAB; frame = encode_grpc_frame data;
          outer_len = nat_of_be (take 4 (drop 1 frame)) in
      frame ! 0 = 0 \<and> outer_len = 1 + varint_size 65536 + 65536 \<and> frame ! 5 = 0x0A \<and> length frame = 5 + outer_len)"

definition test_encode_decode_roundtrip :: bool where
  "test_encode_decode_roundtrip \<longleftrightarrow>
     list_all (\<lambda>size. let data = map word_of_nat [0..<size]; frame = encode_grpc_frame data;
           outer_len = nat_of_be (take 4 (drop 1 frame)); proto = take outer_len (drop 5 frame) in
         frame ! 0 = 0 \<and> length frame = 5 + outer_len \<and> proto ! 0 = 0x0A
         \<and> (case read_varint (drop 1 proto) of
              None \<Rightarrow> False
            | Some (inner_len, varint_len) \<Rightarrow> unat inner_len = size \<and> drop (1 + varint_len) proto = data))
       [0, 1, 127, 128, 255, 256, 1000, 16384]"

definition test_decode_gun_payload :: bool where
  "test_decode_gun_payload \<longleftrightarrow>
     (let data = as_bytes ''test data''; payload = write_varint [0x0A] (word_of_nat (length data)) @ data in
      decode_gun_payload payload = Inr (Some data))"

definition test_decode_gun_payload_empty :: bool where
  "test_decode_gun_payload_empty \<longleftrightarrow> decode_gun_payload [] = Inr (Some [])"

definition test_decode_gun_payload_wrong_tag :: bool where
  "test_decode_gun_payload_wrong_tag \<longleftrightarrow> decode_gun_payload [0x0B, 0x05, 0, 0, 0, 0, 0] = Inr None"

definition test_grpc_frame_decode_fragmented :: bool where
  "test_grpc_frame_decode_fragmented \<longleftrightarrow>
     (let payload = as_bytes ''full message here''; frame = encode_grpc_frame payload;
          first = take 3 frame; buf = first @ drop 3 frame;
          outer_len = nat_of_be (take 4 (drop 1 buf)); proto = take outer_len (drop 5 buf) in
      length first < 5 \<and> proto ! 0 = 0x0A
      \<and> (case read_varint (drop 1 proto) of
           None \<Rightarrow> False
         | Some (inner_len, varint_len) \<Rightarrow> take (unat inner_len) (drop (1 + varint_len) proto) = payload))"

text \<open>\<^verbatim>\<open>decode_all_frames\<close>, the decoder of the test's server; a payload that does not decode is skipped.\<close>

function decode_all_frames :: "bytes \<Rightarrow> bytes" where
  "decode_all_frames buf =
     (if length buf < 5 then []
      else let outer_len = nat_of_be (take 4 (drop 1 buf)) in
        if length buf < 5 + outer_len then []
        else (case decode_gun_payload (take outer_len (drop 5 buf)) of Inr (Some data) \<Rightarrow> data | _ \<Rightarrow> [])
          @ decode_all_frames (drop (5 + outer_len) buf))"
  by pat_completeness auto
termination
  by (relation "measure length") auto

declare decode_all_frames.simps [simp del]

text \<open>The loop of this test decodes as \<^verbatim>\<open>decode_all_frames\<close> does, with the slice written out.\<close>

function decode_from_buffer :: "bytes \<Rightarrow> bytes" where
  "decode_from_buffer buf =
     (if length buf < 5 then []
      else let outer_len = nat_of_be (take 4 (drop 1 buf)) in
        if length buf < 5 + outer_len then []
        else
          (let proto = take outer_len (drop 5 buf);
               write_range =
                 (if proto \<noteq> [] \<and> proto ! 0 = 0x0A then
                    (case read_varint (drop 1 proto) of
                       None \<Rightarrow> None
                     | Some (inner_len, varint_len) \<Rightarrow>
                         let data_start = 5 + 1 + varint_len; data_end = data_start + unat inner_len in
                         if data_end \<le> 5 + outer_len then Some (data_start, data_end) else None)
                  else None)
           in (case write_range of Some (a, b) \<Rightarrow> take (b - a) (drop a buf) | None \<Rightarrow> [])
              @ decode_from_buffer (drop (5 + outer_len) buf)))"
  by pat_completeness auto
termination
  by (relation "measure length") auto

declare decode_from_buffer.simps [simp del]

definition test_grpc_frame_decode_from_buffer :: bool where
  "test_grpc_frame_decode_from_buffer \<longleftrightarrow>
     decode_from_buffer (encode_grpc_frame (as_bytes ''first message'') @ encode_grpc_frame (as_bytes ''second message''))
     = as_bytes ''first messagesecond message''"

text \<open>
  The whole way of \<^verbatim>\<open>test_gun_lite_compat_full_relay\<close>: raw bytes are framed and sent, the server decodes them
  and echoes them in one frame, which is turned into raw bytes again. The reads in which the
  payload arrives, the flow control and the chunks of the answer are arbitrary.
\<close>

definition grpc_to_raw :: "bytes list \<Rightarrow> writer \<Rightarrow> unit result \<times> writer" where
  "grpc_to_raw body w = (case grpc_to_raw_with_activity (frame_reader_new (map Chunk body)) w None of (r, w', a) \<Rightarrow> (r, w'))"

definition test_gun_lite_compat_full_relay :: "bytes list \<Rightarrow> send_stream \<Rightarrow> (bytes \<Rightarrow> bytes list) \<Rightarrow> writer \<Rightarrow> bool" where
  "test_gun_lite_compat_full_relay reads s chunked out \<longleftrightarrow>
     (let payload = concat reads in
      case raw_to_grpc (map ReadData reads) s of
        None \<Rightarrow> False
      | Some (t_send, s') \<Rightarrow>
          (let server_got = decode_all_frames (sent_bytes s');
               (t_recv, client_got) = grpc_to_raw (chunked (encode_grpc_frame server_got)) out
           in is_ok t_send \<and> is_ok t_recv \<and> server_got = payload \<and> w_out client_got = payload))"

definition encode_grpc_frame_roundtrips_through_decoder :: bool where
  "encode_grpc_frame_roundtrips_through_decoder \<longleftrightarrow>
     list_all (\<lambda>data. decode_grpc_frame_data (encode_grpc_frame data) = Inr (Some data))
       [[], as_bytes ''hello'', replicate 256 0xAB]"

definition decode_grpc_frame_data_rejects_malformed_frames :: bool where
  "decode_grpc_frame_data_rejects_malformed_frames \<longleftrightarrow>
     (let truncated = butlast (encode_grpc_frame (as_bytes ''hello''));
          wrong_tag = (encode_grpc_frame (as_bytes ''hello''))[5 := 0x0B];
          too_large = [0] @ be_of_nat 4 (MAX_GRPC_FRAME_SIZE + 1) in
      decode_grpc_frame_data [0, 0, 0, 0] = Inr None \<and> decode_grpc_frame_data truncated = Inr None
      \<and> decode_grpc_frame_data wrong_tag = Inr None \<and> decode_grpc_frame_data too_large = Inr None)"

subsection \<open>The connection pool\<close>

text \<open>An error with the reason \<^verbatim>\<open>CANCEL\<close> is neither an I/O error nor a GOAWAY.\<close>

definition grpc_stream_cancel_does_not_evict_connection :: bool where
  "grpc_stream_cancel_does_not_evict_connection \<longleftrightarrow>
     (let h2_error = H2Error False False in
      \<not> is_h2_connection_error h2_error \<and> \<not> is_grpc_connection_error (SendError h2_error))"

definition pool_key_is_stable_and_endpoint_specific :: bool where
  "pool_key_is_stable_and_endpoint_specific \<longleftrightarrow>
     pool_key ''example.com:443'' ''example.com'' = pool_key ''example.com:443'' ''example.com''
     \<and> pool_key ''example.com:443'' ''example.com'' \<noteq> pool_key ''example.com:443'' ''alt.example.com''
     \<and> pool_key ''example.com:443'' ''example.com'' \<noteq> pool_key ''example.com:8443'' ''example.com''"

text \<open>\<^verbatim>\<open>pool.conns.insert\<close>: a slot with the given content at the next free address.\<close>

definition conns_insert :: "grpc_pool \<Rightarrow> string \<Rightarrow> pooled_conn option \<Rightarrow> grpc_pool" where
  "conns_insert p key conn =
     (let a = gp_next_slot p in
      p\<lparr>gp_conns := (gp_conns p)(key \<mapsto> a), gp_slots := (gp_slots p)(a := \<lparr>sl_conn = conn, sl_locked = False\<rparr>),
        gp_next_slot := a + 1\<rparr>)"

text \<open>The two entries have the addresses 0 and 1; the stale ones are those \<open>is_stale\<close> selects.\<close>

definition prune_to_endpoints_drops_stale_pool_entries_and_closes_slot :: bool where
  "prune_to_endpoints_drops_stale_pool_entries_and_closes_slot \<longleftrightarrow>
     (let one = pool_key ''one.example.com:443'' ''one.example.com'';
          old = pool_key ''old.example.com:443'' ''old.example.com'';
          pool = conns_insert (conns_insert (grpc_pool_new (Some 300)) one None) old
                   (Some \<lparr>pc_id = 1, pc_last_used = 0\<rparr>);
          active = {(''one.example.com:443'', ''one.example.com'')};
          pruned = prune_stale pool (filter (is_stale pool active) [(one, 0), (old, 1)])
      in dom (gp_conns pruned) = {one} \<and> sl_conn (gp_slots pruned 1) = None \<and> \<not> sl_locked (gp_slots pruned 1))"

definition prune_idle_clears_only_expired_cached_connections :: "nat \<Rightarrow> bool" where
  "prune_idle_clears_only_expired_cached_connections now \<longleftrightarrow>
     (let fresh_key = pool_key ''fresh.example.com:443'' ''fresh.example.com'';
          stale_key = pool_key ''stale.example.com:443'' ''stale.example.com'';
          pool = conns_insert (conns_insert (grpc_pool_new (Some 300)) fresh_key
                   (Some \<lparr>pc_id = 1, pc_last_used = now\<rparr>)) stale_key (Some \<lparr>pc_id = 2, pc_last_used = now - 10\<rparr>);
          pruned = prune_idle_older_than now 5 pool [0, 1]
      in (case gp_conns pruned fresh_key of Some a \<Rightarrow> sl_conn (gp_slots pruned a) \<noteq> None | None \<Rightarrow> False)
         \<and> (case gp_conns pruned stale_key of Some a \<Rightarrow> sl_conn (gp_slots pruned a) = None | None \<Rightarrow> False))"

definition prune_idle_skips_when_idle_timeout_disabled :: "nat \<Rightarrow> bool" where
  "prune_idle_skips_when_idle_timeout_disabled now \<longleftrightarrow>
     (let stale_key = pool_key ''stale.example.com:443'' ''stale.example.com'';
          pool = conns_insert (grpc_pool_new None) stale_key (Some \<lparr>pc_id = 1, pc_last_used = now - 10\<rparr>);
          pruned = prune_idle now pool [0]
      in case gp_conns pruned stale_key of Some a \<Rightarrow> sl_conn (gp_slots pruned a) \<noteq> None | None \<Rightarrow> False)"

subsection \<open>They hold: the codec\<close>

lemma test_varint_roundtrip_passes: "test_varint_roundtrip"
proof -
  have "read_varint (write_varint [] v) = Some (v, varint_size v)" for v
    using read_varint_write [of v "[]"] by simp
  then show ?thesis by (simp add: test_varint_roundtrip_def)
qed

lemma test_varint_size_passes: "test_varint_size"
  by (simp add: test_varint_size_def varint_size.simps word_le_nat_alt)

text \<open>What the tests read off a frame.\<close>

lemma frame_parts:
  assumes "frame_outer_len data < 2 ^ 32"
  shows "encode_grpc_frame data ! 0 = 0"
    and "nat_of_be (take 4 (drop 1 (encode_grpc_frame data @ rest))) = frame_outer_len data"
    and "take (frame_outer_len data) (drop 5 (encode_grpc_frame data @ rest))
      = 0x0A # write_varint [] (word_of_nat (length data)) @ data"
proof -
  show "encode_grpc_frame data ! 0 = 0" by (simp add: encode_grpc_frame_eq)
  show "nat_of_be (take 4 (drop 1 (encode_grpc_frame data @ rest))) = frame_outer_len data"
    using frame_header_len_encode [OF assms, of rest] by (simp add: frame_header_len_def)
  have "drop 5 (encode_grpc_frame data @ rest) = 0x0A # write_varint [] (word_of_nat (length data)) @ data @ rest"
    by (simp add: encode_grpc_frame_eq)
  then show "take (frame_outer_len data) (drop 5 (encode_grpc_frame data @ rest))
      = 0x0A # write_varint [] (word_of_nat (length data)) @ data"
    by (simp add: frame_outer_len_def)
qed

text \<open>The same for the frames of the tests, which are short.\<close>

lemma short_outer_len: "length data < 2 ^ 31 \<Longrightarrow> frame_outer_len data < 2 ^ 32"
  using frame_outer_len_bounds [of data] by simp

lemmas frame_parts_short = frame_parts(1) [OF short_outer_len] frame_parts(2) [OF short_outer_len, of _ "[]", unfolded append_Nil2]
  frame_parts(3) [OF short_outer_len, of _ "[]", unfolded append_Nil2]

lemma test_encode_grpc_frame_empty_passes: "test_encode_grpc_frame_empty"
proof -
  have "frame_outer_len [] = 2" by (simp add: frame_outer_len_def varint_size.simps)
  moreover have "drop 5 (encode_grpc_frame []) = [0x0A, 0]" by (simp add: encode_grpc_frame_eq write_varint_small)
  ultimately show ?thesis
    using frame_parts_short [of "[]"] nth_drop [of 5 "encode_grpc_frame []" 0] nth_drop [of 5 "encode_grpc_frame []" 1]
    by (simp add: test_encode_grpc_frame_empty_def write_varint_small)
qed

lemma test_encode_grpc_frame_data_passes: "test_encode_grpc_frame_data"
proof -
  let ?d = "as_bytes ''hello world''"
  have len: "length ?d = 11" by (simp add: as_bytes_def)
  have "frame_outer_len ?d = 13" by (simp add: frame_outer_len_def len varint_size.simps)
  moreover have e: "drop 5 (encode_grpc_frame ?d) = 0x0A # 11 # ?d"
    by (simp add: encode_grpc_frame_eq write_varint_small len)
  moreover have "drop 7 (encode_grpc_frame ?d) = drop 2 (drop 5 (encode_grpc_frame ?d))" by simp
  ultimately show ?thesis
    using frame_parts_short [of ?d] nth_drop [of 5 "encode_grpc_frame ?d" 0] nth_drop [of 5 "encode_grpc_frame ?d" 1]
    by (simp add: test_encode_grpc_frame_data_def Let_def len)
qed

lemma test_encode_grpc_frame_large_passes: "test_encode_grpc_frame_large"
proof -
  let ?d = "replicate 65536 (0xAB :: u8)"
  have "drop 5 (encode_grpc_frame ?d) = 0x0A # write_varint [] 65536 @ ?d" by (simp add: encode_grpc_frame_eq)
  then have "encode_grpc_frame ?d ! 5 = 0x0A" using nth_drop [of 5 "encode_grpc_frame ?d" 0] by simp
  then show ?thesis
    using frame_parts_short [of ?d] by (simp add: test_encode_grpc_frame_large_def Let_def frame_outer_len_def)
qed

lemma test_encode_decode_roundtrip_passes: "test_encode_decode_roundtrip"
proof -
  have r: "let data = map word_of_nat [0..<size]; frame = encode_grpc_frame data;
        outer_len = nat_of_be (take 4 (drop 1 frame)); proto = take outer_len (drop 5 frame) in
      frame ! 0 = 0 \<and> length frame = 5 + outer_len \<and> proto ! 0 = 0x0A
      \<and> (case read_varint (drop 1 proto) of
           None \<Rightarrow> False
         | Some (inner_len, varint_len) \<Rightarrow> unat inner_len = size \<and> drop (1 + varint_len) proto = data)"
    if "size < 2 ^ 31" for size
  proof -
    let ?d = "map word_of_nat [0..<size] :: bytes"
    have l: "length ?d < 2 ^ 31" using that by simp
    show ?thesis unfolding Let_def frame_parts_short [OF l]
      using that by (simp add: read_varint_write unat_of_nat)
  qed
  show ?thesis unfolding test_encode_decode_roundtrip_def list_all_iff by (intro ballI r) auto
qed

lemma test_decode_gun_payload_passes: "test_decode_gun_payload"
proof -
  have "length (as_bytes ''test data'') < 2 ^ 62" by (simp add: as_bytes_def)
  from decode_gun_payload_encode [OF this] show ?thesis
    by (simp add: test_decode_gun_payload_def Let_def write_varint_buf [of "[_]"])
qed

lemma test_decode_gun_payload_empty_passes: "test_decode_gun_payload_empty"
  by (simp add: test_decode_gun_payload_empty_def decode_gun_payload_def)

lemma test_decode_gun_payload_wrong_tag_passes: "test_decode_gun_payload_wrong_tag"
  by (simp add: test_decode_gun_payload_wrong_tag_def decode_gun_payload_def)

lemma test_grpc_frame_decode_fragmented_passes: "test_grpc_frame_decode_fragmented"
proof -
  let ?d = "as_bytes ''full message here''"
  have "length ?d = 17" by (simp add: as_bytes_def)
  moreover from this have l: "length ?d < 2 ^ 31" by simp
  ultimately show ?thesis
    unfolding test_grpc_frame_decode_fragmented_def Let_def append_take_drop_id frame_parts_short [OF l]
    by (simp add: read_varint_write unat_of_nat)
qed

lemma decode_from_buffer_encode:
  assumes "length data < 2 ^ 31"
  shows "decode_from_buffer (encode_grpc_frame data @ rest) = data @ decode_from_buffer rest"
proof -
  let ?f = "encode_grpc_frame data" and ?n = "frame_outer_len data"
  note parts = frame_parts(2,3) [OF short_outer_len [OF assms], of rest]
  have u: "unat (word_of_nat (length data) :: u64) = length data" using assms by (simp add: unat_of_nat)
  have r: "read_varint (write_varint [] (word_of_nat (length data)) @ data)
      = Some (word_of_nat (length data), varint_size (word_of_nat (length data)))" by (rule read_varint_write)
  have "drop (6 + varint_size (word_of_nat (length data))) (?f @ rest)
      = drop (1 + varint_size (word_of_nat (length data))) (drop 5 (?f @ rest))" by (simp add: add.commute)
  also have "\<dots> = data @ rest" by (simp add: encode_grpc_frame_eq)
  finally have d: "drop (6 + varint_size (word_of_nat (length data))) (?f @ rest) = data @ rest" .
  show ?thesis
    using parts r u d by (simp add: decode_from_buffer.simps [of "?f @ rest"] Let_def frame_outer_len_def)
qed

lemma test_grpc_frame_decode_from_buffer_passes: "test_grpc_frame_decode_from_buffer"
proof -
  let ?a = "as_bytes ''first message''" and ?b = "as_bytes ''second message''"
  have "length ?a < 2 ^ 31" "length ?b < 2 ^ 31" by (simp_all add: as_bytes_def)
  moreover have "decode_from_buffer [] = []" by (simp add: decode_from_buffer.simps)
  ultimately have "decode_from_buffer (encode_grpc_frame ?a @ encode_grpc_frame ?b) = ?a @ ?b"
    using decode_from_buffer_encode [of ?a "encode_grpc_frame ?b"] decode_from_buffer_encode [of ?b "[]"] by simp
  then show ?thesis by (simp add: test_grpc_frame_decode_from_buffer_def as_bytes_def)
qed

lemma decode_all_frames_encode:
  assumes "length data < 2 ^ 31"
  shows "decode_all_frames (encode_grpc_frame data @ rest) = data @ decode_all_frames rest"
proof -
  have l: "length data < 2 ^ 62" using assms by simp
  show ?thesis
    unfolding decode_all_frames.simps [of "encode_grpc_frame data @ rest"] Let_def
      frame_parts(2,3) [OF short_outer_len [OF assms]] decode_gun_payload_encode [OF l]
    by simp
qed

lemma decode_all_frames_concat:
  "list_all (\<lambda>d. length d < 2 ^ 31) ds \<Longrightarrow> decode_all_frames (concat (map encode_grpc_frame ds)) = concat ds"
  by (induction ds) (simp_all add: decode_all_frames_encode, simp add: decode_all_frames.simps)

lemma test_gun_lite_compat_full_relay_passes:
  assumes "list_all (\<lambda>d. d \<noteq> []) reads" and "length (concat reads) \<le> RAW_TO_GRPC_READ_BUF_SIZE"
    and "capacity_for s (length (concat (map encode_grpc_frame reads)))" and "ss_sent s = []"
    and "\<And>b. concat (chunked b) = b" and "w_left out = None" and "w_out out = []"
  shows "test_gun_lite_compat_full_relay reads s chunked out"
proof -
  have ne: "[] \<notin> set reads" using assms(1) by (auto simp: list_all_iff)
  obtain s' a' where s': "raw_to_grpc_with_activity (map ReadData reads) s None = Some (Inr (), s', a')"
      "sent_bytes s' = concat (map encode_grpc_frame reads)"
    using raw_to_grpc_returns [OF assms(3) ne, of None] assms(4) by (auto simp: sent_bytes_def)
  have "length d \<le> length (concat reads)" if "d \<in> set reads" for d
    using that member_le_sum_list [of "length d" "map length reads"] by (simp add: length_concat)
  then have "list_all (\<lambda>d. length d < 2 ^ 31) reads"
    using assms(2) by (fastforce simp: list_all_iff RAW_TO_GRPC_READ_BUF_SIZE_def)
  then have got: "decode_all_frames (sent_bytes s') = concat reads" using decode_all_frames_concat s'(2) by simp
  have "list_all small_payload [concat reads]" using read_buf_small assms(2) by simp
  from grpc_to_raw_of_encoded [OF this, of "chunked (encode_grpc_frame (concat reads))" out None] assms(5-7)
  obtain b where "grpc_to_raw_with_activity (frame_reader_new (map Chunk (chunked (encode_grpc_frame (concat reads))))) out None
      = (Inr (), out\<lparr>w_out := concat reads, w_flushed := True, w_shutdown := True\<rparr>, b)" by auto
  with s'(1) got show ?thesis
    by (simp add: test_gun_lite_compat_full_relay_def raw_to_grpc_def grpc_to_raw_def is_ok_def)
qed

lemma encode_grpc_frame_roundtrips_through_decoder_passes: "encode_grpc_frame_roundtrips_through_decoder"
proof -
  have "decode_grpc_frame_data (encode_grpc_frame data) = Inr (Some data)" if "length data \<le> 256" for data
    using decode_encode_frame [of data "[]"] frame_outer_len_bounds [of data] that by (simp add: MAX_GRPC_FRAME_SIZE_def)
  then show ?thesis by (simp add: encode_grpc_frame_roundtrips_through_decoder_def as_bytes_def)
qed

lemma decode_grpc_frame_data_rejects_malformed_frames_passes: "decode_grpc_frame_data_rejects_malformed_frames"
proof -
  let ?d = "as_bytes ''hello''"
  have len: "length ?d = 5" by (simp add: as_bytes_def)
  have be: "be_of_nat 4 7 = [0, 0, 0, 7]"
  proof -
    have "(4 :: nat) = Suc (Suc (Suc (Suc 0)))" by simp
    then show ?thesis by (simp only: be_of_nat.simps) simp
  qed
  have f: "encode_grpc_frame ?d = [0, 0, 0, 0, 7, 0x0A, 5] @ ?d"
    using be by (simp add: encode_grpc_frame_eq write_varint_small len frame_outer_len_def varint_size.simps)
  have "decode_grpc_frame_data [0, 0, 0, 0] = Inr None" by (simp add: decode_grpc_frame_data_def)
  moreover have "decode_grpc_frame_data (butlast (encode_grpc_frame ?d)) = Inr None"
    unfolding f by (simp add: decode_grpc_frame_data_def frame_header_len_def nat_of_be_def as_bytes_def)
  moreover have "decode_grpc_frame_data ((encode_grpc_frame ?d)[5 := 0x0B]) = Inr None"
    unfolding f
    by (simp add: decode_grpc_frame_data_def frame_header_len_def nat_of_be_def as_bytes_def MAX_GRPC_FRAME_SIZE_def
        decode_gun_payload_def)
  moreover have "frame_header_len ([0] @ be_of_nat 4 (MAX_GRPC_FRAME_SIZE + 1)) = MAX_GRPC_FRAME_SIZE + 1"
    by (simp add: frame_header_len_def nat_of_be_of_nat MAX_GRPC_FRAME_SIZE_def)
  then have "decode_grpc_frame_data ([0] @ be_of_nat 4 (MAX_GRPC_FRAME_SIZE + 1)) = Inr None"
    by (simp add: decode_grpc_frame_data_def)
  ultimately show ?thesis by (simp add: decode_grpc_frame_data_rejects_malformed_frames_def)
qed

subsection \<open>They hold: the pool\<close>

lemmas pool_eval = Let_def conns_insert_def grpc_pool_new_def prune_idle_older_than_def prune_idle_slot_def set_conn_def
  set_slot_def

lemma grpc_stream_cancel_does_not_evict_connection_passes: "grpc_stream_cancel_does_not_evict_connection"
  by (simp add: grpc_stream_cancel_does_not_evict_connection_def is_h2_connection_error_def is_grpc_connection_error_def)

lemma pool_key_is_stable_and_endpoint_specific_passes: "pool_key_is_stable_and_endpoint_specific"
  by (simp add: pool_key_is_stable_and_endpoint_specific_def pool_key_def)

lemma prune_to_endpoints_drops_stale_pool_entries_and_closes_slot_passes: "prune_to_endpoints_drops_stale_pool_entries_and_closes_slot"
  by (auto simp: prune_to_endpoints_drops_stale_pool_entries_and_closes_slot_def pool_eval is_stale_def active_keys_def
      remove_key_def pool_key_def)

lemma prune_idle_clears_only_expired_cached_connections_passes:
  "now \<ge> 10 \<Longrightarrow> prune_idle_clears_only_expired_cached_connections now"
  by (simp add: prune_idle_clears_only_expired_cached_connections_def pool_eval pool_key_def)

lemma prune_idle_skips_when_idle_timeout_disabled_passes: "prune_idle_skips_when_idle_timeout_disabled now"
  by (simp add: prune_idle_skips_when_idle_timeout_disabled_def pool_eval prune_idle_def)

end
