(* ===== verification/Conformance_Config.thy ===== *)
theory Conformance_Config
  imports Daemon
begin

text \<open>
  The unit tests of \<^verbatim>\<open>src/config.rs\<close> and \<^verbatim>\<open>src/main.rs\<close>, run on the model. The text of a configuration is given by
  the tables a TOML reader makes of it.
\<close>

subsection \<open>What the tests use\<close>

definition no_tables :: raw_config where
  "no_tables = \<lparr>rc_log_level = None, rc_relay = None, rc_http = None, rc_subscription = None\<rparr>"

definition output_table :: "int \<Rightarrow> raw_output" where
  "output_table port = \<lparr>ro_name = Some ''main'', ro_host = Some ''relay.example.com'', ro_port = Some port,
     ro_sni = None, ro_skip_cert_verify = None, ro_process = None, ro_unknown = []\<rparr>"

definition step_table :: raw_step where
  "step_table = \<lparr>rs_filter = None, rs_filter_source = None, rs_invert = None, rs_remove = None, rs_rename = None,
     rs_remove_emoji = None, rs_override_security = None, rs_packet_encoding = None\<rparr>"

definition source_table :: "string \<Rightarrow> string option \<Rightarrow> string option \<Rightarrow> raw_source" where
  "source_table name url path = \<lparr>rr_name = Some name, rr_url = url, rr_path = path, rr_user_agent = None, rr_process = None\<rparr>"

definition with_outputs :: "raw_output list \<Rightarrow> raw_config" where
  "with_outputs outs = no_tables\<lparr>rc_http := Some (empty_http\<lparr>rh_outputs := Some outs\<rparr>)\<rparr>"

definition with_sources :: "raw_source list \<Rightarrow> raw_config" where
  "with_sources srcs = no_tables\<lparr>rc_subscription := Some (empty_subscription\<lparr>rb_sources := Some srcs\<rparr>)\<rparr>"

text \<open>The packet encoding of the first step of the first output.\<close>

definition output_encoding :: "string \<Rightarrow> packet_encoding option result" where
  "output_encoding text =
     (case deserialize_config (with_outputs [(output_table 443)\<lparr>ro_process := Some [step_table\<lparr>rs_packet_encoding := Some text\<rparr>]\<rparr>]) of
        Inl e \<Rightarrow> Inl e
      | Inr cfg \<Rightarrow> Inr (ps_packet_encoding (oc_process (http_outputs (http cfg) ! 0) ! 0)))"

subsection \<open>Configurations\<close>

definition parse_defaults_for_omitted_listen_and_http_port :: bool where
  "parse_defaults_for_omitted_listen_and_http_port \<longleftrightarrow>
     (case deserialize_config (no_tables\<lparr>rc_relay := Some (empty_relay\<lparr>ry_port := Some 12204\<rparr>),
          rc_http := Some empty_http, rc_subscription := Some empty_subscription\<rparr>) of
        Inl _ \<Rightarrow> False
      | Inr cfg \<Rightarrow>
          relay_listen (relay cfg) = ''[::]'' \<and> relay_port (relay cfg) = 12204 \<and> relay_network (relay cfg) = RelayTcp
          \<and> relay_service_name (relay cfg) = ''GunService'' \<and> relay_idle_timeout (relay cfg) = 0
          \<and> grpc_pool_idle_timeout (relay cfg) = 0 \<and> http_listen (http cfg) = ''[::]'' \<and> http_port (http cfg) = 8080)"

definition parse_defaults_when_sections_omitted :: bool where
  "parse_defaults_when_sections_omitted \<longleftrightarrow>
     (case deserialize_config (no_tables\<lparr>rc_subscription := Some empty_subscription\<rparr>) of
        Inl _ \<Rightarrow> False
      | Inr cfg \<Rightarrow>
          relay_listen (relay cfg) = ''[::]'' \<and> relay_port (relay cfg) = 10808 \<and> relay_network (relay cfg) = RelayTcp
          \<and> relay_service_name (relay cfg) = ''GunService'' \<and> http_listen (http cfg) = ''[::]'' \<and> http_port (http cfg) = 8080
          \<and> update_interval (subscription cfg) = 0 \<and> sources (subscription cfg) = [] \<and> grpc_pool_idle_timeout (relay cfg) = 0)"

definition parse_grpc_relay_network_with_default_service_name :: bool where
  "parse_grpc_relay_network_with_default_service_name \<longleftrightarrow>
     (case deserialize_config (no_tables\<lparr>rc_relay := Some (empty_relay\<lparr>ry_network := Some ''grpc'', ry_port := Some 1443\<rparr>)\<rparr>) of
        Inl _ \<Rightarrow> False
      | Inr cfg \<Rightarrow>
          relay_network (relay cfg) = RelayGrpc \<and> relay_port (relay cfg) = 1443
          \<and> relay_service_name (relay cfg) = ''GunService'' \<and> relay_idle_timeout (relay cfg) = 0
          \<and> grpc_pool_idle_timeout (relay cfg) = 0)"

definition parse_relay_timeouts :: bool where
  "parse_relay_timeouts \<longleftrightarrow>
     (case deserialize_config (no_tables\<lparr>rc_relay := Some (empty_relay\<lparr>ry_idle_timeout := Some 300,
          ry_grpc_pool_idle_timeout := Some 60\<rparr>)\<rparr>) of
        Inl _ \<Rightarrow> False
      | Inr cfg \<Rightarrow> relay_idle_timeout (relay cfg) = 300 \<and> grpc_pool_idle_timeout (relay cfg) = 60)"

definition output_rejects_transport_overrides :: bool where
  "output_rejects_transport_overrides \<longleftrightarrow>
     (case deserialize_config (with_outputs [(output_table 10808)\<lparr>ro_unknown := [''network'', ''tls'']\<rparr>]) of
        Inl (UnknownField _) \<Rightarrow> True | _ \<Rightarrow> False)"

definition output_parses_skip_cert_verify :: bool where
  "output_parses_skip_cert_verify \<longleftrightarrow>
     (case deserialize_config (with_outputs [(output_table 443)\<lparr>ro_skip_cert_verify := Some True\<rparr>]) of
        Inl _ \<Rightarrow> False | Inr cfg \<Rightarrow> oc_skip_cert_verify (http_outputs (http cfg) ! 0))"

definition output_process_parses_packet_encoding :: bool where
  "output_process_parses_packet_encoding \<longleftrightarrow> output_encoding ''packetaddr'' = Inr (Some PacketAddr)"

text \<open>The reader files the alias \<^verbatim>\<open>packetencoding\<close> under the same field.\<close>

definition output_process_accepts_packetencoding_alias :: bool where
  "output_process_accepts_packetencoding_alias \<longleftrightarrow> output_encoding ''xudp'' = Inr (Some Xudp)"

definition output_process_parses_packet_encoding_none :: bool where
  "output_process_parses_packet_encoding_none \<longleftrightarrow> output_encoding ''none'' = Inr (Some PacketDefault)"

definition output_process_rejects_unknown_packet_encoding :: bool where
  "output_process_rejects_unknown_packet_encoding \<longleftrightarrow> output_encoding ''bad'' = Inl (InvalidField ''packet_encoding'')"

definition subscription_source_accepts_url_or_path :: bool where
  "subscription_source_accepts_url_or_path \<longleftrightarrow>
     (case deserialize_config (with_sources [source_table ''remote'' (Some ''https://example.com/sub'') None,
          source_table ''local'' None (Some ''/tmp/sub.txt'')]) of
        Inl _ \<Rightarrow> False
      | Inr cfg \<Rightarrow> src_url (sources (subscription cfg) ! 0) = Some ''https://example.com/sub''
          \<and> src_path (sources (subscription cfg) ! 1) = Some ''/tmp/sub.txt'')"

definition subscription_source_rejects_missing_location :: bool where
  "subscription_source_rejects_missing_location \<longleftrightarrow>
     deserialize_config (with_sources [source_table ''broken'' None None]) = Inl SourceNoLocation"

definition subscription_source_rejects_multiple_locations :: bool where
  "subscription_source_rejects_multiple_locations \<longleftrightarrow>
     deserialize_config (with_sources [source_table ''broken'' (Some ''https://example.com/sub'') (Some ''/tmp/sub.txt'')])
     = Inl SourceBothLocations"

text \<open>The tests of \<^verbatim>\<open>load\<close>, for a directory of temporary files.\<close>

definition load_resolves_relative_subscription_path_from_config_dir :: "string \<Rightarrow> bool" where
  "load_resolves_relative_subscription_path_from_config_dir dir \<longleftrightarrow>
     (case load (\<lambda>_. Inr '''') (\<lambda>_. Inr (with_sources [source_table ''local'' None (Some ''subs/local.txt'')])) (path_join dir ''config.toml'') of
        Inl _ \<Rightarrow> False
      | Inr cfg \<Rightarrow> src_path (sources (subscription cfg) ! 0) = Some (path_join dir ''subs/local.txt''))"

definition load_keeps_absolute_subscription_path :: "string \<Rightarrow> bool" where
  "load_keeps_absolute_subscription_path dir \<longleftrightarrow>
     (let source_path = path_join dir ''local.txt'' in
      case load (\<lambda>_. Inr '''') (\<lambda>_. Inr (with_sources [source_table ''local'' None (Some source_path)])) (path_join dir ''config.toml'') of
        Inl _ \<Rightarrow> False
      | Inr cfg \<Rightarrow> src_path (sources (subscription cfg) ! 0) = Some source_path)"

subsection \<open>Settings of the running listener\<close>

definition config_with_relay :: "relay_config \<Rightarrow> config" where
  "config_with_relay r = \<lparr>log_level = ''info'', relay = r, http = default_http_config,
     subscription = default_subscription_config\<rparr>"

definition preserve_running_relay_keeps_changed_listener_settings :: bool where
  "preserve_running_relay_keeps_changed_listener_settings \<longleftrightarrow>
     (let running_relay = default_relay_config;
          reloaded_relay = running_relay\<lparr>relay_network := RelayGrpc, relay_service_name := ''OtherService'',
            relay_idle_timeout := 300, grpc_pool_idle_timeout := 60\<rparr>;
          (cfg, changed) = preserve_running_relay (config_with_relay reloaded_relay) running_relay
      in changed \<and> relay_listen (relay cfg) = relay_listen running_relay \<and> relay_port (relay cfg) = relay_port running_relay
         \<and> relay_network (relay cfg) = relay_network running_relay
         \<and> relay_service_name (relay cfg) = relay_service_name running_relay
         \<and> relay_idle_timeout (relay cfg) = 300 \<and> grpc_pool_idle_timeout (relay cfg) = 60)"

definition preserve_running_relay_allows_unchanged_listener_settings :: bool where
  "preserve_running_relay_allows_unchanged_listener_settings \<longleftrightarrow>
     (let running_relay = default_relay_config;
          (cfg, changed) = preserve_running_relay (config_with_relay running_relay) running_relay
      in \<not> changed \<and> relay cfg = running_relay)"

definition preserve_running_relay_allows_idle_timeout_changes :: bool where
  "preserve_running_relay_allows_idle_timeout_changes \<longleftrightarrow>
     (let running_relay = default_relay_config;
          reloaded_relay = running_relay\<lparr>relay_idle_timeout := 120, grpc_pool_idle_timeout := 30\<rparr>;
          (cfg, changed) = preserve_running_relay (config_with_relay reloaded_relay) running_relay
      in \<not> changed \<and> relay_idle_timeout (relay cfg) = 120 \<and> grpc_pool_idle_timeout (relay cfg) = 30)"

subsection \<open>They hold\<close>

lemmas table_eval = deserialize_config_def table_field_def deserialize_relay_def deserialize_http_def
  deserialize_subscription_def deserialize_output_def deserialize_source_def deserialize_step_def opt_field_def
  uint_field_def or_default_def required_def ok_or_def bind_result_def no_tables_def output_table_def step_table_def
  source_table_def with_outputs_def with_sources_def empty_relay_def empty_http_def empty_subscription_def
  default_relay_config_def default_http_config_def default_listen_def default_relay_port_def default_relay_network_def
  default_service_name_def default_http_port_def relay_network_deserialize_def packet_encoding_deserialize_def

lemma locations_not_blank:
  "\<not> blank (Some ''https://example.com/sub'')" "\<not> blank (Some ''/tmp/sub.txt'')" "\<not> blank (Some ''subs/local.txt'')"
  "\<not> blank (Some ''/tmp/tobira-source-path/local.txt'')"
proof -
  have "trim s = s" if "is_ascii s" "s \<noteq> []" "\<not> is_whitespace (of_char (hd s))" "\<not> is_whitespace (of_char (last s))" for s
    using trim_ascii_id that by blast
  then show "\<not> blank (Some ''https://example.com/sub'')" "\<not> blank (Some ''/tmp/sub.txt'')" "\<not> blank (Some ''subs/local.txt'')"
      "\<not> blank (Some ''/tmp/tobira-source-path/local.txt'')"
    by (simp_all add: blank_def is_ascii_def is_whitespace_def)
qed

lemma encoding_texts:
  "packet_encoding_parse ''packetaddr'' = Some PacketAddr" "packet_encoding_parse ''xudp'' = Some Xudp"
  "packet_encoding_parse ''none'' = Some PacketDefault" "packet_encoding_parse ''bad'' = None"
  by code_simp+

lemma parse_defaults_for_omitted_listen_and_http_port_passes: "parse_defaults_for_omitted_listen_and_http_port"
  by (simp add: parse_defaults_for_omitted_listen_and_http_port_def table_eval)

lemma parse_defaults_when_sections_omitted_passes: "parse_defaults_when_sections_omitted"
  by (simp add: parse_defaults_when_sections_omitted_def table_eval)

lemma parse_grpc_relay_network_with_default_service_name_passes: "parse_grpc_relay_network_with_default_service_name"
  by (simp add: parse_grpc_relay_network_with_default_service_name_def table_eval)

lemma parse_relay_timeouts_passes: "parse_relay_timeouts"
  by (simp add: parse_relay_timeouts_def table_eval)

lemma output_rejects_transport_overrides_passes: "output_rejects_transport_overrides"
  by (simp add: output_rejects_transport_overrides_def table_eval)

lemma output_parses_skip_cert_verify_passes: "output_parses_skip_cert_verify"
  by (simp add: output_parses_skip_cert_verify_def table_eval)

lemma output_process_parses_packet_encoding_passes: "output_process_parses_packet_encoding"
  by (simp add: output_process_parses_packet_encoding_def table_eval output_encoding_def encoding_texts)

lemma output_process_accepts_packetencoding_alias_passes: "output_process_accepts_packetencoding_alias"
  by (simp add: output_process_accepts_packetencoding_alias_def table_eval output_encoding_def encoding_texts)

lemma output_process_parses_packet_encoding_none_passes: "output_process_parses_packet_encoding_none"
  by (simp add: output_process_parses_packet_encoding_none_def table_eval output_encoding_def encoding_texts)

lemma output_process_rejects_unknown_packet_encoding_passes: "output_process_rejects_unknown_packet_encoding"
  by (simp add: output_process_rejects_unknown_packet_encoding_def table_eval output_encoding_def encoding_texts)

lemma subscription_source_accepts_url_or_path_passes: "subscription_source_accepts_url_or_path"
  by (simp add: subscription_source_accepts_url_or_path_def table_eval locations_not_blank)

lemma subscription_source_rejects_missing_location_passes: "subscription_source_rejects_missing_location"
  by (simp add: subscription_source_rejects_missing_location_def table_eval locations_not_blank)

lemma subscription_source_rejects_multiple_locations_passes: "subscription_source_rejects_multiple_locations"
  by (simp add: subscription_source_rejects_multiple_locations_def table_eval locations_not_blank)

lemma preserve_running_relay_keeps_changed_listener_settings_passes: "preserve_running_relay_keeps_changed_listener_settings"
  by (simp add: preserve_running_relay_keeps_changed_listener_settings_def preserve_running_relay_def config_with_relay_def default_relay_config_def Let_def
      default_relay_network_def)

lemma preserve_running_relay_allows_unchanged_listener_settings_passes: "preserve_running_relay_allows_unchanged_listener_settings"
  by (simp add: preserve_running_relay_allows_unchanged_listener_settings_def preserve_running_relay_def config_with_relay_def default_relay_config_def Let_def
      default_relay_network_def)

lemma preserve_running_relay_allows_idle_timeout_changes_passes: "preserve_running_relay_allows_idle_timeout_changes"
  by (simp add: preserve_running_relay_allows_idle_timeout_changes_def preserve_running_relay_def config_with_relay_def default_relay_config_def Let_def
      default_relay_network_def)

lemma test_dir: "path_join ''/tmp/tobira-source-path'' ''config.toml'' = ''/tmp/tobira-source-path/config.toml''"
  "path_join ''/tmp/tobira-source-path'' ''local.txt'' = ''/tmp/tobira-source-path/local.txt''"
  "path_parent ''/tmp/tobira-source-path/config.toml'' = Some ''/tmp/tobira-source-path''"
  by code_simp+

lemmas load_eval = load_def resolve_local_source_paths_def resolve_source_path_def test_dir table_eval locations_not_blank
  is_absolute_def starts_with_def

lemma load_resolves_relative_subscription_path_from_config_dir_passes:
  "load_resolves_relative_subscription_path_from_config_dir ''/tmp/tobira-source-path''"
  by (simp add: load_resolves_relative_subscription_path_from_config_dir_def load_eval)

lemma load_keeps_absolute_subscription_path_passes: "load_keeps_absolute_subscription_path ''/tmp/tobira-source-path''"
  by (simp add: load_keeps_absolute_subscription_path_def load_eval)

end
