(* ===== verification/Conformance_Auth.thy ===== *)
theory Conformance_Auth
  imports End_To_End
begin

text \<open>
  The unit tests of \<^verbatim>\<open>src/vmess/auth.rs\<close> and \<^verbatim>\<open>src/vmess/validator.rs\<close> whose outcome does not depend on the values of a
  hash function, run on the model. They hold for every cipher that decrypts what it has encrypted, at every time of the clock
  and with every choice of the random bytes.
\<close>

subsection \<open>Identifiers\<close>

definition test_uuid1 :: string where
  "test_uuid1 = ''550e8400-e29b-41d4-a716-446655440000''"

definition test_uuid2 :: string where
  "test_uuid2 = ''550e8400-e29b-41d4-a716-446655440001''"

definition test_uuid3 :: string where
  "test_uuid3 = ''550e8400-e29b-41d4-a716-446655440002''"

definition test_parse_uuid_valid :: bool where
  "test_parse_uuid_valid \<longleftrightarrow>
     (case parse_uuid test_uuid1 of
        Inl _ \<Rightarrow> False | Inr bytes \<Rightarrow> length bytes = 16 \<and> bytes ! 0 = 0x55 \<and> bytes ! 1 = 0x0e)"

definition test_parse_uuid_invalid :: bool where
  "test_parse_uuid_invalid \<longleftrightarrow> \<not> is_ok (parse_uuid ''not-a-uuid'') \<and> \<not> is_ok (parse_uuid '''')"

definition test_kdf_empty_path :: "crypto \<Rightarrow> bool" where
  "test_kdf_empty_path c \<longleftrightarrow>
     (case kdf c (as_bytes ''test-key'') [] of Inl _ \<Rightarrow> False | Inr result \<Rightarrow> length result = 32)"

text \<open>The identifier both tests build: a timestamp, four further bytes and the checksum.\<close>

definition sealed_id :: "crypto \<Rightarrow> (bytes \<Rightarrow> bytes \<Rightarrow> bytes) \<Rightarrow> auth_verifier \<Rightarrow> nat \<Rightarrow> bytes \<Rightarrow> bytes" where
  "sealed_id c enc v t r = enc (ecb_key v) (be_of_nat 8 t @ r @ be_of_nat 4 (crc32 c (be_of_nat 8 t @ r)))"

definition test_auth_id_round_trip :: "crypto \<Rightarrow> (bytes \<Rightarrow> bytes \<Rightarrow> bytes) \<Rightarrow> nat \<Rightarrow> bytes \<Rightarrow> bool" where
  "test_auth_id_round_trip c enc now r \<longleftrightarrow>
     (case from_uuid c test_uuid1 of
        Inl _ \<Rightarrow> False | Inr v \<Rightarrow> verify c now v (sealed_id c enc v now r))"

definition test_auth_id_expired_timestamp :: "crypto \<Rightarrow> (bytes \<Rightarrow> bytes \<Rightarrow> bytes) \<Rightarrow> nat \<Rightarrow> bool" where
  "test_auth_id_expired_timestamp c enc now \<longleftrightarrow>
     (case from_uuid c test_uuid1 of
        Inl _ \<Rightarrow> False
      | Inr v \<Rightarrow> \<not> verify c now v (sealed_id c enc v (now - 200) (replicate 4 0)))"

subsection \<open>Routing tables\<close>

definition tcp_upstream :: "string \<Rightarrow> nat \<Rightarrow> upstream result" where
  "tcp_upstream host port =
     (let addr_str = host @ '':'' @ show_nat port in
      case parse_socket_addr addr_str of
        None \<Rightarrow> Inl AddrParseError
      | Some parsed \<Rightarrow> Inr \<lparr>addr = addr_str, parsed_addr = parsed, transport = Tcp, tcp_fast_open = False\<rparr>)"

definition grpc_upstream_at :: "string \<Rightarrow> nat \<Rightarrow> string \<Rightarrow> upstream result" where
  "grpc_upstream_at host port sni =
     (let addr_str = host @ '':'' @ show_nat port in
      case parse_socket_addr addr_str of
        None \<Rightarrow> Inl AddrParseError
      | Some parsed \<Rightarrow> Inr \<lparr>addr = addr_str, parsed_addr = parsed,
          transport = Grpc ''GunService'' sni (''https://'' @ sni @ '':'' @ show_nat port @ ''/GunService/Tun''),
          tcp_fast_open = False\<rparr>)"

definition test_validator_routing :: "crypto \<Rightarrow> (bytes \<Rightarrow> bytes \<Rightarrow> bytes) \<Rightarrow> nat \<Rightarrow> bytes \<Rightarrow> bool" where
  "test_validator_routing c enc now r \<longleftrightarrow>
     (case tcp_upstream ''127.0.0.1'' 9000 of Inl _ \<Rightarrow> False | Inr u \<Rightarrow>
      (case (validator_new c [(test_uuid1, u)], make_auth_id c enc test_uuid1 now r) of
         (Inr validator, Inr auth_id) \<Rightarrow> map_option addr (match_auth_id c now validator auth_id) = Some (addr u)
       | _ \<Rightarrow> False))"

definition test_validator_grpc_endpoints :: "crypto \<Rightarrow> bool" where
  "test_validator_grpc_endpoints c \<longleftrightarrow>
     (case (tcp_upstream ''127.0.0.1'' 9000, grpc_upstream_at ''127.0.0.1'' 9001 ''one.example.com'',
            grpc_upstream_at ''127.0.0.1'' 9002 ''two.example.com'') of
        (Inr tcp, Inr grpc1, Inr grpc2) \<Rightarrow>
          (case validator_new c [(test_uuid1, tcp), (test_uuid2, grpc1), (test_uuid3, grpc2)] of
             Inl _ \<Rightarrow> False
           | Inr validator \<Rightarrow>
               (let endpoints = grpc_endpoints validator in
                card endpoints = 2 \<and> (''127.0.0.1:9001'', ''one.example.com'') \<in> endpoints
                \<and> (''127.0.0.1:9002'', ''two.example.com'') \<in> endpoints))
      | _ \<Rightarrow> False)"

definition test_validator_duplicate_uuid :: "crypto \<Rightarrow> bool" where
  "test_validator_duplicate_uuid c \<longleftrightarrow>
     (case tcp_upstream ''127.0.0.1'' 9000 of
        Inl _ \<Rightarrow> False
      | Inr u \<Rightarrow> (case validator_new c [(test_uuid1, u), (test_uuid1, u)] of Inl (DuplicateUuid _) \<Rightarrow> True | _ \<Rightarrow> False))"

definition test_validator_multiple_uuids :: "crypto \<Rightarrow> (bytes \<Rightarrow> bytes \<Rightarrow> bytes) \<Rightarrow> nat \<Rightarrow> bytes \<Rightarrow> bytes \<Rightarrow> bool" where
  "test_validator_multiple_uuids c enc now r1 r2 \<longleftrightarrow>
     (case (tcp_upstream ''127.0.0.1'' 9001, tcp_upstream ''127.0.0.1'' 9002) of
        (Inr up1, Inr up2) \<Rightarrow>
          (case (validator_new c [(test_uuid1, up1), (test_uuid2, up2)],
                 make_auth_id c enc test_uuid1 now r1, make_auth_id c enc test_uuid2 now r2) of
             (Inr validator, Inr id1, Inr id2) \<Rightarrow>
               map_option addr (match_auth_id c now validator id1) = Some (addr up1)
               \<and> map_option addr (match_auth_id c now validator id2) = Some (addr up2)
           | _ \<Rightarrow> False)
      | _ \<Rightarrow> False)"

subsection \<open>They hold\<close>

lemma test_uuids:
  "parse_uuid test_uuid1 = Inr [0x55, 0x0e, 0x84, 0x00, 0xe2, 0x9b, 0x41, 0xd4, 0xa7, 0x16, 0x44, 0x66, 0x55, 0x44, 0x00, 0x00]"
  "parse_uuid test_uuid2 = Inr [0x55, 0x0e, 0x84, 0x00, 0xe2, 0x9b, 0x41, 0xd4, 0xa7, 0x16, 0x44, 0x66, 0x55, 0x44, 0x00, 0x01]"
  "parse_uuid test_uuid3 = Inr [0x55, 0x0e, 0x84, 0x00, 0xe2, 0x9b, 0x41, 0xd4, 0xa7, 0x16, 0x44, 0x66, 0x55, 0x44, 0x00, 0x02]"
  by (simp_all add: parse_uuid_def test_uuid1_def test_uuid2_def test_uuid3_def digit_value_def)

lemma test_verifiers: "\<exists>v. from_uuid c test_uuid1 = Inr v" "\<exists>v. from_uuid c test_uuid2 = Inr v" "\<exists>v. from_uuid c test_uuid3 = Inr v"
  by (simp_all add: from_uuid_eq test_uuids)

lemma test_parse_uuid_valid_passes: "test_parse_uuid_valid"
  by (simp add: test_parse_uuid_valid_def test_uuids)

lemma test_parse_uuid_invalid_passes: "test_parse_uuid_invalid"
  by (simp add: test_parse_uuid_invalid_def parse_uuid_def digit_value_def is_ok_def)

lemma test_kdf_empty_path_passes: "(\<And>m. length (sha256 c m) = 32) \<Longrightarrow> test_kdf_empty_path c"
  by (simp add: test_kdf_empty_path_def kdf_eq kdf_spec_def hmac_def)

lemma sealed_verifies:
  assumes "cipher_laws c enc" and "length r = 4" and "t < 2 ^ 64"
  shows "verify c now v (sealed_id c enc v t r) \<longleftrightarrow> now \<le> t + 120 \<and> t \<le> now + 120"
proof -
  have crc: "crc32 c m < 2 ^ 32" for m using assms(1) by (simp add: cipher_laws_def)
  have "aes128_decrypt_block c (ecb_key v) (sealed_id c enc v t r) = be_of_nat 8 t @ r @ be_of_nat 4 (crc32 c (be_of_nat 8 t @ r))"
    using assms(1,2) by (simp add: cipher_laws_def sealed_id_def)
  moreover have "nat_of_be (be_of_nat 8 t) = t" using assms(3) by (intro nat_of_be_of_nat) simp
  moreover have "nat_of_be (be_of_nat 4 m) = m" if "m < 2 ^ 32" for m using that by (intro nat_of_be_of_nat) simp
  ultimately show ?thesis using assms(2) crc by (simp add: verify_def Let_def abs_diff_le)
qed

lemma test_auth_id_round_trip_passes:
  "cipher_laws c enc \<Longrightarrow> length r = 4 \<Longrightarrow> now < 2 ^ 64 \<Longrightarrow> test_auth_id_round_trip c enc now r"
  using test_verifiers(1) [of c] by (auto simp: test_auth_id_round_trip_def sealed_verifies)

lemma test_auth_id_expired_timestamp_passes:
  "cipher_laws c enc \<Longrightarrow> 200 \<le> now \<Longrightarrow> now < 2 ^ 64 \<Longrightarrow> test_auth_id_expired_timestamp c enc now"
  using test_verifiers(1) [of c] by (auto simp: test_auth_id_expired_timestamp_def sealed_verifies)

lemma local_addr: "port < 65536 \<Longrightarrow> \<exists>sa. parse_socket_addr (''127.0.0.1:'' @ show_nat port) = Some sa"
proof -
  have "show_ipv4 (Ipv4Addr 127 0 0 1) = ''127.0.0.1''" by code_simp
  then show "port < 65536 \<Longrightarrow> ?thesis" using parse_socket_addr_show_v4 [of port "Ipv4Addr 127 0 0 1"] by simp
qed

lemma local_upstream:
  "port < 65536 \<Longrightarrow> \<exists>u. tcp_upstream ''127.0.0.1'' port = Inr u \<and> addr u = ''127.0.0.1:'' @ show_nat port \<and> transport u = Tcp"
  "port < 65536 \<Longrightarrow> \<exists>u uri. grpc_upstream_at ''127.0.0.1'' port sni = Inr u \<and> addr u = ''127.0.0.1:'' @ show_nat port
     \<and> transport u = Grpc ''GunService'' sni uri"
  using local_addr [of port] by (auto simp: tcp_upstream_def grpc_upstream_at_def)

lemma made_id:
  assumes "from_uuid c u = Inr v"
  shows "make_auth_id c enc u now r = Inr (sealed_id c enc v now r)"
  using assms by (simp add: make_auth_id_def sealed_id_def Let_def)

lemma uuids_differ: "test_uuid1 \<noteq> test_uuid2" "test_uuid1 \<noteq> test_uuid3" "test_uuid2 \<noteq> test_uuid3"
  by (simp_all add: test_uuid1_def test_uuid2_def test_uuid3_def)

lemma test_validator_routing_passes:
  "cipher_laws c enc \<Longrightarrow> length r = 4 \<Longrightarrow> now < 2 ^ 64 \<Longrightarrow> test_validator_routing c enc now r"
  using test_verifiers(1) [of c] local_upstream(1) [of 9000]
  by (auto simp: test_validator_routing_def validator_new_def made_id match_auth_id_def sealed_verifies)

lemma test_validator_duplicate_uuid_passes: "test_validator_duplicate_uuid c"
  using test_verifiers(1) [of c] local_upstream(1) [of 9000]
  by (auto simp: test_validator_duplicate_uuid_def validator_new_def)

text \<open>The first UUID must not accept the identifier of the second one, which could happen by a collision of checksums.\<close>

lemma test_validator_multiple_uuids_passes:
  assumes "cipher_laws c enc" and "length r1 = 4" and "length r2 = 4" and "now < 2 ^ 64"
    and "\<And>v1 v2. from_uuid c test_uuid1 = Inr v1 \<Longrightarrow> from_uuid c test_uuid2 = Inr v2 \<Longrightarrow> \<not> verify c now v1 (sealed_id c enc v2 now r2)"
  shows "test_validator_multiple_uuids c enc now r1 r2"
proof -
  obtain v1 v2 where v: "from_uuid c test_uuid1 = Inr v1" "from_uuid c test_uuid2 = Inr v2" using test_verifiers by blast
  obtain u1 u2 where u: "tcp_upstream ''127.0.0.1'' 9001 = Inr u1" "tcp_upstream ''127.0.0.1'' 9002 = Inr u2"
    using local_upstream(1) [of 9001] local_upstream(1) [of 9002] by auto
  show ?thesis
    using u v assms(1-4) assms(5) [OF v] uuids_differ
    by (simp add: test_validator_multiple_uuids_def validator_new_def made_id match_auth_id_def sealed_verifies)
qed

lemma test_validator_grpc_endpoints_passes: "test_validator_grpc_endpoints c"
proof -
  obtain v1 v2 v3 where v: "from_uuid c test_uuid1 = Inr v1" "from_uuid c test_uuid2 = Inr v2" "from_uuid c test_uuid3 = Inr v3"
    using test_verifiers by blast
  have s: "show_nat 9001 = ''9001''" "show_nat 9002 = ''9002''" by (simp_all add: show_nat.simps) code_simp+
  obtain u1 u2 u3 uri2 uri3 where u: "tcp_upstream ''127.0.0.1'' 9000 = Inr u1" "transport u1 = Tcp"
      "grpc_upstream_at ''127.0.0.1'' 9001 ''one.example.com'' = Inr u2" "addr u2 = ''127.0.0.1:9001''"
      "transport u2 = Grpc ''GunService'' ''one.example.com'' uri2"
      "grpc_upstream_at ''127.0.0.1'' 9002 ''two.example.com'' = Inr u3" "addr u3 = ''127.0.0.1:9002''"
      "transport u3 = Grpc ''GunService'' ''two.example.com'' uri3"
    using local_upstream(1) [of 9000] local_upstream(2) [of 9001 "''one.example.com''"]
      local_upstream(2) [of 9002 "''two.example.com''"] s by auto
  show ?thesis
    using u v uuids_differ
    by (simp add: test_validator_grpc_endpoints_def validator_new_def grpc_endpoints_def grpc_endpoint_def List.map_filter_simps)
qed

end
