(* ===== verification/Spec2Isabelle.thy ===== *)
theory Spec2Isabelle
  imports Reload_Window Pooled_Buffers Conformance_Process Conformance_Parser Conformance_Server Conformance_Relay
    Conformance_Config Conformance_Auth
begin

text \<open>
  A verification library for tobira, a VMess relay daemon (sources under \<^verbatim>\<open>src/\<close>).

  \<^bold>\<open>The program.\<close> tobira fetches lists of VMess nodes (subscriptions), publishes them again as links that lead
  to itself, and relays the connections that arrive there: the first sixteen bytes of a connection
  are an encrypted identifier, which tells the UUID of a node and with it the upstream. Clients
  connect over TCP or over HTTP/2 with gRPC framing, and so do upstreams. The configuration and the
  subscriptions are reloaded while the daemon runs.

  \<^bold>\<open>The theories\<close>, in the order in which they build on one another:

  \<^item> \<open>Tobira_Prelude\<close>: machine integers, the error type and results, the shared collections and lemmas on
    lists, options and words. \<open>Rust_Str\<close>: the operations on \<^verbatim>\<open>str\<close> the sources use, on byte strings with
    UTF-8. \<open>Net_Addr\<close>: the address parsers of \<^verbatim>\<open>std::net\<close>.
  \<^item> \<open>Buf_Pool\<close> (\<^verbatim>\<open>buf.rs\<close>): the pool of byte buffers by size class.
  \<^item> \<open>Grpc_Frame\<close>, \<open>Grpc_Stream\<close>, \<open>Grpc_Pool\<close> (\<^verbatim>\<open>relay/transport/grpc.rs\<close>): varints and frames with the
    wrap-around of \<^verbatim>\<open>usize\<close>; flow-controlled sending, the incremental frame reader and the three
    copy loops; the connection pool with its slots in a heap and the interleaving of its atomic
    stretches as a step relation.
  \<^item> \<open>Vmess_Auth\<close>, \<open>Validator\<close> (\<^verbatim>\<open>vmess/auth.rs\<close>, \<^verbatim>\<open>vmess/validator.rs\<close>): key derivation, UUIDs, the
    verifier of identifiers; the routing table.
  \<^item> \<open>Config\<close> (\<^verbatim>\<open>config.rs\<close>): records, defaults, the checks of deserialisation, local paths.
  \<^item> \<open>Sub_Parser\<close>, \<open>Sub_Process\<close>, \<open>Sub_Manager\<close> (\<^verbatim>\<open>subscription/*.rs\<close>): links and subscription bodies; the
    processing pipeline and deduplication; fetching, the cache file, the routing table from nodes.
  \<^item> \<open>Http_Server\<close> (\<^verbatim>\<open>http/server.rs\<close>): routes, authentication, rendering of the published links, the
    response. \<open>Published_Links\<close> composes the link writer with the link parser, for the v2rayN and the
    Shadowrocket format.
  \<^item> \<open>Relay_Activity\<close> (\<^verbatim>\<open>relay/activity.rs\<close> and the two waiting functions): idle clock, idle timeout, waiting
    for both halves of a relay. \<open>Relay_Core\<close> (\<^verbatim>\<open>relay/core.rs\<close>, \<^verbatim>\<open>relay/runtime.rs\<close>, \<^verbatim>\<open>relay/outbound/*.rs\<close>):
    reading and matching the identifier, the TCP and the gRPC outbound, tunnels with one reconnect.
    \<open>Grpc_Inbound\<close> (\<^verbatim>\<open>relay/inbound/grpc.rs\<close>): the gRPC listener's request handler. \<open>Listeners\<close>
    (\<^verbatim>\<open>relay/inbound/*.rs\<close>, \<^verbatim>\<open>http/server.rs\<close>): the accept loops and the requests of one HTTP/2 connection.
  \<^item> \<open>Daemon\<close> (\<^verbatim>\<open>main.rs\<close>): start-up, full and subscription reloads, the event loop, the watcher's filter.
    \<open>Daemon_Tasks\<close> (\<^verbatim>\<open>main.rs\<close>): the tasks for signals, the watcher, the timer and the pruner, the two
    bounded channels and the biased selects, as a step relation that interleaves them.
  \<^item> \<open>End_To_End\<close>: the listeners \<^verbatim>\<open>main.rs\<close> spawns, and the way from a published link over the relay to the server
    of the node behind the link; the client is the one of the tests of \<^verbatim>\<open>vmess/validator.rs\<close>.
    \<open>Reload_Window\<close> (\<^verbatim>\<open>main.rs\<close>): the writes of a reload one by one, interleaved with traffic.
  \<^item> \<open>Pooled_Buffers\<close> (\<^verbatim>\<open>relay/transport/grpc.rs\<close>, \<^verbatim>\<open>relay/core.rs\<close>): the users of the buffer pool, with a pool that all
    connections share.
  \<^item> \<open>Conformance_Process\<close>, \<open>Conformance_Parser\<close>, \<open>Conformance_Server\<close>, \<open>Conformance_Relay\<close>, \<open>Conformance_Config\<close>,
    \<open>Conformance_Auth\<close>: the unit tests of the sources as definitions, under the names they have there,
    each with a lemma that it passes on the model. They guard the translation itself.

  \<^bold>\<open>How the code is translated.\<close> A struct is a record, an enum a datatype, an operation one function with the
  source's name. A \<^verbatim>\<open>Result\<close> is the sum \<open>error + 'a\<close>, a panic the error \<open>Panic\<close>. Shared state behind a lock is
  passed along explicitly; where the interleaving of tasks matters, for the connection pool and the
  tasks of the daemon, every stretch between two suspension points is a function and a relation
  interleaves them. Loops
  over streams are functions of the events the stream delivers (chunks, capacity grants, reads,
  ticks); they terminate because the pending bytes or the events get fewer. No fuel is used: a loop that
  waits for an event that never comes has the value \<open>None\<close>, and the lemmas give the capacity or the
  turns that are enough for a result. A \<^verbatim>\<open>select!\<close> takes the order of its branches from the
  environment.

  \<^bold>\<open>Library code\<close> is a parameter: SHA-256, MD5, AES and CRC (\<open>crypto\<close>), the regular-expression engine, base64,
  JSON, URL and TOML codecs, sockets, HTTP/2 and TLS (\<open>net_env\<close>, \<open>connector\<close>), \<^verbatim>\<open>copy_bidirectional\<close> and
  \<^verbatim>\<open>duplex\<close> of tokio, files and HTTP servers (\<open>world\<close>). What a theorem relies on is a named hypothesis
  (\<open>copies_streams\<close>, \<open>pipe_law\<close>, \<open>link_codec\<close>, \<open>shadowrocket_codec\<close>, \<open>authority_law\<close>, \<open>reads_back\<close>, \<open>cipher_laws\<close>; and
  \<open>unconfused\<close>, that checksums of different users do not collide), shown satisfiable by a witness. The methods
  \<^verbatim>\<open>read_exact\<close> and \<^verbatim>\<open>write_all\<close> are modelled by their documented behaviour.

  \<^bold>\<open>What is shown.\<close>

  \<^item> Relays: in all four combinations of TCP and gRPC on both sides, both parties receive exactly the
    bytes the other one sent, the identifier included, with one exception: a TCP upstream of a gRPC
    client that closes its side first gets a prefix of what the client sends. A client that is refused
    leaves no trace; a relay without traffic is closed in time; a dead pooled connection is replaced once.
  \<^item> Pool: one handshake per slot under every interleaving, ids of connections unique until the
    64-bit counter wraps, no waiter is stuck, a reload leaves
    exactly the endpoints that are still routed; and the interleaving that leaks a connection.
  \<^item> Authentication: the recursive hash states compute the nested HMAC, the verifier accepts exactly the
    identifiers within the time window, the first configured UUID wins.
  \<^item> Codecs: frames, varints, query strings, UUIDs, links and the cache file read back what was written;
    the frames of a stream do not depend on its chunks; the decoder agrees with an overflow-free
    specification, and a crafted frame makes it, and the request handler, panic.
  \<^item> Subscriptions: parsed nodes are well formed, pipelines never change endpoints, deduplication numbers
    repeated names or keeps the preferred node, a reload takes every source or its cached nodes, offline reloads restore.
  \<^item> Server: only configured users are let in, and a response depends only on the outputs listed for the user.
  \<^item> Daemon: a reload that fails changes nothing that is served, the listener's settings never change,
    published links and routing table come from one node list; and a refresh that ends the process.
  \<^item> Tasks: the interleaved tasks refine the event loop, one reload for each request, full reloads first; once the watcher runs no change of the
    configuration file is missed, a change before that is; all requests are worked off; a shutdown
    is taken before any reload; the channels are bounded.
  \<^item> Reloads while traffic runs: the writes of a reload add up to it, clients are routed by the old list
    or the new one at every moment, new links appear only with the new routing table; and a request
    matched before a reload can bring a retired endpoint back into the pool.
  \<^item> Buffers: with a pool shared by all connections every loop does what it does with fresh buffers, so no
    byte gets from one connection into another; and readers give their buffers back smaller, by the
    bytes of the frames they have read.
  \<^item> The whole: a client that imports a served link connects to the host and port configured for the output and
    reaches the server of the node the link was made from, in all four combinations of TCP and gRPC (with the
    exception above), however often the daemon has reloaded.

  Interfaces are locales: \<open>incremental_framing\<close> for a framing whose decisions are stable under more
  input (\<open>Grpc_Stream\<close>), \<open>streaming_hash\<close> for a hash that does not depend on how its input is cut
  (\<open>Vmess_Auth\<close>), \<open>buffer_pool\<close> for buffers handed out and taken back (\<open>Buf_Pool\<close>), \<open>endpoint_pool\<close> for the
  connections of one endpoint as the outbounds use them (\<open>Grpc_Pool\<close>), \<open>accepting\<close> for a listener that
  outlives the errors of its socket (\<open>Listeners\<close>), \<open>daemon_invariant\<close> for what every reload keeps
  (\<open>Daemon\<close>); each is interpreted on the definitions of the model.

  \<^bold>\<open>Not modelled.\<close> The sockets under the listeners and how the system delivers signals and file events, which
  are I/O; \<^verbatim>\<open>tls.rs\<close> and \<^verbatim>\<open>build_tls_config\<close>, which call
  rustls; log messages; \<^verbatim>\<open>error.rs\<close> and the module files, which hold no logic; the benchmark; the unit tests
  that depend on the values of a hash function or cipher, on threads or on the prost and tonic crates.
\<close>

end
